(* ===== verification/Rvpn_Prelude.thy ===== *)
theory Rvpn_Prelude
  imports Main "HOL-Library.Word"
begin

text \<open>
  The vocabulary shared by every component theory: the widths of Rust's unsigned integers, byte
  vectors, the three ways a Rust call can end (a value, an error value, a panic), the indexing and
  slicing primitives with their panics, the conversions between integers and their big-endian and
  little-endian byte sequences, and the well-formedness check behind \<open>String::from_utf8\<close>.
  The lemmas declared \<open>[simp]\<close> or collected in \<open>wire_simps\<close> and \<open>panic_simps\<close> are what the
  wire-format proofs rewrite with.
\<close>

section \<open>Machine integers and byte vectors\<close>

type_synonym u8 = "8 word"
type_synonym u16 = "16 word"
type_synonym u32 = "32 word"
type_synonym u64 = "64 word"
type_synonym bytes = "u8 list"

named_theorems wire_simps \<open>rewrite rules that run a decoder on the bytes an encoder wrote\<close>
named_theorems panic_simps \<open>rewrite rules that chase a panic through a chain of calls\<close>

section \<open>Outcomes of Rust calls\<close>

text \<open>
  \<open>Ok\<close> and \<open>Err\<close> are the constructors of \<open>Result\<close>. \<open>Panic\<close> is an unwinding or aborting
  panic: an out-of-range index or slice, or an \<open>expect\<close> on a missing value.
\<close>

datatype ('e, 'a) outcome = Ok 'a | Err 'e | Panic

fun and_then :: "('e, 'a) outcome \<Rightarrow> ('a \<Rightarrow> ('e, 'b) outcome) \<Rightarrow> ('e, 'b) outcome" where
  "and_then (Ok a) f = f a"
| "and_then (Err e) f = Err e"
| "and_then Panic f = Panic"

fun is_ok :: "('e, 'a) outcome \<Rightarrow> bool" where
  "is_ok (Ok a) = True"
| "is_ok (Err e) = False"
| "is_ok Panic = False"

definition ok_or :: "'e \<Rightarrow> 'a option \<Rightarrow> ('e, 'a) outcome" where
  "ok_or e x = (case x of None \<Rightarrow> Err e | Some a \<Rightarrow> Ok a)"

lemma ok_or_simps [simp]:
  "ok_or e None = Err e"
  "ok_or e (Some a) = Ok a"
  by (simp_all add: ok_or_def)

lemma ok_or_not_panic [simp]: "ok_or e x \<noteq> Panic"
  by (cases x) simp_all

lemma and_then_Ok_iff:
  "and_then m f = Ok b \<longleftrightarrow> (\<exists>a. m = Ok a \<and> f a = Ok b)"
  by (cases m) auto

lemma and_then_Panic_iff [panic_simps]:
  "and_then m f = Panic \<longleftrightarrow> m = Panic \<or> (\<exists>a. m = Ok a \<and> f a = Panic)"
  by (cases m) auto

text \<open>
  A \<open>&mut self\<close> method returns its outcome beside the state it leaves; \<open>st_then\<close> is the \<open>?\<close> operator
  on such calls: the state changes made before an error stay.
\<close>

fun st_then :: "('e, 'a) outcome \<times> 's \<Rightarrow> ('a \<Rightarrow> 's \<Rightarrow> ('e, 'b) outcome \<times> 's) \<Rightarrow> ('e, 'b) outcome \<times> 's" where
  "st_then (Ok a, s) f = f a s"
| "st_then (Err e, s) f = (Err e, s)"
| "st_then (Panic, s) f = (Panic, s)"

lemma st_then_induct:
  assumes "\<And>a s. r = (Ok a, s) \<Longrightarrow> P (f a s)" "\<And>e s. r = (Err e, s) \<Longrightarrow> P (Err e, s)"
    and "\<And>s. r = (Panic, s) \<Longrightarrow> P (Panic, s)"
  shows "P (st_then r f)"
  using assms by (cases "(r, f)" rule: st_then.cases) auto

lemma st_then_Ok_iff:
  "st_then r f = (Ok b, s') \<longleftrightarrow> (\<exists>a s. r = (Ok a, s) \<and> f a s = (Ok b, s'))"
  by (cases "(r, f)" rule: st_then.cases) auto

section \<open>Indexing and slicing\<close>

text \<open>\<open>bs[i]\<close>, the element list \<open>[bs[i], ..., bs[i + n - 1]]\<close>, and the slice \<open>bs[i..j]\<close>.\<close>

definition idx :: "'a list \<Rightarrow> nat \<Rightarrow> ('e, 'a) outcome" where
  "idx bs i = (if i < length bs then Ok (bs ! i) else Panic)"

primrec idxs :: "'a list \<Rightarrow> nat \<Rightarrow> nat \<Rightarrow> ('e, 'a list) outcome" where
  "idxs bs i 0 = Ok []"
| "idxs bs i (Suc n) =
     and_then (idx bs i) (\<lambda>b. and_then (idxs bs (Suc i) n) (\<lambda>r. Ok (b # r)))"

definition bslice :: "'a list \<Rightarrow> nat \<Rightarrow> nat \<Rightarrow> ('e, 'a list) outcome" where
  "bslice bs i j = (if i \<le> j \<and> j \<le> length bs then Ok (take (j - i) (drop i bs)) else Panic)"

lemma idx_ok [simp]: "i < length bs \<Longrightarrow> idx bs i = Ok (bs ! i)"
  by (simp add: idx_def)

lemma idxs_ok [simp]: "i + n \<le> length bs \<Longrightarrow> idxs bs i n = Ok (take n (drop i bs))"
proof (induction n arbitrary: i)
  case 0
  then show ?case by simp
next
  case (Suc n)
  have "take (Suc n) (drop i bs) = bs ! i # take n (drop (Suc i) bs)"
    using Suc.prems by (simp add: Cons_nth_drop_Suc [symmetric])
  then show ?case
    using Suc by simp
qed

lemma bslice_ok [simp]:
  "i \<le> j \<Longrightarrow> j \<le> length bs \<Longrightarrow> bslice bs i j = Ok (take (j - i) (drop i bs))"
  by (simp add: bslice_def)

lemma bslice_Ok_iff:
  "bslice bs i j = Ok ys \<longleftrightarrow> i \<le> j \<and> j \<le> length bs \<and> ys = take (j - i) (drop i bs)"
  by (auto simp: bslice_def)

lemma take_drop_split: "drop i bs = take n (drop i bs) @ drop (i + n) bs"
  by (metis append_take_drop_id drop_drop add.commute)

declare Let_def [wire_simps, panic_simps]
declare nth_append [wire_simps]
declare drop_Cons' [wire_simps]
declare nth_Cons' [wire_simps]

section \<open>Integers as byte sequences\<close>

text \<open>
  \<open>to_le_bytes k w\<close> and \<open>to_be_bytes k w\<close> are the \<open>k\<close>-byte sequences of \<open>uN::to_le_bytes\<close> and
  \<open>uN::to_be_bytes\<close>; \<open>from_le_bytes\<close> and \<open>from_be_bytes\<close> read them back. They go through \<open>nat\<close>:
  \<open>le_digits\<close> lists base-256 digits, least significant first.
\<close>

primrec le_digits :: "nat \<Rightarrow> nat \<Rightarrow> bytes" where
  "le_digits 0 n = []"
| "le_digits (Suc k) n = of_nat n # le_digits k (n div 256)"

primrec le_value :: "bytes \<Rightarrow> nat" where
  "le_value [] = 0"
| "le_value (b # bs) = unat b + 256 * le_value bs"

definition to_le_bytes :: "nat \<Rightarrow> 'a::len word \<Rightarrow> bytes" where
  "to_le_bytes k w = le_digits k (unat w)"

definition to_be_bytes :: "nat \<Rightarrow> 'a::len word \<Rightarrow> bytes" where
  "to_be_bytes k w = rev (to_le_bytes k w)"

definition from_le_bytes :: "bytes \<Rightarrow> 'a::len word" where
  "from_le_bytes bs = of_nat (le_value bs)"

definition from_be_bytes :: "bytes \<Rightarrow> 'a::len word" where
  "from_be_bytes bs = from_le_bytes (rev bs)"

lemma length_le_digits [simp]: "length (le_digits k n) = k"
  by (induction k arbitrary: n) simp_all

lemma length_to_le_bytes [simp]: "length (to_le_bytes k w) = k"
  by (simp add: to_le_bytes_def)

lemma length_to_be_bytes [simp]: "length (to_be_bytes k w) = k"
  by (simp add: to_be_bytes_def)

lemma unat_of_nat_byte [simp]: "unat (of_nat n :: u8) = n mod 256"
  by (simp add: unat_of_nat)

lemma unat_byte_less [simp]: "unat (b :: u8) < 256"
  using unsigned_less [of b, where 'a = nat] by simp

lemma le_value_le_digits: "le_value (le_digits k n) = n mod 256 ^ k"
  by (induction k arbitrary: n) (simp_all add: mod_mult2_eq)

lemma le_value_bound: "le_value bs < 256 ^ length bs"
proof (induction bs)
  case Nil
  then show ?case by simp
next
  case (Cons b bs)
  have "unat b + 256 * le_value bs < 256 + 256 * le_value bs"
    by simp
  also have "\<dots> = 256 * Suc (le_value bs)"
    by simp
  also have "\<dots> \<le> 256 * 256 ^ length bs"
    using Cons.IH by (intro mult_le_mono2) simp
  finally show ?case by simp
qed

lemma le_digits_le_value: "le_digits (length bs) (le_value bs) = bs"
proof (induction bs)
  case Nil
  then show ?case by simp
next
  case (Cons b bs)
  have "(of_nat (unat b + 256 * le_value bs) :: u8) = b"
    by (rule word_unat_eq_iff [THEN iffD2])
      (simp only: unat_of_nat_byte mod_mult_self2, simp)
  moreover have "(unat b + 256 * le_value bs) div 256 = le_value bs"
    by (simp add: div_add1_eq [of "unat b"])
  ultimately show ?case
    using Cons.IH by simp
qed

lemma from_le_to_le:
  "LENGTH('a) \<le> 8 * k \<Longrightarrow> from_le_bytes (to_le_bytes k (w :: 'a::len word)) = w"
proof -
  assume k: "LENGTH('a) \<le> 8 * k"
  have "unat w < 2 ^ LENGTH('a)"
    by (rule unsigned_less)
  also have "\<dots> \<le> 2 ^ (8 * k)"
    using k by (rule power_increasing) simp
  finally have "unat w < 256 ^ k"
    by (simp add: power_mult)
  then show ?thesis
    by (simp add: from_le_bytes_def to_le_bytes_def le_value_le_digits)
qed

lemma from_be_to_be:
  "LENGTH('a) \<le> 8 * k \<Longrightarrow> from_be_bytes (to_be_bytes k (w :: 'a::len word)) = w"
  by (simp add: from_be_bytes_def to_be_bytes_def from_le_to_le)

lemma to_le_from_le:
  "8 * length bs \<le> LENGTH('a) \<Longrightarrow>
     to_le_bytes (length bs) (from_le_bytes bs :: 'a::len word) = bs"
proof -
  assume k: "8 * length bs \<le> LENGTH('a)"
  have "le_value bs < 2 ^ (8 * length bs)"
    using le_value_bound [of bs] by (simp add: power_mult)
  also have "\<dots> \<le> 2 ^ LENGTH('a)"
    using k by (rule power_increasing) simp
  finally have "unat (of_nat (le_value bs) :: 'a word) = le_value bs"
    by (simp add: unat_of_nat)
  then show ?thesis
    by (simp add: to_le_bytes_def from_le_bytes_def le_digits_le_value)
qed

lemma to_be_from_be:
  "8 * length bs \<le> LENGTH('a) \<Longrightarrow>
     to_be_bytes (length bs) (from_be_bytes bs :: 'a::len word) = bs"
  using to_le_from_le [of "rev bs", where 'a = 'a]
  by (simp add: to_be_bytes_def from_be_bytes_def)

lemma unat_from_be:
  assumes "8 * length bs \<le> LENGTH('a)"
  shows "unat (from_be_bytes bs :: 'a::len word) = le_value (rev bs)"
proof -
  have "le_value (rev bs) < 2 ^ (8 * length bs)"
    using le_value_bound [of "rev bs"] by (simp add: power_mult)
  also have "\<dots> \<le> 2 ^ LENGTH('a)"
    using assms by (rule power_increasing) simp
  finally show ?thesis
    by (simp add: from_be_bytes_def from_le_bytes_def unat_of_nat)
qed

lemma mod_add_cancel: "(a + c) mod m = (b + c) mod m \<Longrightarrow> a mod m = b mod (m :: nat)"
  by (auto simp: nat_mod_eq_iff)

lemma be_roundtrips [simp]:
  "from_be_bytes (to_be_bytes 2 (a :: u16)) = a"
  "from_be_bytes (to_be_bytes 4 (b :: u32)) = b"
  "from_be_bytes (to_be_bytes 8 (c :: u64)) = c"
  by (rule from_be_to_be, simp)+

lemma le_roundtrips [simp]:
  "from_le_bytes (to_le_bytes 4 (b :: u32)) = b"
  "from_le_bytes (to_le_bytes 8 (c :: u64)) = c"
  by (rule from_le_to_le, simp)+

lemma to_be_from_be_take:
  "i + k \<le> length bs \<Longrightarrow> 8 * k \<le> LENGTH('a) \<Longrightarrow>
     to_be_bytes k (from_be_bytes (take k (drop i bs)) :: 'a::len word) = take k (drop i bs)"
  using to_be_from_be [of "take k (drop i bs)", where 'a = 'a] by simp

text \<open>Single reads at an offset, the way the decoders spell them out byte by byte.\<close>

definition read_u16_be :: "bytes \<Rightarrow> nat \<Rightarrow> ('e, u16) outcome" where
  "read_u16_be bs pos = and_then (idxs bs pos 2) (\<lambda>b. Ok (from_be_bytes b))"

definition read_u32_be :: "bytes \<Rightarrow> nat \<Rightarrow> ('e, u32) outcome" where
  "read_u32_be bs pos = and_then (idxs bs pos 4) (\<lambda>b. Ok (from_be_bytes b))"

definition read_u64_be :: "bytes \<Rightarrow> nat \<Rightarrow> ('e, u64) outcome" where
  "read_u64_be bs pos = and_then (idxs bs pos 8) (\<lambda>b. Ok (from_be_bytes b))"

lemma read_be_ok [simp]:
  "pos + 2 \<le> length bs \<Longrightarrow> read_u16_be bs pos = Ok (from_be_bytes (take 2 (drop pos bs)))"
  "pos + 4 \<le> length bs \<Longrightarrow> read_u32_be bs pos = Ok (from_be_bytes (take 4 (drop pos bs)))"
  "pos + 8 \<le> length bs \<Longrightarrow> read_u64_be bs pos = Ok (from_be_bytes (take 8 (drop pos bs)))"
  by (simp_all add: read_u16_be_def read_u32_be_def read_u64_be_def)

text \<open>The \<open>as u8\<close>, \<open>as u16\<close> and \<open>as u32\<close> casts of a length keep the low bits only.\<close>

lemma unat_of_nat_widths [simp]:
  "unat (of_nat n :: u16) = n mod 65536"
  "unat (of_nat n :: u32) = n mod 4294967296"
  "unat (of_nat n :: u64) = n mod 18446744073709551616"
  by (simp_all add: unat_of_nat)

lemma unat_word_bounds [simp]:
  "unat (a :: u16) < 65536"
  "unat (b :: u32) < 4294967296"
  "unat (c :: u64) < 18446744073709551616"
  using unsigned_less [of a, where 'a = nat] unsigned_less [of b, where 'a = nat]
    unsigned_less [of c, where 'a = nat] by simp_all

section \<open>IP addresses\<close>

text \<open>
  \<open>std::net::Ipv4Addr\<close> and \<open>Ipv6Addr\<close> are their 32 and 128 bits; \<open>octets()\<close> lists them in
  network order.
\<close>

type_synonym ipv4_addr = "32 word"
type_synonym ipv6_addr = "128 word"

datatype ip_addr = V4 ipv4_addr | V6 ipv6_addr

definition ipv4_octets :: "ipv4_addr \<Rightarrow> bytes" where
  "ipv4_octets a = to_be_bytes 4 a"

definition ipv4_new :: "u8 \<Rightarrow> u8 \<Rightarrow> u8 \<Rightarrow> u8 \<Rightarrow> ipv4_addr" where
  "ipv4_new a b c d = from_be_bytes [a, b, c, d]"

definition ipv6_octets :: "ipv6_addr \<Rightarrow> bytes" where
  "ipv6_octets a = to_be_bytes 16 a"

definition ipv6_from_octets :: "bytes \<Rightarrow> ipv6_addr" where
  "ipv6_from_octets bs = from_be_bytes bs"

lemma length_octets [simp]:
  "length (ipv4_octets a) = 4"
  "length (ipv6_octets b) = 16"
  by (simp_all add: ipv4_octets_def ipv6_octets_def)

lemma ipv6_from_octets_octets [simp]: "ipv6_from_octets (ipv6_octets a) = a"
  unfolding ipv6_from_octets_def ipv6_octets_def by (rule from_be_to_be) simp

lemma list_of_length_4: "length bs = 4 \<Longrightarrow> [bs ! 0, bs ! 1, bs ! 2, bs ! 3] = bs"
  by (rule nth_equalityI) (auto simp: less_Suc_eq numeral_eq_Suc)

lemma ipv4_new_octets [simp]:
  "ipv4_new (ipv4_octets a ! 0) (ipv4_octets a ! Suc 0) (ipv4_octets a ! 2) (ipv4_octets a ! 3) = a"
  using list_of_length_4 [of "ipv4_octets a"]
  by (simp add: ipv4_new_def ipv4_octets_def)

section \<open>UTF-8\<close>

text \<open>
  A Rust \<open>String\<close> is a byte vector that is well-formed UTF-8; \<open>String::from_utf8\<close> performs
  this check (the byte ranges of Unicode's table of well-formed sequences).
\<close>

definition utf8_cont :: "u8 \<Rightarrow> bool" where
  "utf8_cont b \<longleftrightarrow> 0x80 \<le> b \<and> b \<le> 0xBF"

fun utf8_valid :: "bytes \<Rightarrow> bool" where
  "utf8_valid [] = True"
| "utf8_valid (a # r) =
     (if a \<le> 0x7F then utf8_valid r
      else if 0xC2 \<le> a \<and> a \<le> 0xDF then
        (case r of b # r2 \<Rightarrow> utf8_cont b \<and> utf8_valid r2 | _ \<Rightarrow> False)
      else if 0xE0 \<le> a \<and> a \<le> 0xEF then
        (case r of b # c # r3 \<Rightarrow>
             utf8_cont b \<and> (a = 0xE0 \<longrightarrow> 0xA0 \<le> b) \<and> (a = 0xED \<longrightarrow> b \<le> 0x9F)
             \<and> utf8_cont c \<and> utf8_valid r3
         | _ \<Rightarrow> False)
      else if 0xF0 \<le> a \<and> a \<le> 0xF4 then
        (case r of b # c # d # r4 \<Rightarrow>
             utf8_cont b \<and> (a = 0xF0 \<longrightarrow> 0x90 \<le> b) \<and> (a = 0xF4 \<longrightarrow> b \<le> 0x8F)
             \<and> utf8_cont c \<and> utf8_cont d \<and> utf8_valid r4
         | _ \<Rightarrow> False)
      else False)"

lemma utf8_valid_ascii: "(\<And>b. b \<in> set bs \<Longrightarrow> b \<le> 0x7F) \<Longrightarrow> utf8_valid bs"
  by (induction bs) auto

definition from_utf8 :: "'e \<Rightarrow> bytes \<Rightarrow> ('e, bytes) outcome" where
  "from_utf8 e bs = (if utf8_valid bs then Ok bs else Err e)"

lemma from_utf8_ok [simp]: "utf8_valid bs \<Longrightarrow> from_utf8 e bs = Ok bs"
  by (simp add: from_utf8_def)

lemma from_utf8_not_panic [simp]: "from_utf8 e bs \<noteq> Panic"
  by (simp add: from_utf8_def)

text \<open>ASCII literals as byte vectors.\<close>

definition ascii :: "string \<Rightarrow> bytes" where
  "ascii s = map of_char s"

end
