(* ===== verification/Messages.thy ===== *)
theory Messages
  imports Rvpn_Prelude
begin

text \<open>
  The message structs that cross the tunnel (\<open>protocol/message.rs\<close>) and the header and envelope of
  a ratchet message (\<open>crypto/ratchet.rs\<close>). A Rust \<open>String\<close> field is its UTF-8 byte vector; a
  fixed-size array field \<open>[u8; N]\<close> is a byte vector, and the predicates \<open>wf_\<dots>\<close> record what the
  Rust types guarantee about both. They say nothing about lengths that the types leave open.
\<close>

record proxy_connect =
  pc_connection_id :: u64
  pc_host :: bytes
  pc_port :: u16

record proxy_response =
  pr_connection_id :: u64
  pr_success :: bool
  pr_error :: "bytes option"

record proxy_data =
  pd_connection_id :: u64
  pd_data :: bytes
  pd_close :: bool

record proxy_data_batch_item =
  bi_connection_id :: u64
  bi_data :: bytes
  bi_close :: bool

record proxy_data_batch =
  batch_items :: "proxy_data_batch_item list"

record dns_query =
  dq_query_id :: u64
  dq_domain :: bytes
  dq_query_type :: u16

record dns_response =
  dr_query_id :: u64
  dr_success :: bool
  dr_ipv4_addrs :: "ipv4_addr list"
  dr_ipv6_addrs :: "ipv6_addr list"
  dr_ttl :: u32
  dr_error :: "bytes option"

record message_header =
  dh_public :: "bytes option"
  message_number :: u32
  previous_chain_length :: u32
  payload_type :: u8

record ratchet_message =
  header :: message_header
  nonce :: bytes
  ciphertext :: bytes

text \<open>\<open>NONCE_SIZE\<close> of \<open>crypto/cipher.rs\<close>; \<open>to_bytes\<close> of \<open>MessageHeader\<close>.\<close>

definition NONCE_SIZE :: nat where
  "NONCE_SIZE = 12"

definition header_to_bytes :: "message_header \<Rightarrow> bytes" where
  "header_to_bytes h =
     [of_bool (dh_public h \<noteq> None)]
     @ (case dh_public h of None \<Rightarrow> [] | Some dh \<Rightarrow> dh)
     @ to_be_bytes 4 (message_number h)
     @ to_be_bytes 4 (previous_chain_length h)
     @ [payload_type h]"

definition wf_header :: "message_header \<Rightarrow> bool" where
  "wf_header h \<longleftrightarrow> (\<forall>dh. dh_public h = Some dh \<longrightarrow> length dh = 32)"

definition wf_ratchet_message :: "ratchet_message \<Rightarrow> bool" where
  "wf_ratchet_message m \<longleftrightarrow> wf_header (header m) \<and> length (nonce m) = NONCE_SIZE"

text \<open>The header is 10 bytes without a DH key and 42 bytes with one.\<close>

lemma length_header_to_bytes:
  "wf_header h \<Longrightarrow> length (header_to_bytes h) = (if dh_public h = None then 10 else 42)"
  by (auto simp: header_to_bytes_def wf_header_def)

end
