(* ===== verification/Codec.thy ===== *)
theory Codec
  imports Messages
begin

text \<open>
  The hand-written binary codec of \<open>protocol/codec.rs\<close>: one encoder and one decoder per message,
  with the decoder's bounds checks in source order and its error strings, and the 4-byte length
  prefix for streams. Decoders read through \<open>idx\<close>, \<open>idxs\<close> and \<open>bslice\<close>, which panic out of range,
  so that "no input makes a decoder panic" is a statement about the checks.

  A position in a slice is a \<open>usize\<close>, whose width \<open>W\<close> depends on the target: 64 bits, or 32 on ARMv7. Sums
  of a position and a constant, a \<open>u8\<close> or a \<open>u16\<close> stay in range, because a slice has fewer than \<open>2 ^ (W - 1)\<close>
  bytes. The three decoders that add a \<open>u32\<close> from the wire to a position take \<open>W\<close> as an argument and wrap
  around as a release build does.
\<close>

section \<open>Positions\<close>

definition usize_add :: "nat \<Rightarrow> nat \<Rightarrow> nat \<Rightarrow> nat" where
  "usize_add W a b = (a + b) mod 2 ^ W"

lemma usize_add_fits [simp]: "a + b < 2 ^ W \<Longrightarrow> usize_add W a b = a + b"
  by (simp add: usize_add_def)

lemma usize_add_wraps: "2 ^ W \<le> a + b \<Longrightarrow> b < 2 ^ W \<Longrightarrow> a < 2 ^ W \<Longrightarrow> usize_add W a b < a"
  by (simp add: usize_add_def mod_if [of "a + b"])

section \<open>Message types\<close>

definition TYPE_PROXY_CONNECT :: u8 where "TYPE_PROXY_CONNECT = 0x01"
definition TYPE_PROXY_RESPONSE :: u8 where "TYPE_PROXY_RESPONSE = 0x02"
definition TYPE_PROXY_DATA :: u8 where "TYPE_PROXY_DATA = 0x03"
definition TYPE_RATCHET_MESSAGE :: u8 where "TYPE_RATCHET_MESSAGE = 0x04"
definition TYPE_DNS_QUERY :: u8 where "TYPE_DNS_QUERY = 0x05"
definition TYPE_DNS_RESPONSE :: u8 where "TYPE_DNS_RESPONSE = 0x06"
definition TYPE_PROXY_DATA_BATCH :: u8 where "TYPE_PROXY_DATA_BATCH = 0x0A"

section \<open>ProxyConnect\<close>

definition encode_proxy_connect :: "proxy_connect \<Rightarrow> bytes" where
  "encode_proxy_connect msg =
     [TYPE_PROXY_CONNECT]
     @ to_be_bytes 8 (pc_connection_id msg)
     @ [of_nat (length (pc_host msg))]
     @ pc_host msg
     @ to_be_bytes 2 (pc_port msg)"

definition decode_proxy_connect :: "bytes \<Rightarrow> (string, proxy_connect) outcome" where
  "decode_proxy_connect bs =
     (if bs = [] \<or> idx bs 0 \<noteq> (Ok TYPE_PROXY_CONNECT :: (string, u8) outcome)
      then Err ''Invalid message type''
      else let pos = 1 in
      if length bs < pos + 8 then Err ''Insufficient data for connection_id''
      else and_then (read_u64_be bs pos) (\<lambda>connection_id. let pos = pos + 8 in
      if length bs < pos + 1 then Err ''Insufficient data for host length''
      else and_then (idx bs pos) (\<lambda>hl. let host_len = unat hl; pos = pos + 1 in
      if length bs < pos + host_len then Err ''Insufficient data for host''
      else and_then (bslice bs pos (pos + host_len)) (\<lambda>raw.
      and_then (from_utf8 ''Invalid UTF-8 in host'' raw) (\<lambda>host. let pos = pos + host_len in
      if length bs < pos + 2 then Err ''Insufficient data for port''
      else and_then (read_u16_be bs pos) (\<lambda>port.
      Ok \<lparr>pc_connection_id = connection_id, pc_host = host, pc_port = port\<rparr>))))))"

section \<open>ProxyResponse\<close>

definition encode_proxy_response :: "proxy_response \<Rightarrow> bytes" where
  "encode_proxy_response msg =
     (let error_bytes = (case pr_error msg of None \<Rightarrow> [] | Some e \<Rightarrow> e) in
      [TYPE_PROXY_RESPONSE]
      @ to_be_bytes 8 (pr_connection_id msg)
      @ [of_bool (pr_success msg)]
      @ to_be_bytes 2 (of_nat (length error_bytes) :: u16)
      @ error_bytes)"

definition decode_proxy_response :: "bytes \<Rightarrow> (string, proxy_response) outcome" where
  "decode_proxy_response bs =
     (if bs = [] \<or> idx bs 0 \<noteq> (Ok TYPE_PROXY_RESPONSE :: (string, u8) outcome)
      then Err ''Invalid message type''
      else let pos = 1 in
      if length bs < pos + 8 then Err ''Insufficient data for connection_id''
      else and_then (read_u64_be bs pos) (\<lambda>connection_id. let pos = pos + 8 in
      if length bs < pos + 1 then Err ''Insufficient data for success flag''
      else and_then (idx bs pos) (\<lambda>sf. let success = (sf \<noteq> 0); pos = pos + 1 in
      if length bs < pos + 2 then Err ''Insufficient data for error length''
      else and_then (read_u16_be bs pos) (\<lambda>el. let error_len = unat el; pos = pos + 2 in
      if length bs < pos + error_len then Err ''Insufficient data for error message''
      else and_then
        (if error_len > 0
         then and_then (bslice bs pos (pos + error_len)) (\<lambda>raw.
              and_then (from_utf8 ''Invalid UTF-8 in error message'' raw) (\<lambda>s. Ok (Some s)))
         else Ok None) (\<lambda>error.
      Ok \<lparr>pr_connection_id = connection_id, pr_success = success, pr_error = error\<rparr>)))))"

section \<open>ProxyData and ProxyDataBatch\<close>

definition encode_proxy_data :: "proxy_data \<Rightarrow> bytes" where
  "encode_proxy_data msg =
     [TYPE_PROXY_DATA]
     @ to_be_bytes 8 (pd_connection_id msg)
     @ [of_bool (pd_close msg)]
     @ to_be_bytes 4 (of_nat (length (pd_data msg)) :: u32)
     @ pd_data msg"

definition decode_proxy_data :: "nat \<Rightarrow> bytes \<Rightarrow> (string, proxy_data) outcome" where
  "decode_proxy_data W bs =
     (if bs = [] \<or> idx bs 0 \<noteq> (Ok TYPE_PROXY_DATA :: (string, u8) outcome)
      then Err ''Invalid message type''
      else let pos = 1 in
      if length bs < pos + 8 then Err ''Insufficient data for connection_id''
      else and_then (read_u64_be bs pos) (\<lambda>connection_id. let pos = pos + 8 in
      if length bs < pos + 1 then Err ''Insufficient data for close flag''
      else and_then (idx bs pos) (\<lambda>cf. let close = (cf \<noteq> 0); pos = pos + 1 in
      if length bs < pos + 4 then Err ''Insufficient data for data length''
      else and_then (read_u32_be bs pos) (\<lambda>dl. let data_len = unat dl; pos = pos + 4 in
      if length bs < usize_add W pos data_len then Err ''Insufficient data for data payload''
      else and_then (bslice bs pos (usize_add W pos data_len)) (\<lambda>data.
      Ok \<lparr>pd_connection_id = connection_id, pd_data = data, pd_close = close\<rparr>)))))"

definition encode_batch_item :: "proxy_data_batch_item \<Rightarrow> bytes" where
  "encode_batch_item item =
     to_be_bytes 8 (bi_connection_id item)
     @ [of_bool (bi_close item)]
     @ to_be_bytes 4 (of_nat (length (bi_data item)) :: u32)
     @ bi_data item"

definition encode_proxy_data_batch :: "proxy_data_batch \<Rightarrow> bytes" where
  "encode_proxy_data_batch batch =
     [TYPE_PROXY_DATA_BATCH]
     @ to_be_bytes 2 (of_nat (length (batch_items batch)) :: u16)
     @ concat (map encode_batch_item (batch_items batch))"

text \<open>The \<open>for _ in 0..item_count\<close> loop, with the cursor and the items pushed so far.\<close>

primrec decode_batch_items ::
  "nat \<Rightarrow> nat \<Rightarrow> bytes \<Rightarrow> nat \<Rightarrow> proxy_data_batch_item list \<Rightarrow>
     (string, proxy_data_batch_item list) outcome" where
  "decode_batch_items W 0 bs pos items = Ok items"
| "decode_batch_items W (Suc n) bs pos items =
     (if length bs < pos + 8 then Err ''Insufficient data for connection_id''
      else and_then (read_u64_be bs pos) (\<lambda>connection_id. let pos = pos + 8 in
      if length bs < pos + 1 then Err ''Insufficient data for close flag''
      else and_then (idx bs pos) (\<lambda>cf. let close = (cf \<noteq> 0); pos = pos + 1 in
      if length bs < pos + 4 then Err ''Insufficient data for data length''
      else and_then (read_u32_be bs pos) (\<lambda>dl. let data_len = unat dl; pos = pos + 4 in
      if length bs < usize_add W pos data_len then Err ''Insufficient data for data payload''
      else and_then (bslice bs pos (usize_add W pos data_len)) (\<lambda>data.
      decode_batch_items W n bs (usize_add W pos data_len)
        (items @ [\<lparr>bi_connection_id = connection_id, bi_data = data, bi_close = close\<rparr>]))))))"

definition decode_proxy_data_batch :: "nat \<Rightarrow> bytes \<Rightarrow> (string, proxy_data_batch) outcome" where
  "decode_proxy_data_batch W bs =
     (if bs = [] \<or> idx bs 0 \<noteq> (Ok TYPE_PROXY_DATA_BATCH :: (string, u8) outcome)
      then Err ''Invalid message type''
      else let pos = 1 in
      if length bs < pos + 2 then Err ''Insufficient data for item count''
      else and_then (read_u16_be bs pos) (\<lambda>ic. let item_count = unat ic; pos = pos + 2 in
      and_then (decode_batch_items W item_count bs pos []) (\<lambda>items. Ok \<lparr>batch_items = items\<rparr>)))"

section \<open>RatchetMessage\<close>

definition MAX_CIPHERTEXT_LEN :: nat where
  "MAX_CIPHERTEXT_LEN = 10 * 1024 * 1024"

definition encode_ratchet_message :: "ratchet_message \<Rightarrow> bytes" where
  "encode_ratchet_message msg =
     (let hdr = header msg in
      [TYPE_RATCHET_MESSAGE]
      @ [of_bool (dh_public hdr \<noteq> None)]
      @ (case dh_public hdr of None \<Rightarrow> [] | Some dh \<Rightarrow> dh)
      @ to_be_bytes 4 (message_number hdr)
      @ to_be_bytes 4 (previous_chain_length hdr)
      @ [payload_type hdr]
      @ nonce msg
      @ to_be_bytes 4 (of_nat (length (ciphertext msg)) :: u32)
      @ ciphertext msg)"

definition decode_ratchet_message :: "bytes \<Rightarrow> (string, ratchet_message) outcome" where
  "decode_ratchet_message bs =
     (if bs = [] \<or> idx bs 0 \<noteq> (Ok TYPE_RATCHET_MESSAGE :: (string, u8) outcome)
      then Err ''Invalid message type''
      else let pos = 1 in
      if length bs < pos + 1 then Err ''Insufficient data for header flags''
      else and_then (idx bs pos) (\<lambda>hd. let has_dh_public = (hd \<noteq> 0); pos = pos + 1 in
      and_then
        (if has_dh_public
         then if length bs < pos + 32 then Err ''Insufficient data for DH public key''
              else and_then (bslice bs pos (pos + 32)) (\<lambda>dh. Ok (pos + 32, Some dh))
         else Ok (pos, None)) (\<lambda>(pos, dh).
      if length bs < pos + 4 then Err ''Insufficient data for message number''
      else and_then (read_u32_be bs pos) (\<lambda>mn. let pos = pos + 4 in
      if length bs < pos + 4 then Err ''Insufficient data for previous chain length''
      else and_then (read_u32_be bs pos) (\<lambda>pcl. let pos = pos + 4 in
      if length bs < pos + 1 then Err ''Insufficient data for payload type''
      else and_then (idx bs pos) (\<lambda>pt. let pos = pos + 1;
        hdr = \<lparr>dh_public = dh, message_number = mn, previous_chain_length = pcl,
               payload_type = pt\<rparr> in
      if length bs < pos + NONCE_SIZE then Err ''Insufficient data for nonce''
      else and_then (bslice bs pos (pos + NONCE_SIZE)) (\<lambda>n. let pos = pos + NONCE_SIZE in
      if length bs < pos + 4 then Err ''Insufficient data for ciphertext length''
      else and_then (read_u32_be bs pos) (\<lambda>cl. let ciphertext_len = unat cl; pos = pos + 4 in
      if ciphertext_len > MAX_CIPHERTEXT_LEN
      then Err ''Ciphertext length exceeds maximum allowed size''
      else if length bs < pos + ciphertext_len then Err ''Insufficient data for ciphertext''
      else and_then (bslice bs pos (pos + ciphertext_len)) (\<lambda>ct.
      Ok \<lparr>header = hdr, nonce = n, ciphertext = ct\<rparr>)))))))))"

section \<open>Length prefix\<close>

definition encode_with_length_prefix :: "bytes \<Rightarrow> bytes" where
  "encode_with_length_prefix data = to_be_bytes 4 (of_nat (length data) :: u32) @ data"

text \<open>The result is an \<open>Option\<close>; slicing could still panic, so it sits inside an outcome.\<close>

definition decode_from_length_prefix :: "nat \<Rightarrow> bytes \<Rightarrow> (string, (bytes \<times> nat) option) outcome" where
  "decode_from_length_prefix W bs =
     (if length bs < 4 then Ok None
      else and_then (read_u32_be bs 0) (\<lambda>l. let len = unat l in
      if length bs < usize_add W 4 len then Ok None
      else and_then (bslice bs 4 (usize_add W 4 len)) (\<lambda>payload. Ok (Some (payload, usize_add W 4 len)))))"

section \<open>DnsQuery and DnsResponse\<close>

definition encode_dns_query :: "dns_query \<Rightarrow> bytes" where
  "encode_dns_query msg =
     [TYPE_DNS_QUERY]
     @ to_be_bytes 8 (dq_query_id msg)
     @ to_be_bytes 2 (dq_query_type msg)
     @ [of_nat (length (dq_domain msg))]
     @ dq_domain msg"

definition decode_dns_query :: "bytes \<Rightarrow> (string, dns_query) outcome" where
  "decode_dns_query bs =
     (if bs = [] \<or> idx bs 0 \<noteq> (Ok TYPE_DNS_QUERY :: (string, u8) outcome)
      then Err ''Invalid message type''
      else let pos = 1 in
      if length bs < pos + 8 then Err ''Insufficient data for query_id''
      else and_then (read_u64_be bs pos) (\<lambda>query_id. let pos = pos + 8 in
      if length bs < pos + 2 then Err ''Insufficient data for query_type''
      else and_then (read_u16_be bs pos) (\<lambda>query_type. let pos = pos + 2 in
      if length bs < pos + 1 then Err ''Insufficient data for domain length''
      else and_then (idx bs pos) (\<lambda>dl. let domain_len = unat dl; pos = pos + 1 in
      if length bs < pos + domain_len then Err ''Insufficient data for domain''
      else and_then (bslice bs pos (pos + domain_len)) (\<lambda>raw.
      and_then (from_utf8 ''Invalid UTF-8 in domain'' raw) (\<lambda>domain.
      Ok \<lparr>dq_query_id = query_id, dq_domain = domain, dq_query_type = query_type\<rparr>))))))"

definition encode_dns_response :: "dns_response \<Rightarrow> bytes" where
  "encode_dns_response msg =
     (let error_bytes = (case dr_error msg of None \<Rightarrow> [] | Some e \<Rightarrow> e) in
      [TYPE_DNS_RESPONSE]
      @ to_be_bytes 8 (dr_query_id msg)
      @ [of_bool (dr_success msg)]
      @ to_be_bytes 4 (dr_ttl msg)
      @ [of_nat (length (dr_ipv4_addrs msg))]
      @ concat (map ipv4_octets (dr_ipv4_addrs msg))
      @ [of_nat (length (dr_ipv6_addrs msg))]
      @ concat (map ipv6_octets (dr_ipv6_addrs msg))
      @ to_be_bytes 2 (of_nat (length error_bytes) :: u16)
      @ error_bytes)"

text \<open>The two address loops; each returns the addresses pushed and leaves the cursor behind them.\<close>

primrec decode_ipv4_addrs ::
  "nat \<Rightarrow> bytes \<Rightarrow> nat \<Rightarrow> ipv4_addr list \<Rightarrow> (string, ipv4_addr list) outcome" where
  "decode_ipv4_addrs 0 bs pos acc = Ok acc"
| "decode_ipv4_addrs (Suc n) bs pos acc =
     and_then (idx bs pos) (\<lambda>a. and_then (idx bs (pos + 1)) (\<lambda>b.
     and_then (idx bs (pos + 2)) (\<lambda>c. and_then (idx bs (pos + 3)) (\<lambda>d.
     decode_ipv4_addrs n bs (pos + 4) (acc @ [ipv4_new a b c d])))))"

primrec decode_ipv6_addrs ::
  "nat \<Rightarrow> bytes \<Rightarrow> nat \<Rightarrow> ipv6_addr list \<Rightarrow> (string, ipv6_addr list) outcome" where
  "decode_ipv6_addrs 0 bs pos acc = Ok acc"
| "decode_ipv6_addrs (Suc n) bs pos acc =
     and_then (bslice bs pos (pos + 16)) (\<lambda>octets.
     decode_ipv6_addrs n bs (pos + 16) (acc @ [ipv6_from_octets octets]))"

definition decode_dns_response :: "bytes \<Rightarrow> (string, dns_response) outcome" where
  "decode_dns_response bs =
     (if bs = [] \<or> idx bs 0 \<noteq> (Ok TYPE_DNS_RESPONSE :: (string, u8) outcome)
      then Err ''Invalid message type''
      else let pos = 1 in
      if length bs < pos + 8 then Err ''Insufficient data for query_id''
      else and_then (read_u64_be bs pos) (\<lambda>query_id. let pos = pos + 8 in
      if length bs < pos + 1 then Err ''Insufficient data for success flag''
      else and_then (idx bs pos) (\<lambda>sf. let success = (sf \<noteq> 0); pos = pos + 1 in
      if length bs < pos + 4 then Err ''Insufficient data for TTL''
      else and_then (read_u32_be bs pos) (\<lambda>ttl. let pos = pos + 4 in
      if length bs < pos + 1 then Err ''Insufficient data for IPv4 count''
      else and_then (idx bs pos) (\<lambda>c4. let ipv4_count = unat c4; pos = pos + 1 in
      if length bs < pos + ipv4_count * 4 then Err ''Insufficient data for IPv4 addresses''
      else and_then (decode_ipv4_addrs ipv4_count bs pos []) (\<lambda>ipv4_addrs.
      let pos = pos + ipv4_count * 4 in
      if length bs < pos + 1 then Err ''Insufficient data for IPv6 count''
      else and_then (idx bs pos) (\<lambda>c6. let ipv6_count = unat c6; pos = pos + 1 in
      if length bs < pos + ipv6_count * 16 then Err ''Insufficient data for IPv6 addresses''
      else and_then (decode_ipv6_addrs ipv6_count bs pos []) (\<lambda>ipv6_addrs.
      let pos = pos + ipv6_count * 16 in
      if length bs < pos + 2 then Err ''Insufficient data for error length''
      else and_then (read_u16_be bs pos) (\<lambda>el. let error_len = unat el; pos = pos + 2 in
      if length bs < pos + error_len then Err ''Insufficient data for error message''
      else and_then
        (if error_len > 0
         then and_then (bslice bs pos (pos + error_len)) (\<lambda>raw.
              and_then (from_utf8 ''Invalid UTF-8 in error message'' raw) (\<lambda>s. Ok (Some s)))
         else Ok None) (\<lambda>error.
      Ok \<lparr>dr_query_id = query_id, dr_success = success, dr_ipv4_addrs = ipv4_addrs,
          dr_ipv6_addrs = ipv6_addrs, dr_ttl = ttl, dr_error = error\<rparr>))))))))))"

section \<open>Decoding what was encoded\<close>

text \<open>
  Each lemma lets arbitrary bytes follow the encoding: the decoders read a prefix and ignore the
  rest. The length premises are the widths of the length fields.
\<close>

lemma decode_encode_proxy_connect:
  "utf8_valid (pc_host m) \<Longrightarrow> length (pc_host m) < 256 \<Longrightarrow>
     decode_proxy_connect (encode_proxy_connect m @ rest) = Ok m"
  by (simp add: decode_proxy_connect_def encode_proxy_connect_def wire_simps)

lemma decode_encode_proxy_response:
  "(\<And>e. pr_error m = Some e \<Longrightarrow> utf8_valid e \<and> e \<noteq> [] \<and> length e < 65536) \<Longrightarrow>
     decode_proxy_response (encode_proxy_response m @ rest) = Ok m"
  by (cases "pr_error m")
     (simp_all add: decode_proxy_response_def encode_proxy_response_def wire_simps)

lemma decode_encode_proxy_data:
  "length (pd_data m) < 2 ^ 32 \<Longrightarrow> length (encode_proxy_data m) < 2 ^ W \<Longrightarrow>
     decode_proxy_data W (encode_proxy_data m @ rest) = Ok m"
  by (simp add: decode_proxy_data_def encode_proxy_data_def wire_simps)

lemma decode_batch_items_concat:
  "(\<And>i. i \<in> set items \<Longrightarrow> length (bi_data i) < 2 ^ 32) \<Longrightarrow>
   length (pre @ concat (map encode_batch_item items)) < 2 ^ W \<Longrightarrow>
     decode_batch_items W (length items) (pre @ concat (map encode_batch_item items) @ rest)
       (length pre) acc = Ok (acc @ items)"
proof (induction items arbitrary: pre acc)
  case Nil
  then show ?case by simp
next
  case (Cons i items)
  from Cons.prems have "length (bi_data i) < 2 ^ 32" by simp
  moreover have "length pre + 13 + length (bi_data i) < 2 ^ W"
    using Cons.prems(2) by (simp add: encode_batch_item_def)
  ultimately show ?case
    using Cons.IH [of "pre @ encode_batch_item i" "acc @ [i]"] Cons.prems
    by (cases i, cases "bi_close i")
       (simp_all add: encode_batch_item_def nth_append ac_simps Let_def)
qed

lemma decode_encode_proxy_data_batch:
  "length (batch_items m) < 65536 \<Longrightarrow>
   (\<And>i. i \<in> set (batch_items m) \<Longrightarrow> length (bi_data i) < 2 ^ 32) \<Longrightarrow>
   length (encode_proxy_data_batch m) < 2 ^ W \<Longrightarrow>
     decode_proxy_data_batch W (encode_proxy_data_batch m @ rest) = Ok m"
  using decode_batch_items_concat [of "batch_items m"
      "TYPE_PROXY_DATA_BATCH # to_be_bytes 2 (of_nat (length (batch_items m)) :: u16)" W rest "[]"]
  by (simp add: decode_proxy_data_batch_def encode_proxy_data_batch_def Let_def numeral_3_eq_3)

lemma decode_encode_ratchet_message:
  "wf_ratchet_message m \<Longrightarrow> length (ciphertext m) \<le> MAX_CIPHERTEXT_LEN \<Longrightarrow>
     decode_ratchet_message (encode_ratchet_message m @ rest) = Ok m"
  by (cases "dh_public (header m)")
     (simp_all add: decode_ratchet_message_def encode_ratchet_message_def Let_def nth_append
        wf_ratchet_message_def wf_header_def NONCE_SIZE_def MAX_CIPHERTEXT_LEN_def)

lemma decode_encode_dns_query:
  "utf8_valid (dq_domain m) \<Longrightarrow> length (dq_domain m) < 256 \<Longrightarrow>
     decode_dns_query (encode_dns_query m @ rest) = Ok m"
  by (simp add: decode_dns_query_def encode_dns_query_def wire_simps)

lemma decode_ipv4_addrs_concat:
  "decode_ipv4_addrs (length as) (pre @ concat (map ipv4_octets as) @ rest) (length pre) acc
     = Ok (acc @ as)"
proof (induction as arbitrary: pre acc)
  case Nil
  then show ?case by simp
next
  case (Cons a as)
  from Cons.IH [of "pre @ ipv4_octets a" "acc @ [a]"] show ?case
    by (simp add: nth_append add.commute)
qed

lemma decode_ipv6_addrs_concat:
  "decode_ipv6_addrs (length as) (pre @ concat (map ipv6_octets as) @ rest) (length pre) acc
     = Ok (acc @ as)"
proof (induction as arbitrary: pre acc)
  case Nil
  then show ?case by simp
next
  case (Cons a as)
  from Cons.IH [of "pre @ ipv6_octets a" "acc @ [a]"] show ?case
    by (simp add: add.commute)
qed

lemma length_concat_octets [simp]:
  "length (concat (map ipv4_octets as)) = length as * 4"
  "length (concat (map ipv6_octets bs)) = length bs * 16"
  by (induction as, simp_all, induction bs, simp_all)

lemma decode_encode_dns_response:
  assumes "length (dr_ipv4_addrs m) < 256" "length (dr_ipv6_addrs m) < 256"
    and "\<And>e. dr_error m = Some e \<Longrightarrow> utf8_valid e \<and> e \<noteq> [] \<and> length e < 65536"
  shows "decode_dns_response (encode_dns_response m @ rest) = Ok m"
proof -
  let ?pre4 = "[TYPE_DNS_RESPONSE] @ to_be_bytes 8 (dr_query_id m) @ [of_bool (dr_success m)]
     @ to_be_bytes 4 (dr_ttl m) @ [of_nat (length (dr_ipv4_addrs m)) :: u8]"
  let ?pre6 = "?pre4 @ concat (map ipv4_octets (dr_ipv4_addrs m))
     @ [of_nat (length (dr_ipv6_addrs m))]"
  have l: "length ?pre4 = 15" "length ?pre6 = 16 + length (dr_ipv4_addrs m) * 4"
    by simp_all
  show ?thesis
    using assms decode_ipv4_addrs_concat [of "dr_ipv4_addrs m" ?pre4 _ "[]"]
      decode_ipv6_addrs_concat [of "dr_ipv6_addrs m" ?pre6 _ "[]"]
    by (cases "dr_error m")
       (simp_all add: decode_dns_response_def encode_dns_response_def l wire_simps)
qed

lemma decode_encode_length_prefix:
  "length data < 2 ^ 32 \<Longrightarrow> length (encode_with_length_prefix data) < 2 ^ W \<Longrightarrow>
     decode_from_length_prefix W (encode_with_length_prefix data @ rest)
       = Ok (Some (data, length (encode_with_length_prefix data)))"
  by (simp add: decode_from_length_prefix_def encode_with_length_prefix_def)

section \<open>Freedom from panics\<close>

lemma decode_proxy_connect_no_panic: "decode_proxy_connect bs \<noteq> Panic"
  by (auto simp: decode_proxy_connect_def panic_simps split: if_splits)

lemma decode_proxy_response_no_panic: "decode_proxy_response bs \<noteq> Panic"
  by (auto simp: decode_proxy_response_def panic_simps split: if_splits)

text \<open>
  The decoders that add a \<open>u32\<close> to a position panic exactly when the sum exceeds the range of \<open>usize\<close>: the
  wrapped sum passes the check and is smaller than the start of the slice.
\<close>

definition u32_at :: "bytes \<Rightarrow> nat \<Rightarrow> nat" where
  "u32_at bs pos = unat (from_be_bytes (take 4 (drop pos bs)) :: u32)"

lemma u32_at_less: "32 \<le> W \<Longrightarrow> u32_at bs pos < 2 ^ W"
proof -
  have "unat (x :: u32) < 2 ^ LENGTH(32)" for x by (rule unsigned_less)
  then have "u32_at bs pos < 2 ^ 32" by (simp add: u32_at_def)
  moreover assume "32 \<le> W"
  ultimately show ?thesis using power_increasing [of 32 W "2 :: nat"] by linarith
qed

lemma slice_after_check:
  assumes "pos \<le> length bs" "length bs < 2 ^ W" "n < 2 ^ W" "\<not> length bs < usize_add W pos n"
  shows "bslice bs pos (usize_add W pos n) = (Panic :: (string, bytes) outcome) \<longleftrightarrow> 2 ^ W \<le> pos + n"
proof (cases "2 ^ W \<le> pos + n")
  case True
  then show ?thesis using usize_add_wraps [OF True assms(3)] assms(1,2) by (simp add: bslice_def)
next
  case False
  then show ?thesis using assms by (simp add: bslice_def)
qed

lemma wrapped_passes_check:
  assumes "pos \<le> length bs" "length bs < 2 ^ W" "n < 2 ^ W" "2 ^ W \<le> pos + n"
  shows "\<not> length bs < usize_add W pos n"
  using usize_add_wraps [OF assms(4,3)] assms(1,2) by linarith

lemma decode_proxy_data_panic_iff:
  assumes "32 \<le> W" "length bs < 2 ^ W"
  shows "decode_proxy_data W bs = Panic \<longleftrightarrow>
    14 \<le> length bs \<and> bs ! 0 = TYPE_PROXY_DATA \<and> 2 ^ W \<le> 14 + u32_at bs 10"
proof (cases "14 \<le> length bs \<and> bs ! 0 = TYPE_PROXY_DATA")
  case True
  then have "bs \<noteq> []" "idx bs 0 = (Ok (bs ! 0) :: (string, u8) outcome)" by (cases bs; simp)+
  with True have "decode_proxy_data W bs =
      (if length bs < usize_add W 14 (u32_at bs 10) then Err ''Insufficient data for data payload''
       else and_then (bslice bs 14 (usize_add W 14 (u32_at bs 10))) (\<lambda>data.
         Ok \<lparr>pd_connection_id = from_be_bytes (take 8 (drop 1 bs)), pd_data = data, pd_close = (bs ! 9 \<noteq> 0)\<rparr>))"
    by (simp add: decode_proxy_data_def u32_at_def Let_def)
  then show ?thesis
    using True slice_after_check [of 14 bs W "u32_at bs 10"] wrapped_passes_check [of 14 bs W "u32_at bs 10"]
      u32_at_less [OF assms(1)] assms(2) by (auto simp: and_then_Panic_iff)
next
  case False
  then show ?thesis by (auto simp: decode_proxy_data_def panic_simps split: if_splits)
qed

text \<open>The size of the batch item at a position, and where the items start.\<close>

definition item_size :: "bytes \<Rightarrow> nat \<Rightarrow> nat" where
  "item_size bs pos = 13 + u32_at bs (pos + 9)"

primrec item_pos :: "bytes \<Rightarrow> nat \<Rightarrow> nat \<Rightarrow> nat" where
  "item_pos bs pos 0 = pos"
| "item_pos bs pos (Suc k) = item_pos bs (pos + item_size bs pos) k"

lemma item_pos_ge: "pos \<le> item_pos bs pos k"
proof (induction k arbitrary: pos)
  case (Suc k)
  from Suc [of "pos + item_size bs pos"] show ?case by simp
qed simp

lemma decode_batch_items_panic_iff:
  assumes "32 \<le> W" "length bs < 2 ^ W"
  shows "decode_batch_items W n bs pos acc = Panic \<longleftrightarrow>
    (\<exists>k < n. item_pos bs pos k + 13 \<le> length bs \<and> 2 ^ W \<le> item_pos bs pos k + item_size bs (item_pos bs pos k))"
proof (induction n arbitrary: pos acc)
  case (Suc n)
  let ?n = "u32_at bs (pos + 9)"
  let ?P = "\<lambda>p. p + 13 \<le> length bs \<and> 2 ^ W \<le> p + item_size bs p"
  have split: "(\<exists>k < Suc n. ?P (item_pos bs pos k)) \<longleftrightarrow> ?P pos \<or> (\<exists>k < n. ?P (item_pos bs (pos + item_size bs pos) k))"
    by (simp add: Ex_less_Suc2)
  have late: "\<not> (\<exists>k < n. item_pos bs (pos + item_size bs pos) k + 13 \<le> length bs \<and> Q k)"
    if "length bs < pos + item_size bs pos + 13" for Q
    using that item_pos_ge [of "pos + item_size bs pos" bs] by (metis add_le_mono1 leD le_trans)
  show ?case
  proof (cases "pos + 13 \<le> length bs")
    case False
    then have "decode_batch_items W (Suc n) bs pos acc \<noteq> Panic"
      by (auto simp: panic_simps Let_def)
    moreover have "length bs < item_pos bs pos k + 13" for k using False item_pos_ge [of pos bs k] by linarith
    ultimately show ?thesis by (meson leD)
  next
    case True
    then have step: "decode_batch_items W (Suc n) bs pos acc =
        (if length bs < usize_add W (pos + 13) ?n then Err ''Insufficient data for data payload''
         else and_then (bslice bs (pos + 13) (usize_add W (pos + 13) ?n)) (\<lambda>data.
           decode_batch_items W n bs (usize_add W (pos + 13) ?n)
             (acc @ [\<lparr>bi_connection_id = from_be_bytes (take 8 (drop pos bs)), bi_data = data, bi_close = (bs ! (pos + 8) \<noteq> 0)\<rparr>])))"
      by (simp add: u32_at_def Let_def ac_simps)
    note chk = wrapped_passes_check [of "pos + 13" bs W ?n] slice_after_check [of "pos + 13" bs W ?n]
    note lt = u32_at_less [OF assms(1), of bs "pos + 9"]
    consider "2 ^ W \<le> pos + 13 + ?n" | "pos + 13 + ?n < 2 ^ W" "length bs < pos + 13 + ?n" | "pos + 13 + ?n < 2 ^ W" "pos + 13 + ?n \<le> length bs"
      by linarith
    then show ?thesis
    proof cases
      case 1
      then show ?thesis
        using True chk lt assms(2) unfolding step split by (simp add: item_size_def and_then_Panic_iff add.assoc)
    next
      case 2
      then show ?thesis
        using True late unfolding step split by (simp add: item_size_def add.assoc)
    next
      case 3
      then show ?thesis
        using True Suc.IH [of "pos + 13 + ?n"] unfolding step split
        by (simp add: item_size_def and_then_Panic_iff add.assoc)
    qed
  qed
qed simp

lemma decode_proxy_data_batch_panic_iff:
  assumes "32 \<le> W" "length bs < 2 ^ W"
  shows "decode_proxy_data_batch W bs = Panic \<longleftrightarrow>
    3 \<le> length bs \<and> bs ! 0 = TYPE_PROXY_DATA_BATCH
    \<and> (\<exists>k < unat (from_be_bytes (take 2 (drop 1 bs)) :: u16).
         item_pos bs 3 k + 13 \<le> length bs \<and> 2 ^ W \<le> item_pos bs 3 k + item_size bs (item_pos bs 3 k))"
proof (cases "3 \<le> length bs \<and> bs ! 0 = TYPE_PROXY_DATA_BATCH")
  case True
  then have "bs \<noteq> []" "idx bs 0 = (Ok (bs ! 0) :: (string, u8) outcome)" by (cases bs; simp)+
  with True show ?thesis
    using decode_batch_items_panic_iff [OF assms, of _ 3 "[]"]
    by (simp add: decode_proxy_data_batch_def Let_def and_then_Panic_iff flip: numeral_3_eq_3)
next
  case False
  then show ?thesis by (auto simp: decode_proxy_data_batch_def panic_simps split: if_splits)
qed

lemma decode_from_length_prefix_panic_iff:
  assumes "32 \<le> W" "length bs < 2 ^ W"
  shows "decode_from_length_prefix W bs = Panic \<longleftrightarrow> 4 \<le> length bs \<and> 2 ^ W \<le> 4 + u32_at bs 0"
  using wrapped_passes_check [of 4 bs W "u32_at bs 0"] slice_after_check [of 4 bs W "u32_at bs 0"]
    u32_at_less [OF assms(1), of bs 0] assms(2)
  by (cases "4 \<le> length bs") (auto simp: decode_from_length_prefix_def u32_at_def Let_def and_then_Panic_iff)

lemma decode_ratchet_message_no_panic: "decode_ratchet_message bs \<noteq> Panic"
  by (auto simp: decode_ratchet_message_def panic_simps split: if_splits)

lemma decode_dns_query_no_panic: "decode_dns_query bs \<noteq> Panic"
  by (auto simp: decode_dns_query_def panic_simps split: if_splits)

lemma decode_ipv4_addrs_no_panic [panic_simps]:
  "pos + n * 4 \<le> length bs \<Longrightarrow> decode_ipv4_addrs n bs pos acc \<noteq> Panic"
  by (induction n arbitrary: pos acc) (auto simp: panic_simps)

lemma decode_ipv6_addrs_no_panic [panic_simps]:
  "pos + n * 16 \<le> length bs \<Longrightarrow> decode_ipv6_addrs n bs pos acc \<noteq> Panic"
  by (induction n arbitrary: pos acc) (auto simp: panic_simps)

lemma decode_dns_response_no_panic: "decode_dns_response bs \<noteq> Panic"
  by (auto simp: decode_dns_response_def panic_simps split: if_splits)

text \<open>A slice of a Rust program has at most \<open>isize::MAX\<close> bytes. Where \<open>usize\<close> is wider than the length
  fields, none of the sums wraps and the three decoders do not panic.\<close>

lemma wide_sum_fits:
  assumes "33 \<le> W" "length bs < 2 ^ (W - 1)" "pos \<le> length bs"
  shows "pos + u32_at bs i < 2 ^ W"
proof -
  have "(2 :: nat) ^ W = 2 ^ (W - 1) + 2 ^ (W - 1)" using assms(1) by (cases W) auto
  moreover have "u32_at bs i < 2 ^ (W - 1)" using assms(1) by (intro u32_at_less) simp
  ultimately show ?thesis using assms(2,3) by linarith
qed

lemma half_width: "length bs < 2 ^ (W - 1) \<Longrightarrow> length bs < (2 :: nat) ^ W"
  by (erule less_le_trans) (simp add: power_increasing)

lemma wide_decoders_no_panic:
  assumes "33 \<le> W" "length bs < 2 ^ (W - 1)"
  shows "decode_proxy_data W bs \<noteq> Panic"
    and "decode_proxy_data_batch W bs \<noteq> Panic"
    and "decode_from_length_prefix W bs \<noteq> Panic"
proof -
  have w: "32 \<le> W" using assms(1) by simp
  note len = half_width [OF assms(2)] and fits = wide_sum_fits [OF assms]
  show "decode_proxy_data W bs \<noteq> Panic"
    using fits [of 14 10] decode_proxy_data_panic_iff [OF w len] by auto
  show "decode_proxy_data_batch W bs \<noteq> Panic"
    using fits [of "item_pos bs 3 k + 13" "item_pos bs 3 k + 9" for k] decode_proxy_data_batch_panic_iff [OF w len]
    by (fastforce simp: item_size_def add.assoc)
  show "decode_from_length_prefix W bs \<noteq> Panic"
    using fits [of 4 0] decode_from_length_prefix_panic_iff [OF w len] by auto
qed

section \<open>The contract of a message codec\<close>

text \<open>
  What the senders and receivers of every message type rely on: decoding an encoded message gives
  the message back whatever follows it, and no input of a slice's length makes the decoder panic. From the contract
  alone, two messages whose encodings agree up to trailing bytes are equal, and a message framed by
  the 4-byte length prefix is recovered from the front of a stream together with the rest.
\<close>

locale message_codec =
  fixes encode :: "'m \<Rightarrow> bytes"
    and decode :: "bytes \<Rightarrow> (string, 'm) outcome"
    and wf :: "'m \<Rightarrow> bool"
  assumes decode_encode: "wf m \<Longrightarrow> decode (encode m @ rest) = Ok m"
    and decode_no_panic: "length bs < 2 ^ 63 \<Longrightarrow> decode bs \<noteq> Panic"
begin

lemma decode_encode_exact: "wf m \<Longrightarrow> decode (encode m) = Ok m"
  using decode_encode [of m "[]"] by simp

lemma self_delimiting:
  assumes "wf m" "wf m'" "encode m @ rest = encode m' @ rest'"
  shows "m = m' \<and> rest = rest'"
proof -
  have "(Ok m :: (string, 'm) outcome) = Ok m'"
    using assms decode_encode [of m rest] decode_encode [of m' rest'] by simp
  with assms(3) show ?thesis by simp
qed

lemma framed_message_recovered:
  assumes "wf m" "length (encode m) < 2 ^ 32"
  shows "\<exists>payload n. decode_from_length_prefix 64 (encode_with_length_prefix (encode m) @ rest)
           = Ok (Some (payload, n))
         \<and> decode payload = Ok m
         \<and> drop n (encode_with_length_prefix (encode m) @ rest) = rest"
  using assms decode_encode_length_prefix [of "encode m" 64 rest]
  by (simp add: decode_encode_exact encode_with_length_prefix_def)

end

text \<open>Which values of the Rust structs fit the widths of their length fields. The interpretations
  below take the three decoders with 4-byte lengths at a 64-bit \<open>usize\<close>.\<close>

definition fits_error :: "bytes option \<Rightarrow> bool" where
  "fits_error e = (case e of None \<Rightarrow> True | Some s \<Rightarrow> utf8_valid s \<and> s \<noteq> [] \<and> length s < 65536)"

definition fits_proxy_connect :: "proxy_connect \<Rightarrow> bool" where
  "fits_proxy_connect m \<longleftrightarrow> utf8_valid (pc_host m) \<and> length (pc_host m) < 256"

definition fits_proxy_response :: "proxy_response \<Rightarrow> bool" where
  "fits_proxy_response m \<longleftrightarrow> fits_error (pr_error m)"

definition fits_proxy_data :: "proxy_data \<Rightarrow> bool" where
  "fits_proxy_data m \<longleftrightarrow> length (pd_data m) < 2 ^ 32"

definition fits_proxy_data_batch :: "proxy_data_batch \<Rightarrow> bool" where
  "fits_proxy_data_batch m \<longleftrightarrow>
     length (batch_items m) < 65536 \<and> list_all (\<lambda>i. length (bi_data i) < 2 ^ 32) (batch_items m)"

definition fits_ratchet_message :: "ratchet_message \<Rightarrow> bool" where
  "fits_ratchet_message m \<longleftrightarrow>
     wf_ratchet_message m \<and> length (ciphertext m) \<le> MAX_CIPHERTEXT_LEN"

definition fits_dns_query :: "dns_query \<Rightarrow> bool" where
  "fits_dns_query m \<longleftrightarrow> utf8_valid (dq_domain m) \<and> length (dq_domain m) < 256"

definition fits_dns_response :: "dns_response \<Rightarrow> bool" where
  "fits_dns_response m \<longleftrightarrow>
     length (dr_ipv4_addrs m) < 256 \<and> length (dr_ipv6_addrs m) < 256 \<and> fits_error (dr_error m)"

lemma fits_errorD: "fits_error e \<Longrightarrow> e = Some s \<Longrightarrow> utf8_valid s \<and> s \<noteq> [] \<and> length s < 65536"
  by (simp add: fits_error_def)

interpretation connect_codec: message_codec
  encode_proxy_connect decode_proxy_connect fits_proxy_connect
  by unfold_locales
     (simp_all add: fits_proxy_connect_def decode_encode_proxy_connect decode_proxy_connect_no_panic)

interpretation response_codec: message_codec
  encode_proxy_response decode_proxy_response fits_proxy_response
  by unfold_locales
     (simp_all add: fits_proxy_response_def fits_errorD decode_encode_proxy_response
        decode_proxy_response_no_panic)

lemma encoded_data_length: "fits_proxy_data m \<Longrightarrow> length (encode_proxy_data m) < 2 ^ 64"
  by (simp add: fits_proxy_data_def encode_proxy_data_def)

lemma encoded_items_length:
  "(\<And>i. i \<in> set items \<Longrightarrow> length (bi_data i) < 2 ^ 32) \<Longrightarrow>
     length (concat (map encode_batch_item items)) \<le> length items * (13 + 2 ^ 32)"
proof (induction items)
  case (Cons i items)
  have "length (encode_batch_item i) \<le> 13 + 2 ^ 32"
    using Cons.prems [of i] by (simp add: encode_batch_item_def)
  with Cons show ?case by simp
qed simp

lemma encoded_batch_length: "fits_proxy_data_batch m \<Longrightarrow> length (encode_proxy_data_batch m) < 2 ^ 64"
  using encoded_items_length [of "batch_items m"]
  by (simp add: fits_proxy_data_batch_def list_all_iff encode_proxy_data_batch_def)

interpretation data_codec: message_codec encode_proxy_data "decode_proxy_data 64" fits_proxy_data
  by unfold_locales
     (use encoded_data_length in \<open>simp_all add: fits_proxy_data_def decode_encode_proxy_data wide_decoders_no_panic\<close>)

interpretation batch_codec: message_codec
  encode_proxy_data_batch "decode_proxy_data_batch 64" fits_proxy_data_batch
  by unfold_locales
     (use encoded_batch_length in \<open>simp_all add: fits_proxy_data_batch_def list_all_iff
        decode_encode_proxy_data_batch wide_decoders_no_panic\<close>)

interpretation ratchet_codec: message_codec
  encode_ratchet_message decode_ratchet_message fits_ratchet_message
  by unfold_locales
     (simp_all add: fits_ratchet_message_def decode_encode_ratchet_message
        decode_ratchet_message_no_panic)

interpretation query_codec: message_codec encode_dns_query decode_dns_query fits_dns_query
  by unfold_locales
     (simp_all add: fits_dns_query_def decode_encode_dns_query decode_dns_query_no_panic)

interpretation dns_codec: message_codec
  encode_dns_response decode_dns_response fits_dns_response
  by unfold_locales
     (auto simp: fits_dns_response_def decode_dns_response_no_panic dest: fits_errorD
        intro!: decode_encode_dns_response)

section \<open>What an accepted connect request says\<close>

lemma decode_proxy_connect_fields:
  assumes "decode_proxy_connect bs = Ok m"
  defines "n \<equiv> unat (bs ! 9)"
  shows "bs \<noteq> []" "bs ! 0 = TYPE_PROXY_CONNECT" "12 + n \<le> length bs"
    "utf8_valid (take n (drop 10 bs))"
    "m = \<lparr>pc_connection_id = from_be_bytes (take 8 (drop 1 bs)), pc_host = take n (drop 10 bs),
          pc_port = from_be_bytes (take 2 (drop (10 + n) bs))\<rparr>"
  using assms(1)
  by (auto simp: decode_proxy_connect_def Let_def and_then_Ok_iff n_def from_utf8_def
      split: if_splits)

lemma decode_proxy_connect_sound:
  assumes "decode_proxy_connect bs = Ok m"
  shows "fits_proxy_connect m \<and> (\<exists>rest. bs = encode_proxy_connect m @ rest)"
proof -
  define n where "n = unat (bs ! 9)"
  note d = decode_proxy_connect_fields [OF assms, folded n_def]
  have "drop (10 + n) bs = take 2 (drop (10 + n) bs) @ drop (12 + n) bs"
    using take_drop_split [of "10 + n" bs 2] by simp
  moreover have "drop 10 bs = take n (drop 10 bs) @ drop (10 + n) bs"
    by (rule take_drop_split)
  moreover have "drop 9 bs = bs ! 9 # drop 10 bs"
    using d(3) Cons_nth_drop_Suc [of 9 bs] by simp
  moreover have "drop 1 bs = take 8 (drop 1 bs) @ drop 9 bs"
    using take_drop_split [of 1 bs 8] by simp
  moreover have "bs = bs ! 0 # drop 1 bs"
    using d(1) by (cases bs) auto
  ultimately have "bs = bs ! 0 # take 8 (drop 1 bs) @ bs ! 9 # take n (drop 10 bs)
      @ take 2 (drop (10 + n) bs) @ drop (12 + n) bs"
    by metis
  moreover have "encode_proxy_connect m = bs ! 0 # take 8 (drop 1 bs) @ bs ! 9
      # take n (drop 10 bs) @ take 2 (drop (10 + n) bs)"
    using d(3) by (simp add: encode_proxy_connect_def d(2) d(5) to_be_from_be_take n_def)
  ultimately have "bs = encode_proxy_connect m @ drop (12 + n) bs"
    by simp
  moreover have "fits_proxy_connect m"
    using d by (simp add: fits_proxy_connect_def n_def)
  ultimately show ?thesis by blast
qed

lemma decode_proxy_connect_layout:
  assumes "unat l = length h" "length p = 2" "utf8_valid h"
  shows "decode_proxy_connect (TYPE_PROXY_CONNECT # to_be_bytes 8 cid @ l # h @ p @ rest)
    = Ok \<lparr>pc_connection_id = cid, pc_host = h, pc_port = from_be_bytes p\<rparr>"
  using assms by (simp add: decode_proxy_connect_def wire_simps)

lemma encode_long_host_layout:
  assumes "pc_host m = h @ p @ r"
  shows "encode_proxy_connect m = TYPE_PROXY_CONNECT # to_be_bytes 8 (pc_connection_id m)
      @ of_nat (length (pc_host m)) # h @ p @ r @ to_be_bytes 2 (pc_port m)"
  by (simp add: encode_proxy_connect_def assms)

lemma take_two_replicate: "take 2 (replicate 256 x) = [x, x]"
  by (simp only: take_replicate) (simp add: numeral_2_eq_2)

section \<open>Properties\<close>

text \<open>C12: a byte sequence decodes to a connect request exactly when it starts with the encoding
  of that request, whose host is UTF-8 of at most 255 bytes.\<close>

theorem proxy_connect_accepts_iff:
  "decode_proxy_connect bs = Ok m \<longleftrightarrow>
     utf8_valid (pc_host m) \<and> length (pc_host m) < 256
     \<and> (\<exists>rest. bs = encode_proxy_connect m @ rest)"
  using decode_proxy_connect_sound [of bs m] connect_codec.decode_encode [of m]
  by (auto simp: fits_proxy_connect_def)

text \<open>C14: which inputs make a decoder panic, for a \<open>usize\<close> of \<open>W\<close> bits and any input a slice can
  hold. Five of the decoders never panic. The three that add a 4-byte length from the wire to a position
  panic exactly when such a sum reaches \<open>2 ^ W\<close>, wraps, and so passes the length check: for the batch
  this is the sum of some item whose header lies inside the input. Where \<open>usize\<close> is wider than 32 bits no
  input panics; with 32 bits, as on ARMv7, a message of 14 bytes is enough.\<close>

theorem decoders_panic_iff:
  assumes "32 \<le> W" "length bs < 2 ^ (W - 1)"
  shows "decode_proxy_connect bs \<noteq> Panic \<and> decode_proxy_response bs \<noteq> Panic
    \<and> decode_ratchet_message bs \<noteq> Panic \<and> decode_dns_query bs \<noteq> Panic \<and> decode_dns_response bs \<noteq> Panic
    \<and> (decode_proxy_data W bs = Panic \<longleftrightarrow>
        14 \<le> length bs \<and> bs ! 0 = TYPE_PROXY_DATA \<and> 2 ^ W \<le> 14 + u32_at bs 10)
    \<and> (decode_proxy_data_batch W bs = Panic \<longleftrightarrow>
        3 \<le> length bs \<and> bs ! 0 = TYPE_PROXY_DATA_BATCH
        \<and> (\<exists>k < unat (from_be_bytes (take 2 (drop 1 bs)) :: u16).
             item_pos bs 3 k + 13 \<le> length bs
             \<and> 2 ^ W \<le> item_pos bs 3 k + item_size bs (item_pos bs 3 k)))
    \<and> (decode_from_length_prefix W bs = Panic \<longleftrightarrow> 4 \<le> length bs \<and> 2 ^ W \<le> 4 + u32_at bs 0)
    \<and> (33 \<le> W \<longrightarrow> decode_proxy_data W bs \<noteq> Panic \<and> decode_proxy_data_batch W bs \<noteq> Panic
        \<and> decode_from_length_prefix W bs \<noteq> Panic)"
  using decode_proxy_data_panic_iff [OF assms(1) half_width [OF assms(2)]]
    decode_proxy_data_batch_panic_iff [OF assms(1) half_width [OF assms(2)]]
    decode_from_length_prefix_panic_iff [OF assms(1) half_width [OF assms(2)]]
    wide_decoders_no_panic [OF _ assms(2)]
  by (simp add: decode_proxy_connect_no_panic decode_proxy_response_no_panic
      decode_ratchet_message_no_panic decode_dns_query_no_panic decode_dns_response_no_panic)

theorem decoders_panic_iff_witness:
  "decode_proxy_data 32 [TYPE_PROXY_DATA, 0, 0, 0, 0, 0, 0, 0, 0, 0, 255, 255, 255, 255] = Panic
   \<and> decode_proxy_data 64 [TYPE_PROXY_DATA, 0, 0, 0, 0, 0, 0, 0, 0, 0, 255, 255, 255, 255] \<noteq> Panic
   \<and> decode_proxy_data_batch 32 [TYPE_PROXY_DATA_BATCH, 0, 1, 0, 0, 0, 0, 0, 0, 0, 0, 0, 255, 255, 255, 255] = Panic
   \<and> decode_from_length_prefix 32 [255, 255, 255, 255] = Panic"
proof -
  let ?data = "[TYPE_PROXY_DATA, 0, 0, 0, 0, 0, 0, 0, 0, 0, 255, 255, 255, 255]"
  let ?batch = "[TYPE_PROXY_DATA_BATCH, 0, 1, 0, 0, 0, 0, 0, 0, 0, 0, 0, 255, 255, 255, 255]"
  have ff: "unat (from_be_bytes [255, 255, 255, 255] :: u32) = 4294967295"
    and one: "unat (from_be_bytes [0, 1] :: u16) = 1"
    by (simp_all add: from_be_bytes_def from_le_bytes_def)
  have u: "u32_at ?data 10 = 4294967295" "u32_at ?batch 12 = 4294967295" "u32_at [255, 255, 255, 255] 0 = 4294967295"
    by (simp_all add: u32_at_def ff)
  show ?thesis
    using decoders_panic_iff [of 32 ?data, THEN conjunct2]
      decoders_panic_iff [of 64 ?data, THEN conjunct2]
      decoders_panic_iff [of 32 ?batch, THEN conjunct2]
      decoders_panic_iff [of 32 "[255, 255, 255, 255]", THEN conjunct2]
    by (simp add: u one item_size_def)
qed

text \<open>A batch of up to 65535 items, each below 4 GiB, is decoded item by item as it was
  encoded, in order, whatever bytes follow it, with a 64-bit \<open>usize\<close>.\<close>

lemma proxy_data_batch_roundtrip:
  assumes "length (batch_items m) < 65536"
    and "\<And>i. i \<in> set (batch_items m) \<Longrightarrow> length (bi_data i) < 2 ^ 32"
  shows "decode_proxy_data_batch 64 (encode_proxy_data_batch m @ rest) = Ok m"
  using assms by (intro batch_codec.decode_encode) (simp add: fits_proxy_data_batch_def list_all_iff)

text \<open>A DNS response with at most 255 addresses of each family and an error text that is
  absent or non-empty UTF-8 of at most 65535 bytes is decoded as it was encoded.\<close>

lemma dns_response_roundtrip:
  assumes "length (dr_ipv4_addrs m) < 256" "length (dr_ipv6_addrs m) < 256"
    and "\<And>e. dr_error m = Some e \<Longrightarrow> utf8_valid e \<and> e \<noteq> [] \<and> length e < 65536"
  shows "decode_dns_response (encode_dns_response m @ rest) = Ok m"
  using assms
  by (intro dns_codec.decode_encode)
     (auto simp: fits_dns_response_def fits_error_def split: option.splits)

text \<open>A ratchet message with a 12-byte nonce, a 32-byte DH key if any and at most 10 MiB
  of ciphertext is decoded as it was encoded, and the first of two such messages on a stream is
  determined by the stream.\<close>

lemma ratchet_message_roundtrip:
  assumes "fits_ratchet_message m"
  shows "decode_ratchet_message (encode_ratchet_message m @ rest) = Ok m
    \<and> (fits_ratchet_message m' \<longrightarrow> encode_ratchet_message m @ rest = encode_ratchet_message m' @ rest'
        \<longrightarrow> m = m' \<and> rest = rest')"
  using assms ratchet_codec.decode_encode ratchet_codec.self_delimiting by blast

text \<open>C39: the one-byte length field wraps. A connect request whose host has 256 or more bytes is
  encoded without an error, and the peer decodes it to another destination: the host is cut to its
  length modulo 256 and the port is read from the next two bytes of the host.\<close>

theorem long_host_changes_destination:
  assumes "256 \<le> length (pc_host m)"
    and "utf8_valid (take (length (pc_host m) mod 256) (pc_host m))"
  defines "k \<equiv> length (pc_host m) mod 256"
  shows "decode_proxy_connect (encode_proxy_connect m)
    = Ok (m\<lparr>pc_host := take k (pc_host m), pc_port := from_be_bytes (take 2 (drop k (pc_host m)))\<rparr>)"
proof -
  let ?h = "take k (pc_host m)" and ?p = "take 2 (drop k (pc_host m))" and ?r = "drop (2 + k) (pc_host m)"
  have k: "k < 256" by (simp add: k_def)
  with assms(1) have "unat (of_nat (length (pc_host m)) :: u8) = length ?h"
    by (simp add: k_def)
  moreover have "k + 2 \<le> length (pc_host m)"
    using assms(1) div_mult_mod_eq [of "length (pc_host m)" 256] div_greater_zero_iff [of "length (pc_host m)" 256]
    unfolding k_def by linarith
  then have "length ?p = 2" by simp
  ultimately have len: "unat (of_nat (length (pc_host m)) :: u8) = length ?h" "length ?p = 2" by blast+
  have "pc_host m = ?h @ ?p @ ?r"
    by (metis append_take_drop_id drop_drop)
  from encode_long_host_layout [OF this] show ?thesis
    by (simp add: decode_proxy_connect_layout [OF len assms(2) [folded k_def]])
qed

theorem long_host_changes_destination_witness:
  "decode_proxy_connect (encode_proxy_connect
     \<lparr>pc_connection_id = 7, pc_host = replicate 256 97, pc_port = 443\<rparr>)
   = Ok \<lparr>pc_connection_id = 7, pc_host = [], pc_port = from_be_bytes [97, 97]\<rparr>"
proof -
  let ?m = "\<lparr>pc_connection_id = 7, pc_host = replicate 256 97, pc_port = 443\<rparr> :: proxy_connect"
  have l: "length (pc_host ?m) = 256" by (simp only: proxy_connect.select_convs length_replicate)
  have k: "(256::nat) mod 256 = 0" by simp
  have "256 \<le> length (pc_host ?m)" "utf8_valid (take (length (pc_host ?m) mod 256) (pc_host ?m))"
    by (simp_all only: l k take_0 utf8_valid.simps order_refl)
  from long_host_changes_destination [OF this] show ?thesis
    by (simp only: length_replicate k take_0 drop_0 proxy_connect.select_convs proxy_connect.update_convs take_two_replicate)
qed
end
