(* ===== verification/Padding.thy ===== *)
theory Padding
  imports Messages
begin

text \<open>
  Traffic padding: \<open>protocol/padding.rs\<close> (packets padded to 1 KiB blocks, the padding length in the
  last two bytes, and the traffic-shaper configuration) and \<open>frame_padding.rs\<close> (a two-byte length
  prefix and up to 64 random bytes behind the data).

  The random source of the \<open>rand\<close> crate is an argument: \<open>fill n\<close> is what \<open>fill_bytes\<close> writes into a
  slice of \<open>n\<close> bytes, \<open>gen i\<close> the byte of the \<open>i\<close>-th \<open>gen()\<close>, and the value of a \<open>gen_range\<close> is passed
  as it was drawn. The two documented facts used are that \<open>fill_bytes\<close> fills the whole slice
  (\<open>fills\<close>) and that a draw lies in its range.
\<close>

section \<open>Traffic shaper\<close>

datatype padding_mode = PM_None | PM_Packet | PM_ConstantRate

record traffic_shaper =
  ts_target_rate :: "u64 option"
  ts_padding_mode :: padding_mode

definition shaper_none :: traffic_shaper where
  "shaper_none = \<lparr>ts_target_rate = None, ts_padding_mode = PM_None\<rparr>"

definition shaper_packet_padding :: traffic_shaper where
  "shaper_packet_padding = \<lparr>ts_target_rate = None, ts_padding_mode = PM_Packet\<rparr>"

definition shaper_constant_rate :: "u64 \<Rightarrow> traffic_shaper" where
  "shaper_constant_rate r = \<lparr>ts_target_rate = Some r, ts_padding_mode = PM_ConstantRate\<rparr>"

definition is_padding_enabled :: "traffic_shaper \<Rightarrow> bool" where
  "is_padding_enabled s = (ts_padding_mode s \<noteq> PM_None)"

definition target_rate :: "traffic_shaper \<Rightarrow> u64 option" where
  "target_rate s = (if ts_padding_mode s = PM_ConstantRate then ts_target_rate s else None)"

section \<open>Packet padding\<close>

definition PADDING_BLOCK_SIZE :: nat where
  "PADDING_BLOCK_SIZE = 1024"

definition MAX_PADDED_SIZE :: nat where
  "MAX_PADDED_SIZE = 16 * 1024"

definition MIN_DUMMY_SIZE :: nat where
  "MIN_DUMMY_SIZE = 64"

definition MAX_DUMMY_SIZE :: nat where
  "MAX_DUMMY_SIZE = 1024"

lemmas padding_consts = PADDING_BLOCK_SIZE_def MAX_PADDED_SIZE_def MIN_DUMMY_SIZE_def MAX_DUMMY_SIZE_def

datatype padding_error = DataTooShort | InvalidPaddingLength | DataTooLarge nat nat

definition div_ceil :: "nat \<Rightarrow> nat \<Rightarrow> nat" where
  "div_ceil n d = (if n mod d > 0 then n div d + 1 else n div d)"

definition fills :: "(nat \<Rightarrow> bytes) \<Rightarrow> bool" where
  "fills fill \<longleftrightarrow> (\<forall>n. length (fill n) = n)"

definition pad_packet :: "(nat \<Rightarrow> bytes) \<Rightarrow> bytes \<Rightarrow> (padding_error, bytes) outcome" where
  "pad_packet fill data =
     (if data = [] then
        let result = replicate PADDING_BLOCK_SIZE 0;
            padding_len = of_nat (PADDING_BLOCK_SIZE - 2) :: u16
        in Ok (take (PADDING_BLOCK_SIZE - 2) result @ to_be_bytes 2 padding_len)
      else
        let data_len = length data;
            blocks = div_ceil (data_len + 2) PADDING_BLOCK_SIZE;
            target_size = min (blocks * PADDING_BLOCK_SIZE) MAX_PADDED_SIZE;
            max_data_len = target_size - 2
        in if data_len > max_data_len then Err (DataTooLarge data_len max_data_len)
           else let padding_len = max_data_len - data_len;
                    padding = (if padding_len > 0 then fill padding_len else [])
                in Ok (data @ padding @ to_be_bytes 2 (of_nat padding_len :: u16)))"

definition unpad_packet :: "bytes \<Rightarrow> (padding_error, bytes) outcome" where
  "unpad_packet data =
     (if length data < 2 then Err DataTooShort
      else and_then (idx data (length data - 2)) (\<lambda>hi.
           and_then (idx data (length data - 1)) (\<lambda>lo.
           let padding_len = unat (from_be_bytes [hi, lo] :: u16) in
           if padding_len > length data - 2 then Err InvalidPaddingLength
           else bslice data 0 (length data - 2 - padding_len))))"

definition unpad_packet_slice :: "bytes \<Rightarrow> (padding_error, bytes) outcome" where
  "unpad_packet_slice data =
     (if length data < 2 then Err DataTooShort
      else and_then (idx data (length data - 2)) (\<lambda>hi.
           and_then (idx data (length data - 1)) (\<lambda>lo.
           let padding_len = unat (from_be_bytes [hi, lo] :: u16) in
           if padding_len > length data - 2 then Err InvalidPaddingLength
           else bslice data 0 (length data - 2 - padding_len))))"

definition generate_dummy_packet :: "nat \<Rightarrow> (nat \<Rightarrow> bytes) \<Rightarrow> (nat \<Rightarrow> bytes) \<Rightarrow> (padding_error, bytes) outcome" where
  "generate_dummy_packet dummy_size fill_data fill_pad =
     (case pad_packet fill_pad (fill_data dummy_size) of
        Ok p \<Rightarrow> Ok p
      | Err e \<Rightarrow> Panic
      | Panic \<Rightarrow> Panic)"

definition padded_size :: "nat \<Rightarrow> nat" where
  "padded_size data_len =
     (if data_len = 0 then PADDING_BLOCK_SIZE
      else let total_len = (data_len + 2) mod 2 ^ 64;
               blocks = div_ceil total_len PADDING_BLOCK_SIZE
           in min (blocks * PADDING_BLOCK_SIZE mod 2 ^ 64) MAX_PADDED_SIZE)"

section \<open>Frame padding\<close>

definition MAX_PAD :: nat where
  "MAX_PAD = 64"

datatype frame_padding_error = FrameTooShort nat | FrameTruncated nat nat

definition pad_frame :: "nat \<Rightarrow> (nat \<Rightarrow> u8) \<Rightarrow> bytes \<Rightarrow> bytes" where
  "pad_frame pad_len gen data =
     (let real_len = of_nat (length data) :: u16
      in to_be_bytes 2 real_len @ data @ map gen [0..<pad_len])"

definition unpad_frame :: "bytes \<Rightarrow> (frame_padding_error, bytes) outcome" where
  "unpad_frame data =
     (if length data < 2 then Err (FrameTooShort (length data))
      else and_then (idx data 0) (\<lambda>hi. and_then (idx data 1) (\<lambda>lo.
           let real_len = unat (from_be_bytes [hi, lo] :: u16) in
           if length data < 2 + real_len then Err (FrameTruncated real_len (length data - 2))
           else bslice data 2 (2 + real_len))))"

section \<open>The shape of padded packets\<close>

lemma div_ceil_bounds:
  assumes "0 < d"
  shows "n \<le> div_ceil n d * d" "div_ceil n d * d < n + d" "d dvd div_ceil n d * d"
proof -
  have "n = n div d * d + n mod d" "n mod d < d" using assms by simp_all
  then show "n \<le> div_ceil n d * d" "div_ceil n d * d < n + d"
    unfolding div_ceil_def by (simp_all split: if_split, linarith+)
qed simp

lemma fills_length [simp]: "fills fill \<Longrightarrow> length (fill n) = n"
  by (simp add: fills_def)

lemma length_2E:
  assumes "length xs = 2"
  obtains a b where "xs = [a, b]"
  using assms by (auto simp: length_Suc_conv numeral_2_eq_2)

lemma unpad_packet_trailer:
  "unpad_packet (q @ [hi, lo]) =
     (let k = unat (from_be_bytes [hi, lo] :: u16)
      in if k > length q then Err InvalidPaddingLength else Ok (take (length q - k) q))"
  by (simp add: unpad_packet_def Let_def nth_append)

lemma unpad_packet_append:
  assumes "length p < 65536"
  shows "unpad_packet (d @ p @ to_be_bytes 2 (of_nat (length p) :: u16)) = Ok d"
proof -
  obtain hi lo where t: "to_be_bytes 2 (of_nat (length p) :: u16) = [hi, lo]"
    by (rule length_2E [of "to_be_bytes 2 (of_nat (length p) :: u16)"]) simp
  then have "from_be_bytes [hi, lo] = (of_nat (length p) :: u16)"
    by (metis be_roundtrips(1))
  with assms show ?thesis
    using unpad_packet_trailer [of "d @ p" hi lo] by (simp add: t)
qed

lemma unpad_packet_accepts:
  "unpad_packet data = Ok r \<longleftrightarrow>
     (\<exists>p. length p < 65536 \<and> data = r @ p @ to_be_bytes 2 (of_nat (length p) :: u16))"
proof
  assume u: "unpad_packet data = Ok r"
  then have "2 \<le> length data" by (auto simp: unpad_packet_def split: if_splits)
  then obtain q t where "data = q @ t" "length t = 2"
    by (metis append_take_drop_id diff_diff_cancel length_drop)
  then obtain hi lo where d: "data = q @ [hi, lo]" by (metis length_2E)
  define k where "k = unat (from_be_bytes [hi, lo] :: u16)"
  have k: "k \<le> length q" "r = take (length q - k) q"
    using u unfolding d unpad_packet_trailer k_def by (auto simp: Let_def split: if_splits)
  let ?p = "drop (length q - k) q"
  have "length ?p = k" "k < 65536" using k by (simp_all add: k_def)
  moreover have "to_be_bytes 2 (of_nat k :: u16) = [hi, lo]"
    using to_be_from_be [of "[hi, lo]", where 'a = 16] by (simp add: k_def numeral_2_eq_2)
  ultimately show "\<exists>p. length p < 65536 \<and> data = r @ p @ to_be_bytes 2 (of_nat (length p) :: u16)"
    using d k by (intro exI [of _ ?p]) simp
qed (auto simp: unpad_packet_append)

lemma unpad_packet_no_panic: "unpad_packet data \<noteq> Panic"
  by (simp add: unpad_packet_def panic_simps)

lemma pad_packet_large:
  assumes "16382 < length data"
  shows "pad_packet fill data = Err (DataTooLarge (length data) 16382)"
proof -
  have "MAX_PADDED_SIZE \<le> div_ceil (length data + 2) PADDING_BLOCK_SIZE * PADDING_BLOCK_SIZE"
    using div_ceil_bounds(1) [of PADDING_BLOCK_SIZE "length data + 2"] assms
    by (simp add: padding_consts)
  with assms show ?thesis
    by (auto simp: pad_packet_def Let_def min_absorb2 MAX_PADDED_SIZE_def)
qed

lemma padded_size_eq:
  assumes "length data \<le> 16382"
  shows "padded_size (length data) = div_ceil (length data + 2) PADDING_BLOCK_SIZE * PADDING_BLOCK_SIZE"
    and "length data + 2 \<le> padded_size (length data)"
    and "padded_size (length data) < length data + 2 + PADDING_BLOCK_SIZE"
    and "PADDING_BLOCK_SIZE dvd padded_size (length data)"
proof -
  let ?t = "div_ceil (length data + 2) PADDING_BLOCK_SIZE * PADDING_BLOCK_SIZE"
  have b: "length data + 2 \<le> ?t" "?t < length data + 2 + PADDING_BLOCK_SIZE" "PADDING_BLOCK_SIZE dvd ?t"
    by (rule div_ceil_bounds, simp add: PADDING_BLOCK_SIZE_def)+
  have "div_ceil (length data + 2) PADDING_BLOCK_SIZE * 1024 < 17 * 1024"
    using b(2) assms by (simp add: PADDING_BLOCK_SIZE_def)
  then have "?t \<le> MAX_PADDED_SIZE"
    by (simp add: padding_consts)
  then show e: "padded_size (length data) = ?t"
    using assms by (cases "data = []")
      (simp add: padded_size_def div_ceil_def PADDING_BLOCK_SIZE_def,
       simp add: padded_size_def Let_def MAX_PADDED_SIZE_def)
  show "length data + 2 \<le> padded_size (length data)"
    "padded_size (length data) < length data + 2 + PADDING_BLOCK_SIZE"
    "PADDING_BLOCK_SIZE dvd padded_size (length data)"
    using b unfolding e by blast+
qed

lemma pad_packet_small:
  assumes "fills fill" "length data \<le> 16382"
  obtains p where "length p < 65536"
    and "pad_packet fill data = Ok (data @ p @ to_be_bytes 2 (of_nat (length p) :: u16))"
    and "length data + length p + 2 = padded_size (length data)"
proof (cases "data = []")
  case True
  show thesis
    by (rule that [of "replicate 1022 0"])
       (simp_all add: True pad_packet_def Let_def padding_consts padded_size_def)
next
  case False
  define n where "n = padded_size (length data) - 2 - length data"
  define p where "p = (if n > 0 then fill n else [])"
  note b = padded_size_eq [OF assms(2)]
  have m: "min (padded_size (length data)) MAX_PADDED_SIZE = padded_size (length data)"
    using False by (simp add: padded_size_def Let_def)
  have p: "length p = n" using assms(1) by (simp add: p_def)
  have "pad_packet fill data = Ok (data @ p @ to_be_bytes 2 (of_nat n :: u16))"
    using b(2) False
    by (simp only: pad_packet_def Let_def if_False b(1) [symmetric] m n_def [symmetric] p_def)
       (simp add: n_def)
  moreover have "n < 65536" "length data + n + 2 = padded_size (length data)"
    using b(2,3) by (simp_all add: n_def PADDING_BLOCK_SIZE_def)
  ultimately show thesis using that p by blast
qed

lemma unpad_frame_prefix:
  "length t = 2 \<Longrightarrow> unpad_frame (t @ d) =
     (let n = unat (from_be_bytes t :: u16)
      in if length d < n then Err (FrameTruncated n (length d)) else Ok (take n d))"
  by (erule length_2E) (simp add: unpad_frame_def Let_def)

lemma unpad_pad_frame:
  "unpad_frame (pad_frame n gen data) = Ok (take (length data mod 65536) data)"
  using unpad_frame_prefix [of "to_be_bytes 2 (of_nat (length data) :: u16)" "data @ map gen [0..<n]"]
    mod_less_eq_dividend [of "length data" 65536]
  by (simp add: pad_frame_def Let_def)

lemma unpad_frame_no_panic: "unpad_frame data \<noteq> Panic"
  by (simp add: unpad_frame_def panic_simps idx_def)

section \<open>The interface of a padding scheme\<close>

text \<open>
  What the tunnel relies on: whatever randomness was drawn, padding succeeds on data within the
  limit and the receiver strips it exactly; and stripping never panics on what the peer sent.
\<close>

locale padding_scheme =
  fixes pad :: "'r \<Rightarrow> bytes \<Rightarrow> ('e, bytes) outcome"
    and unpad :: "bytes \<Rightarrow> ('f, bytes) outcome"
    and drawn :: "'r \<Rightarrow> bool"
    and limit :: nat
  assumes pad_ok: "drawn r \<Longrightarrow> length d \<le> limit \<Longrightarrow> is_ok (pad r d)"
    and unpad_pad: "drawn r \<Longrightarrow> length d \<le> limit \<Longrightarrow> pad r d = Ok p \<Longrightarrow> unpad p = Ok d"
    and unpad_total: "unpad p \<noteq> Panic"
begin

lemma pad_injective:
  assumes "drawn r" "drawn r'" "length d \<le> limit" "length d' \<le> limit"
    and "pad r d = Ok p" "pad r' d' = Ok p"
  shows "d = d'"
  using unpad_pad [OF assms(1,3,5)] unpad_pad [OF assms(2,4,6)] by simp

lemma unpad_pad_stream:
  assumes "\<And>r. r \<in> set rs \<Longrightarrow> drawn r" "\<And>d. d \<in> set ds \<Longrightarrow> length d \<le> limit" "length rs = length ds"
  shows "map (\<lambda>(r, d). and_then (case pad r d of Ok p \<Rightarrow> Ok p | _ \<Rightarrow> Panic) unpad) (zip rs ds) = map Ok ds"
  using assms(3,1,2)
proof (induction rs ds rule: list_induct2)
  case (Cons r rs d ds)
  then have "drawn r" "length d \<le> limit" by simp_all
  then show ?case
    using Cons pad_ok [of r d] unpad_pad [of r d] by (cases "pad r d") simp_all
qed simp

end

interpretation packet_padding: padding_scheme pad_packet unpad_packet fills 16382
proof
  show "is_ok (pad_packet r d)" if "fills r" "length d \<le> 16382" for r d
    using that by (metis is_ok.simps(1) pad_packet_small)
  show "unpad_packet p = Ok d" if "fills r" "length d \<le> 16382" "pad_packet r d = Ok p" for r d p
    using that by (metis outcome.inject(1) pad_packet_small unpad_packet_append)
qed (rule unpad_packet_no_panic)

interpretation frame_padding: padding_scheme
  "\<lambda>(n, gen) d. Ok (pad_frame n gen d) :: (frame_padding_error, bytes) outcome" unpad_frame
  "\<lambda>(n, gen). n \<le> MAX_PAD" 65535
  by unfold_locales (auto simp: unpad_pad_frame unpad_frame_no_panic)

lemma generate_dummy_packet_ok:
  assumes "MIN_DUMMY_SIZE \<le> n" "n \<le> MAX_DUMMY_SIZE" "fills fill_data" "fills fill_pad"
  obtains p where "generate_dummy_packet n fill_data fill_pad = Ok p"
    and "unpad_packet p = Ok (fill_data n)"
    and "length p = 1024 \<or> length p = 2048"
proof -
  let ?d = "fill_data n"
  have d: "length ?d \<le> 16382" "length ?d \<le> 1024" using assms by (simp_all add: MAX_DUMMY_SIZE_def)
  obtain p where p: "length p < 65536" "pad_packet fill_pad ?d = Ok (?d @ p @ to_be_bytes 2 (of_nat (length p) :: u16))"
    "length ?d + length p + 2 = padded_size (length ?d)"
    using pad_packet_small [OF assms(4) d(1)] by blast
  obtain k where "padded_size (length ?d) = 1024 * k" "0 < k"
    using padded_size_eq(2,4) [OF d(1)] by (auto simp: PADDING_BLOCK_SIZE_def elim!: dvdE)
  then have "padded_size (length ?d) = 1024 \<or> padded_size (length ?d) = 2048"
    using padded_size_eq(3) [OF d(1)] d(2) by (auto simp: PADDING_BLOCK_SIZE_def)
  with p show thesis
    by (intro that [of "?d @ p @ to_be_bytes 2 (of_nat (length p) :: u16)"])
       (simp_all add: generate_dummy_packet_def unpad_packet_append)
qed

section \<open>Properties\<close>

text \<open>C30: padding a packet of at most 16382 bytes succeeds whatever randomness is drawn; the result
  starts with the data, is a whole number of 1 KiB blocks, has exactly the size that
  \<open>padded_size\<close> announces, at most 16 KiB, and is unpadded to the data. A longer packet is refused with
  the two lengths.\<close>

theorem pad_packet_correct:
  assumes "fills fill"
  shows "if length d \<le> 16382
    then \<exists>p. pad_packet fill d = Ok p \<and> take (length d) p = d \<and> 1024 dvd length p
           \<and> length p = padded_size (length d) \<and> length p \<le> 16384 \<and> unpad_packet p = Ok d
    else pad_packet fill d = Err (DataTooLarge (length d) 16382)"
proof (cases "length d \<le> 16382")
  case True
  obtain q where q: "length q < 65536"
    "pad_packet fill d = Ok (d @ q @ to_be_bytes 2 (of_nat (length q) :: u16))"
    "length d + length q + 2 = padded_size (length d)"
    using pad_packet_small [OF assms True] by blast
  have "padded_size (length d) \<le> 16384"
    by (simp add: padded_size_def Let_def padding_consts)
  with True q padded_size_eq(4) [OF True] show ?thesis
    by (simp add: unpad_packet_append PADDING_BLOCK_SIZE_def)
qed (simp add: pad_packet_large)

theorem pad_packet_correct_witness:
  "\<exists>p. pad_packet (\<lambda>n. replicate n 0xAB) [1, 2, 3] = Ok p \<and> take 3 p = [1, 2, 3] \<and> 1024 dvd length p
     \<and> length p = padded_size 3 \<and> length p \<le> 16384 \<and> unpad_packet p = Ok [1, 2, 3]"
  using pad_packet_correct [of "\<lambda>n. replicate n 0xAB" "[1, 2, 3]"]
  by (simp add: fills_def numeral_3_eq_3)

text \<open>Unpadding accepts exactly the packets of the padded form: data, then padding, then the
  length of the padding in two big-endian bytes. It never panics on what a peer sent, and the
  zero-copy variant computes the same result.\<close>

lemma unpad_packet_accepts_iff:
  "(unpad_packet data = Ok r \<longleftrightarrow>
     (\<exists>p. length p < 65536 \<and> data = r @ p @ to_be_bytes 2 (of_nat (length p) :: u16)))
   \<and> unpad_packet data \<noteq> Panic \<and> unpad_packet_slice data = unpad_packet data"
  by (intro conjI unpad_packet_accepts unpad_packet_no_panic)
     (simp add: unpad_packet_def unpad_packet_slice_def)

text \<open>Frame padding keeps the data only up to 65535 bytes: the length prefix is cast to 16 bits,
  so whatever padding is drawn, the receiver gets the first \<open>length mod 65536\<close> bytes, and no error
  is reported on either side.\<close>

lemma pad_frame_keeps_length_mod_65536:
  "unpad_frame (pad_frame n gen data) = Ok (take (length data mod 65536) data)"
  by (rule unpad_pad_frame)

end
