(* ===== verification/Crypto.thy ===== *)
theory Crypto
  imports Messages
begin

text \<open>
  The cryptographic layer of \<open>crypto/cipher.rs\<close> and \<open>crypto/mod.rs\<close> and the key derivation functions of
  \<open>crypto/ratchet.rs\<close>.

  The primitives come from crates (\<open>chacha20poly1305\<close>, \<open>aes-gcm\<close>, \<open>hmac\<close>, \<open>hkdf\<close>, \<open>x25519-dalek\<close>): they
  are the fields of the records \<open>aead_crate\<close> and \<open>crypto_crates\<close>, an argument of every definition that
  calls them. \<open>aead_ok\<close> and \<open>crypto_ok\<close> say what their documentation promises and the program relies on:
  sizes of outputs, that opening undoes sealing, that the in-place and detached variants agree with
  the allocating ones, and that X25519 is commutative. Nothing is assumed about secrecy.
\<close>

section \<open>The primitives\<close>

text \<open>
  \<open>aead_encrypt key nonce aad plaintext\<close> is the ciphertext with the tag behind it, \<open>None\<close> its error;
  \<open>aead_encrypt_detached\<close> gives the ciphertext and the tag apart. \<open>aead_decrypt_in_place\<close> gives whether it
  succeeded and the buffer it leaves, which is unspecified after a failure.
\<close>

record aead_crate =
  aead_encrypt :: "bytes \<Rightarrow> bytes \<Rightarrow> bytes \<Rightarrow> bytes \<Rightarrow> bytes option"
  aead_encrypt_detached :: "bytes \<Rightarrow> bytes \<Rightarrow> bytes \<Rightarrow> bytes \<Rightarrow> (bytes \<times> bytes) option"
  aead_decrypt :: "bytes \<Rightarrow> bytes \<Rightarrow> bytes \<Rightarrow> bytes \<Rightarrow> bytes option"
  aead_decrypt_in_place :: "bytes \<Rightarrow> bytes \<Rightarrow> bytes \<Rightarrow> bytes \<Rightarrow> bool \<times> bytes"

record crypto_crates =
  chacha :: aead_crate
  hmac_sha256 :: "bytes \<Rightarrow> bytes \<Rightarrow> bytes"
  hkdf_sha256 :: "bytes \<Rightarrow> bytes \<Rightarrow> bytes \<Rightarrow> nat \<Rightarrow> bytes option"
  x25519_public :: "bytes \<Rightarrow> bytes"
  x25519_shared :: "bytes \<Rightarrow> bytes \<Rightarrow> bytes"

definition aead_ok :: "aead_crate \<Rightarrow> bool" where
  "aead_ok A \<longleftrightarrow>
     (\<forall>k n a p. length k = 32 \<longrightarrow> length n = 12 \<longrightarrow> length a < 2 ^ 32 \<longrightarrow> length p < 2 ^ 32 \<longrightarrow>
        (\<exists>c. aead_encrypt A k n a p = Some c \<and> length c = length p + 16 \<and> aead_decrypt A k n a c = Some p))
     \<and> (\<forall>k n a c p. aead_decrypt A k n a c = Some p \<longrightarrow> length c = length p + 16)
     \<and> (\<forall>k n a p. aead_encrypt A k n a p = map_option (\<lambda>(c, t). c @ t) (aead_encrypt_detached A k n a p))
     \<and> (\<forall>k n a c. fst (aead_decrypt_in_place A k n a c) = (aead_decrypt A k n a c \<noteq> None))
     \<and> (\<forall>k n a c p. aead_decrypt A k n a c = Some p \<longrightarrow> snd (aead_decrypt_in_place A k n a c) = p)"

definition crypto_ok :: "crypto_crates \<Rightarrow> bool" where
  "crypto_ok P \<longleftrightarrow> aead_ok (chacha P)
     \<and> (\<forall>k m. length (hmac_sha256 P k m) = 32)
     \<and> (\<forall>s i f n. n \<le> 255 * 32 \<longrightarrow> (\<exists>okm. hkdf_sha256 P s i f n = Some okm \<and> length okm = n))
     \<and> (\<forall>a. length (x25519_public P a) = 32)
     \<and> (\<forall>a b. length (x25519_shared P a b) = 32)
     \<and> (\<forall>a b. x25519_shared P a (x25519_public P b) = x25519_shared P b (x25519_public P a))"

lemma aead_roundtrip:
  assumes "aead_ok A" "length k = 32" "length n = 12" "length a < 2 ^ 32" "length p < 2 ^ 32"
  obtains c where "aead_encrypt A k n a p = Some c" "length c = length p + 16" "aead_decrypt A k n a c = Some p"
  using conjunct1 [OF assms(1) [unfolded aead_ok_def], rule_format, OF assms(2-5)] by blast

lemma aead_okD:
  assumes "aead_ok A"
  shows aead_decrypt_length: "aead_decrypt A k n a c = Some p \<Longrightarrow> length c = length p + 16"
    and aead_detached: "aead_encrypt A k n a p = map_option (\<lambda>(c, t). c @ t) (aead_encrypt_detached A k n a p)"
    and aead_in_place: "fst (aead_decrypt_in_place A k n a c) = (aead_decrypt A k n a c \<noteq> None)"
      "aead_decrypt A k n a c = Some p \<Longrightarrow> snd (aead_decrypt_in_place A k n a c) = p"
  using conjunct2 [OF assms [unfolded aead_ok_def]] by simp_all

lemma crypto_okD:
  assumes "crypto_ok P"
  shows crypto_ok_aead: "aead_ok (chacha P)"
    and crypto_ok_hmac: "length (hmac_sha256 P k m) = 32"
    and crypto_ok_public: "length (x25519_public P a) = 32"
    and crypto_ok_shared: "length (x25519_shared P a b) = 32"
  using assms by (simp_all only: crypto_ok_def simp_thms)

lemma crypto_ok_commute:
  assumes "crypto_ok P"
  shows "x25519_shared P a (x25519_public P b) = x25519_shared P b (x25519_public P a)"
  by (rule assms [unfolded crypto_ok_def, THEN conjunct2, THEN conjunct2, THEN conjunct2, THEN conjunct2,
        THEN conjunct2, rule_format])

lemma crypto_ok_hkdf:
  assumes "crypto_ok P" "n \<le> 255 * 32"
  obtains okm where "hkdf_sha256 P s i f n = Some okm" "length okm = n"
  using assms(1) [unfolded crypto_ok_def, THEN conjunct2, THEN conjunct2, THEN conjunct1, rule_format,
      OF assms(2), of s i f] by blast

section \<open>Errors\<close>

text \<open>
  The two variants of \<open>rvpn_core::Error\<close> that the cipher and the ratchet return; the reason stands for
  the formatted message with the values it prints.
\<close>

datatype crypt_reason =
    AeadError
  | CiphertextTooShort
  | NoSendingChain
  | NoReceivingChain
  | NoDhPair
  | MessageTooLarge nat
  | MessageTooOld u32 u32
  | TooManySkipped
  | CipherReported crypt_reason

datatype crypt_error = EncryptionFailed crypt_reason | DecryptionFailed crypt_reason

fun reason :: "crypt_error \<Rightarrow> crypt_reason" where
  "reason (EncryptionFailed r) = r"
| "reason (DecryptionFailed r) = r"

section \<open>Cipher\<close>

definition TAG_SIZE :: nat where
  "TAG_SIZE = 16"

definition KEY_SIZE :: nat where
  "KEY_SIZE = 32"

text \<open>\<open>Cipher::new\<close> only binds the key, so a cipher is its key.\<close>

record cipher =
  cipher_key :: bytes

definition cipher_new :: "bytes \<Rightarrow> cipher" where
  "cipher_new key = \<lparr>cipher_key = key\<rparr>"

definition cipher_encrypt_in_place ::
  "aead_crate \<Rightarrow> cipher \<Rightarrow> bytes \<Rightarrow> bytes \<Rightarrow> bytes \<Rightarrow> (crypt_error, bytes) outcome" where
  "cipher_encrypt_in_place A c n associated_data plaintext =
     (case aead_encrypt_detached A (cipher_key c) n associated_data plaintext of
        None \<Rightarrow> Err (EncryptionFailed AeadError)
      | Some (buffer, tag) \<Rightarrow> Ok (buffer @ tag))"

definition cipher_decrypt_in_place ::
  "aead_crate \<Rightarrow> cipher \<Rightarrow> bytes \<Rightarrow> bytes \<Rightarrow> bytes \<Rightarrow> (crypt_error, nat) outcome \<times> bytes" where
  "cipher_decrypt_in_place A c n associated_data buffer =
     (if length buffer < TAG_SIZE then (Err (DecryptionFailed CiphertextTooShort), buffer)
      else let (ok, buffer') = aead_decrypt_in_place A (cipher_key c) n associated_data buffer
           in if ok then (Ok (length buffer'), buffer') else (Err (DecryptionFailed AeadError), buffer'))"

definition cipher_decrypt ::
  "aead_crate \<Rightarrow> cipher \<Rightarrow> bytes \<Rightarrow> bytes \<Rightarrow> bytes \<Rightarrow> (crypt_error, bytes) outcome" where
  "cipher_decrypt A c n associated_data ct =
     (if length ct < TAG_SIZE then Err (DecryptionFailed CiphertextTooShort)
      else ok_or (DecryptionFailed AeadError) (aead_decrypt A (cipher_key c) n associated_data ct))"

definition cipher_encrypt ::
  "aead_crate \<Rightarrow> cipher \<Rightarrow> bytes \<Rightarrow> bytes \<Rightarrow> bytes \<Rightarrow> (crypt_error, bytes) outcome" where
  "cipher_encrypt A c n associated_data plaintext =
     ok_or (EncryptionFailed AeadError) (aead_encrypt A (cipher_key c) n associated_data plaintext)"

lemma cipher_key_new [simp]: "cipher_key (cipher_new k) = k"
  by (simp add: cipher_new_def)

lemma cipher_encrypt_in_place_eq:
  "aead_ok A \<Longrightarrow> cipher_encrypt_in_place A c n a p = cipher_encrypt A c n a p"
  by (simp add: cipher_encrypt_in_place_def cipher_encrypt_def aead_detached split: option.split)

lemma cipher_decrypt_in_place_eq:
  assumes "aead_ok A"
  shows "fst (cipher_decrypt_in_place A c n a b) =
      (case cipher_decrypt A c n a b of Ok p \<Rightarrow> Ok (length p) | Err e \<Rightarrow> Err e | Panic \<Rightarrow> Panic)"
    and "cipher_decrypt A c n a b = Ok p \<Longrightarrow> snd (cipher_decrypt_in_place A c n a b) = p"
  using aead_in_place [OF assms, of "cipher_key c" n a b]
  by (cases "aead_decrypt A (cipher_key c) n a b";
      simp add: cipher_decrypt_in_place_def cipher_decrypt_def case_prod_unfold Let_def split: if_splits)+

lemma cipher_decrypt_no_panic [simp]: "cipher_decrypt A c n a b \<noteq> Panic"
  by (simp add: cipher_decrypt_def)

lemma cipher_roundtrip:
  assumes "aead_ok A" "length k = 32" "length n = 12" "length a < 2 ^ 32" "length p < 2 ^ 32"
  obtains c where "cipher_encrypt A (cipher_new k) n a p = Ok c" "length c = length p + 16"
    and "cipher_decrypt A (cipher_new k) n a c = Ok p"
proof -
  obtain c where "aead_encrypt A k n a p = Some c" "length c = length p + 16" "aead_decrypt A k n a c = Some p"
    by (rule aead_roundtrip [OF assms])
  then show thesis
    by (intro that [of c]) (simp_all add: cipher_encrypt_def cipher_decrypt_def TAG_SIZE_def)
qed

section \<open>Key derivation\<close>

definition hkdf_derive :: "crypto_crates \<Rightarrow> bytes \<Rightarrow> bytes \<Rightarrow> bytes \<Rightarrow> nat \<Rightarrow> ('e, bytes) outcome" where
  "hkdf_derive P salt ikm info out_len =
     (case hkdf_sha256 P salt ikm info out_len of None \<Rightarrow> Panic | Some okm \<Rightarrow> Ok okm)"

definition copy_32 :: "bytes \<Rightarrow> ('e, bytes) outcome" where
  "copy_32 src = (if length src = 32 then Ok src else Panic)"

text \<open>The two 32-byte halves of a 64-byte derivation, sliced and copied as the three functions do.\<close>

definition halves :: "bytes \<Rightarrow> ('e, bytes \<times> bytes) outcome" where
  "halves derived =
     and_then (bslice derived 0 32) (\<lambda>a. and_then (copy_32 a) (\<lambda>a.
     and_then (bslice derived 32 (length derived)) (\<lambda>b. and_then (copy_32 b) (\<lambda>b. Ok (a, b)))))"

definition kdf_init :: "crypto_crates \<Rightarrow> bytes \<Rightarrow> ('e, bytes \<times> bytes) outcome" where
  "kdf_init P shared_secret =
     and_then (hkdf_derive P [] shared_secret (ascii ''R-VPN-v1 DoubleRatchet Init'') 64) halves"

definition kdf_rk :: "crypto_crates \<Rightarrow> bytes \<Rightarrow> bytes \<Rightarrow> ('e, bytes) outcome" where
  "kdf_rk P rk dh_out =
     and_then (hkdf_derive P [] dh_out (ascii ''R-VPN-v1 Root Key'') 64) (\<lambda>derived.
     and_then (bslice derived 0 32) copy_32)"

definition kdf_rk_2 :: "crypto_crates \<Rightarrow> bytes \<Rightarrow> bytes \<Rightarrow> ('e, bytes \<times> bytes) outcome" where
  "kdf_rk_2 P rk dh_out = and_then (hkdf_derive P rk dh_out (ascii ''R-VPN-v1 Ratchet'') 64) halves"

definition kdf_ck :: "crypto_crates \<Rightarrow> bytes \<Rightarrow> bytes \<times> bytes" where
  "kdf_ck P ck = (hmac_sha256 P ck [0x01], hmac_sha256 P ck [0x02])"

lemma hkdf_64:
  assumes "crypto_ok P"
  obtains a b where "and_then (hkdf_derive P s i f 64) halves = Ok (a, b)" "length a = 32" "length b = 32"
proof -
  obtain okm where "hkdf_sha256 P s i f 64 = Some okm" "length okm = 64"
    by (rule crypto_ok_hkdf [OF assms, of 64 s i f]) simp_all
  then show thesis
    by (intro that [of "take 32 okm" "drop 32 okm"]) (simp_all add: hkdf_derive_def halves_def copy_32_def)
qed

lemma kdf_init_ok:
  assumes "crypto_ok P"
  obtains a b where "kdf_init P s = Ok (a, b)" "length a = 32" "length b = 32"
  using hkdf_64 [OF assms] unfolding kdf_init_def by blast

lemma kdf_rk_2_ok:
  assumes "crypto_ok P"
  obtains a b where "kdf_rk_2 P rk dh = Ok (a, b)" "length a = 32" "length b = 32"
  using hkdf_64 [OF assms] unfolding kdf_rk_2_def by blast

section \<open>X25519 key pairs\<close>

record ephemeral_key =
  private_key :: bytes
  public_key :: bytes

text \<open>\<open>EphemeralKey::generate\<close> with the secret its random source yields.\<close>

definition ephemeral_generate :: "crypto_crates \<Rightarrow> bytes \<Rightarrow> ephemeral_key" where
  "ephemeral_generate P secret = \<lparr>private_key = secret, public_key = x25519_public P secret\<rparr>"

definition diffie_hellman :: "crypto_crates \<Rightarrow> ephemeral_key \<Rightarrow> bytes \<Rightarrow> bytes" where
  "diffie_hellman P k other_public = x25519_shared P (private_key k) other_public"

definition ephemeral_clone :: "crypto_crates \<Rightarrow> ephemeral_key \<Rightarrow> ephemeral_key" where
  "ephemeral_clone P k = (let private_bytes = private_key k
     in \<lparr>private_key = private_bytes, public_key = x25519_public P private_bytes\<rparr>)"

lemma ephemeral_clone_generate [simp]:
  "ephemeral_clone P (ephemeral_generate P s) = ephemeral_generate P s"
  by (simp add: ephemeral_clone_def ephemeral_generate_def)

section \<open>The laws can hold\<close>

text \<open>
  A concrete instance of the primitives, without any secrecy, that satisfies \<open>aead_ok\<close> and
  \<open>crypto_ok\<close>: the tag is 16 bytes taken from the key and a derived key mixes its inputs by addition.
\<close>

definition demo_tag :: "bytes \<Rightarrow> bytes" where
  "demo_tag k = take 16 (k @ replicate 16 0)"

definition demo_aead :: aead_crate where
  "demo_aead = \<lparr>
     aead_encrypt = \<lambda>k n a p. Some (p @ demo_tag k),
     aead_encrypt_detached = \<lambda>k n a p. Some (p, demo_tag k),
     aead_decrypt = \<lambda>k n a c. (if 16 \<le> length c \<and> drop (length c - 16) c = demo_tag k
        then Some (take (length c - 16) c) else None),
     aead_decrypt_in_place = \<lambda>k n a c. (if 16 \<le> length c \<and> drop (length c - 16) c = demo_tag k
        then (True, take (length c - 16) c) else (False, c))\<rparr>"

definition demo_mix :: "bytes \<Rightarrow> nat \<Rightarrow> bytes" where
  "demo_mix bs n = replicate n (sum_list bs)"

definition demo_crypto :: crypto_crates where
  "demo_crypto = \<lparr>
     chacha = demo_aead,
     hmac_sha256 = \<lambda>k m. demo_mix (k @ m) 32,
     hkdf_sha256 = \<lambda>s i f n. Some (demo_mix (s @ i @ f) n),
     x25519_public = \<lambda>a. demo_mix a 32,
     x25519_shared = \<lambda>a b. replicate 32 (32 * sum_list a + sum_list b)\<rparr>"

lemma length_demo_tag [simp]: "length (demo_tag k) = 16"
  by (simp add: demo_tag_def)

lemma demo_aead_ok: "aead_ok demo_aead"
  by (simp add: aead_ok_def demo_aead_def)

lemma demo_crypto_ok: "crypto_ok demo_crypto"
  by (simp add: crypto_ok_def demo_crypto_def demo_aead_ok demo_mix_def sum_list_replicate add.commute)

end
