(* ===== verification/Channel.thy ===== *)
theory Channel
  imports Rvpn_Prelude
begin

text \<open>
  The contract of an ordered encrypted channel and what follows from it once and for all. An endpoint
  has a \<open>send\<close> and a \<open>recv\<close> operation, each with the random values it draws as an argument. The
  relation \<open>flow a q b\<close> of the contract says that the messages \<open>q\<close>, each paired with its plaintext, are
  under way from \<open>a\<close> to \<open>b\<close> in this order and the two ends are in step. The length-prefixed framing and the
  two ratchets interpret the locales of this theory.
\<close>

section \<open>One direction\<close>

fun send_all :: "('p \<Rightarrow> 'x \<Rightarrow> bytes \<Rightarrow> ('e, 'm) outcome \<times> 'p) \<Rightarrow> 'p \<Rightarrow> ('x \<times> bytes) list
    \<Rightarrow> ('e, 'm list) outcome \<times> 'p" where
  "send_all send s [] = (Ok [], s)"
| "send_all send s ((x, p) # r) =
     (case send s x p of
        (Ok m, s') \<Rightarrow> (case send_all send s' r of
            (Ok ms, s'') \<Rightarrow> (Ok (m # ms), s'')
          | (Err e, s'') \<Rightarrow> (Err e, s'')
          | (Panic, s'') \<Rightarrow> (Panic, s''))
      | (Err e, s') \<Rightarrow> (Err e, s')
      | (Panic, s') \<Rightarrow> (Panic, s'))"

fun recv_all :: "('p \<Rightarrow> 'y \<Rightarrow> 'm \<Rightarrow> ('f, bytes) outcome \<times> 'p) \<Rightarrow> 'p \<Rightarrow> ('y \<times> 'm) list
    \<Rightarrow> ('f, bytes list) outcome \<times> 'p" where
  "recv_all recv s [] = (Ok [], s)"
| "recv_all recv s ((y, m) # r) =
     (case recv s y m of
        (Ok p, s') \<Rightarrow> (case recv_all recv s' r of
            (Ok ps, s'') \<Rightarrow> (Ok (p # ps), s'')
          | (Err e, s'') \<Rightarrow> (Err e, s'')
          | (Panic, s'') \<Rightarrow> (Panic, s''))
      | (Err e, s') \<Rightarrow> (Err e, s')
      | (Panic, s') \<Rightarrow> (Panic, s'))"

locale ordered_channel =
  fixes send :: "'p \<Rightarrow> 'x \<Rightarrow> bytes \<Rightarrow> ('e, 'm) outcome \<times> 'p"
    and recv :: "'p \<Rightarrow> 'y \<Rightarrow> 'm \<Rightarrow> ('f, bytes) outcome \<times> 'p"
    and usable :: "'x \<Rightarrow> bytes \<Rightarrow> bool"
    and flow :: "'p \<Rightarrow> ('m \<times> bytes) list \<Rightarrow> 'p \<Rightarrow> bool"
  assumes send_flow: "flow a q b \<Longrightarrow> usable x p \<Longrightarrow>
      \<exists>m a'. send a x p = (Ok m, a') \<and> flow a' (q @ [(m, p)]) b"
    and recv_flow: "flow a ((m, p) # q) b \<Longrightarrow> \<exists>b'. recv b y m = (Ok p, b') \<and> flow a q b'"
begin

lemma send_all_flow:
  assumes "flow a q b" "\<And>x p. (x, p) \<in> set ps \<Longrightarrow> usable x p"
  shows "\<exists>ms a'. send_all send a ps = (Ok ms, a') \<and> length ms = length ps
    \<and> flow a' (q @ zip ms (map snd ps)) b"
  using assms
proof (induction ps arbitrary: a q)
  case (Cons xp ps)
  obtain x p where xp: "xp = (x, p)" by fastforce
  then obtain m a' where s: "send a x p = (Ok m, a')" "flow a' (q @ [(m, p)]) b"
    using send_flow [OF Cons.prems(1), of x p] Cons.prems(2) by auto
  then obtain ms a'' where "send_all send a' ps = (Ok ms, a'')" "length ms = length ps"
    "flow a'' ((q @ [(m, p)]) @ zip ms (map snd ps)) b"
    using Cons.IH [OF s(2)] Cons.prems(2) by auto
  with s xp show ?case by simp
qed simp

lemma recv_all_flow:
  assumes "flow a q b" "length ys = length q"
  shows "\<exists>b'. recv_all recv b (zip ys (map fst q)) = (Ok (map snd q), b') \<and> flow a [] b'"
  using assms(2,1)
proof (induction ys q arbitrary: b rule: list_induct2)
  case (Cons y ys mp q)
  obtain m p where mp: "mp = (m, p)" by fastforce
  then obtain b' where r: "recv b y m = (Ok p, b')" "flow a q b'"
    using recv_flow Cons.prems by blast
  then obtain b'' where "recv_all recv b' (zip ys (map fst q)) = (Ok (map snd q), b'')" "flow a [] b''"
    using Cons.IH by blast
  with r mp show ?case by simp
qed simp

lemma in_order_delivery:
  assumes "flow a [] b" "\<And>x p. (x, p) \<in> set ps \<Longrightarrow> usable x p" "length ys = length ps"
  shows "\<exists>ms a' b'. send_all send a ps = (Ok ms, a')
    \<and> recv_all recv b (zip ys ms) = (Ok (map snd ps), b') \<and> flow a' [] b'"
proof -
  obtain ms a' where s: "send_all send a ps = (Ok ms, a')" "length ms = length ps"
    "flow a' (zip ms (map snd ps)) b"
    using send_all_flow [OF assms(1), of ps] assms(2) by auto
  with recv_all_flow [OF s(3), of ys] assms(3) show ?thesis by auto
qed

end

section \<open>Both directions\<close>

text \<open>
  A session of two endpoints and the two streams between them. Each side sends whenever it wants and
  takes the next message of its incoming stream whenever it wants: \<open>session_step\<close> is one such event.
  \<open>sent_a\<close> and \<open>sent_b\<close> log the plaintexts given to \<open>send\<close>, \<open>got_a\<close> and \<open>got_b\<close> the results of \<open>recv\<close>.
\<close>

record ('p, 'e, 'm) session =
  side_a :: 'p
  side_b :: 'p
  a_to_b :: "'m list"
  b_to_a :: "'m list"
  sent_a :: "bytes list"
  sent_b :: "bytes list"
  got_a :: "('e, bytes) outcome list"
  got_b :: "('e, bytes) outcome list"

definition session_start :: "'p \<Rightarrow> 'p \<Rightarrow> ('p, 'e, 'm) session" where
  "session_start a b = \<lparr>side_a = a, side_b = b, a_to_b = [], b_to_a = [],
     sent_a = [], sent_b = [], got_a = [], got_b = []\<rparr>"

inductive session_step :: "('p \<Rightarrow> 'x \<Rightarrow> bytes \<Rightarrow> ('e, 'm) outcome \<times> 'p)
    \<Rightarrow> ('p \<Rightarrow> 'y \<Rightarrow> 'm \<Rightarrow> ('e, bytes) outcome \<times> 'p) \<Rightarrow> ('x \<Rightarrow> bytes \<Rightarrow> bool)
    \<Rightarrow> ('p, 'e, 'm) session \<Rightarrow> ('p, 'e, 'm) session \<Rightarrow> bool"
  for send recv usable where
  send_a: "usable x p \<Longrightarrow> send (side_a s) x p = (Ok m, a') \<Longrightarrow>
     session_step send recv usable s
       (s\<lparr>side_a := a', a_to_b := a_to_b s @ [m], sent_a := sent_a s @ [p]\<rparr>)"
| send_b: "usable x p \<Longrightarrow> send (side_b s) x p = (Ok m, b') \<Longrightarrow>
     session_step send recv usable s
       (s\<lparr>side_b := b', b_to_a := b_to_a s @ [m], sent_b := sent_b s @ [p]\<rparr>)"
| recv_b: "a_to_b s = m # q \<Longrightarrow> recv (side_b s) y m = (res, b') \<Longrightarrow>
     session_step send recv usable s
       (s\<lparr>side_b := b', a_to_b := q, got_b := got_b s @ [res]\<rparr>)"
| recv_a: "b_to_a s = m # q \<Longrightarrow> recv (side_a s) y m = (res, a') \<Longrightarrow>
     session_step send recv usable s
       (s\<lparr>side_a := a', b_to_a := q, got_a := got_a s @ [res]\<rparr>)"

inductive_cases session_stepE: "session_step send recv usable s s'"

text \<open>
  What a stream of a session promises: everything sent so far, in order, is what was received
  followed by the plaintexts of the messages under way.
\<close>

definition stream_ok :: "('p \<Rightarrow> ('m \<times> bytes) list \<Rightarrow> 'p \<Rightarrow> bool) \<Rightarrow> 'p \<Rightarrow> 'm list \<Rightarrow> 'p
    \<Rightarrow> bytes list \<Rightarrow> ('e, bytes) outcome list \<Rightarrow> bool" where
  "stream_ok flow a ms b sent got \<longleftrightarrow>
     (\<exists>ps. length ps = length ms \<and> flow a (zip ms ps) b \<and> map Ok sent = got @ map Ok ps)"

lemma stream_ok_delivered:
  assumes "stream_ok flow a ms b sent got"
  shows "got = map Ok (take (length got) sent)" and "length sent = length got + length ms"
proof -
  obtain ps where ps: "length ps = length ms" "map Ok sent = got @ map Ok ps"
    using assms unfolding stream_ok_def by blast
  then show "length sent = length got + length ms" by (metis length_append length_map)
  from ps show "got = map Ok (take (length got) sent)" by (metis append_eq_conv_conj take_map)
qed

locale duplex_channel = ordered_channel send recv usable flow
  for send :: "'p \<Rightarrow> 'x \<Rightarrow> bytes \<Rightarrow> ('e, 'm) outcome \<times> 'p"
    and recv :: "'p \<Rightarrow> 'y \<Rightarrow> 'm \<Rightarrow> ('e, bytes) outcome \<times> 'p"
    and usable :: "'x \<Rightarrow> bytes \<Rightarrow> bool"
    and flow :: "'p \<Rightarrow> ('m \<times> bytes) list \<Rightarrow> 'p \<Rightarrow> bool" +
  assumes send_keeps_incoming: "flow b q a \<Longrightarrow> send a x p = (Ok m, a') \<Longrightarrow> flow b q a'"
    and recv_keeps_outgoing: "flow a ((m, p) # q) b \<Longrightarrow> flow b q' a \<Longrightarrow> recv b y m = (r, b') \<Longrightarrow> flow b' q' a"
begin

lemma stream_send:
  assumes "stream_ok flow a ms b sent got" "usable x p" "send a x p = (Ok m, a')"
  shows "stream_ok flow a' (ms @ [m]) b (sent @ [p]) got"
proof -
  obtain ps where ps: "length ps = length ms" "flow a (zip ms ps) b" "map Ok sent = got @ map Ok ps"
    using assms(1) unfolding stream_ok_def by blast
  with send_flow [OF ps(2) assms(2)] assms(3) have "flow a' (zip (ms @ [m]) (ps @ [p])) b" by auto
  with ps show ?thesis
    unfolding stream_ok_def by (intro exI [of _ "ps @ [p]"]) auto
qed

lemma stream_recv:
  assumes "stream_ok flow a (m # ms) b sent got" "recv b y m = (r, b')"
  shows "stream_ok flow a ms b' sent (got @ [r])"
    and "stream_ok flow b ms' a sent' got' \<Longrightarrow> stream_ok flow b' ms' a sent' got'"
proof -
  obtain p ps where ps: "length ps = length ms" "flow a ((m, p) # zip ms ps) b"
    "map Ok sent = got @ map Ok (p # ps)"
    using assms(1) unfolding stream_ok_def by (auto simp: length_Suc_conv)
  with recv_flow [OF ps(2), of y] assms(2) show "stream_ok flow a ms b' sent (got @ [r])"
    unfolding stream_ok_def by auto
  show "stream_ok flow b' ms' a sent' got'" if "stream_ok flow b ms' a sent' got'"
    using that recv_keeps_outgoing [OF ps(2) _ assms(2)] unfolding stream_ok_def by blast
qed

lemma stream_send_back:
  "stream_ok flow b ms a sent got \<Longrightarrow> send a x p = (Ok m, a') \<Longrightarrow> stream_ok flow b ms a' sent got"
  using send_keeps_incoming unfolding stream_ok_def by blast

lemma session_step_keeps:
  assumes "session_step send recv usable s s'"
    and "stream_ok flow (side_a s) (a_to_b s) (side_b s) (sent_a s) (got_b s)"
    and "stream_ok flow (side_b s) (b_to_a s) (side_a s) (sent_b s) (got_a s)"
  shows "stream_ok flow (side_a s') (a_to_b s') (side_b s') (sent_a s') (got_b s')
    \<and> stream_ok flow (side_b s') (b_to_a s') (side_a s') (sent_b s') (got_a s')"
  using assms by (elim session_stepE) (auto intro: stream_send stream_recv stream_send_back)

lemma session_streams:
  assumes "(session_step send recv usable)\<^sup>*\<^sup>* (session_start a b) s" "flow a [] b" "flow b [] a"
  shows "stream_ok flow (side_a s) (a_to_b s) (side_b s) (sent_a s) (got_b s)
    \<and> stream_ok flow (side_b s) (b_to_a s) (side_a s) (sent_b s) (got_a s)"
  using assms(1)
proof (induction rule: rtranclp_induct)
  case base
  show ?case using assms(2,3) by (simp add: session_start_def stream_ok_def)
next
  case (step s s')
  then show ?case using session_step_keeps by blast
qed

lemma session_delivery:
  assumes "(session_step send recv usable)\<^sup>*\<^sup>* (session_start a b) s" "flow a [] b" "flow b [] a"
  shows "got_b s = map Ok (take (length (got_b s)) (sent_a s))"
    and "got_a s = map Ok (take (length (got_a s)) (sent_b s))"
    and "length (sent_a s) = length (got_b s) + length (a_to_b s)"
    and "length (sent_b s) = length (got_a s) + length (b_to_a s)"
proof -
  note ab = session_streams [OF assms, THEN conjunct1] and ba = session_streams [OF assms, THEN conjunct2]
  show "got_b s = map Ok (take (length (got_b s)) (sent_a s))"
    "length (sent_a s) = length (got_b s) + length (a_to_b s)"
    by (rule stream_ok_delivered [OF ab])+
  show "got_a s = map Ok (take (length (got_a s)) (sent_b s))"
    "length (sent_b s) = length (got_a s) + length (b_to_a s)"
    by (rule stream_ok_delivered [OF ba])+
qed

end

end
