(* ===== verification/Length_Framing.thy ===== *)
theory Length_Framing
  imports Crypto Channel
begin

text \<open>
  The length-prefixed encryption framing of \<open>protocol/length_framing.rs\<close>: a frame is the sealed two-byte
  length followed by the sealed data, each under its own nonce, and the nonce is a big-endian counter
  that both ends advance by two per frame. The functions mutate the nonce they are given, on the
  error paths too, so each returns the nonce it leaves beside its result.
\<close>

section \<open>The framing\<close>

definition LEN_CIPHERTEXT_SIZE :: nat where
  "LEN_CIPHERTEXT_SIZE = 18"

definition MAX_FRAME_SIZE :: nat where
  "MAX_FRAME_SIZE = 65535 + LEN_CIPHERTEXT_SIZE + TAG_SIZE"

definition LEN_PLAINTEXT_SIZE :: nat where
  "LEN_PLAINTEXT_SIZE = 2"

lemmas framing_consts = LEN_CIPHERTEXT_SIZE_def MAX_FRAME_SIZE_def LEN_PLAINTEXT_SIZE_def TAG_SIZE_def NONCE_SIZE_def

datatype framing_error =
    FrameTooSmall
  | FrameTooLarge
  | InvalidLength
  | FrameDecryptionFailed string
  | FrameEncryptionFailed string

text \<open>The downward loop over the indices \<open>i - 1, ..., 0\<close> of the counter.\<close>

primrec increment_from :: "nat \<Rightarrow> bytes \<Rightarrow> bytes" where
  "increment_from 0 n = n"
| "increment_from (Suc i) n =
     (if n ! i = 255 then increment_from i (n[i := 0]) else n[i := n ! i + 1])"

definition increment_nonce :: "bytes \<Rightarrow> bytes" where
  "increment_nonce n = increment_from NONCE_SIZE n"

definition derive_client_nonce :: "bytes \<Rightarrow> bytes" where
  "derive_client_nonce base = base[NONCE_SIZE - 1 := or (base ! (NONCE_SIZE - 1)) 0x01]"

definition derive_server_nonce :: "bytes \<Rightarrow> bytes" where
  "derive_server_nonce base = base[NONCE_SIZE - 1 := and (base ! (NONCE_SIZE - 1)) 0xFE]"

text \<open>\<open>create_cipher\<close> binds the 32-byte key of an AES-256-GCM cipher.\<close>

definition create_cipher :: "bytes \<Rightarrow> cipher" where
  "create_cipher key = \<lparr>cipher_key = key\<rparr>"

definition encrypt_length :: "aead_crate \<Rightarrow> bytes \<Rightarrow> cipher \<Rightarrow> bytes \<Rightarrow> (framing_error, bytes) outcome" where
  "encrypt_length A plaintext c n =
     ok_or (FrameEncryptionFailed ''aead::Error'') (aead_encrypt A (cipher_key c) n [] plaintext)"

definition decrypt_length :: "aead_crate \<Rightarrow> bytes \<Rightarrow> cipher \<Rightarrow> bytes \<Rightarrow> (framing_error, bytes) outcome" where
  "decrypt_length A ct c n =
     ok_or (FrameDecryptionFailed ''aead::Error'') (aead_decrypt A (cipher_key c) n [] ct)"

definition encrypt_data :: "aead_crate \<Rightarrow> bytes \<Rightarrow> cipher \<Rightarrow> bytes \<Rightarrow> (framing_error, bytes) outcome" where
  "encrypt_data A plaintext c n =
     ok_or (FrameEncryptionFailed ''aead::Error'') (aead_encrypt A (cipher_key c) n [] plaintext)"

definition decrypt_data :: "aead_crate \<Rightarrow> bytes \<Rightarrow> cipher \<Rightarrow> bytes \<Rightarrow> (framing_error, bytes) outcome" where
  "decrypt_data A ct c n =
     ok_or (FrameDecryptionFailed ''aead::Error'') (aead_decrypt A (cipher_key c) n [] ct)"

definition encode_frame ::
  "aead_crate \<Rightarrow> bytes \<Rightarrow> cipher \<Rightarrow> bytes \<Rightarrow> (framing_error, bytes) outcome \<times> bytes" where
  "encode_frame A data c n =
     (let data_len = length data in
      if data_len > 65535 then (Err (FrameEncryptionFailed ''data exceeds maximum size''), n)
      else case encrypt_length A (to_be_bytes 2 (of_nat data_len :: u16)) c n of
        Err e \<Rightarrow> (Err e, n)
      | Panic \<Rightarrow> (Panic, n)
      | Ok len_ciphertext \<Rightarrow>
          (let n = increment_nonce n in
           case encrypt_data A data c n of
             Err e \<Rightarrow> (Err e, n)
           | Panic \<Rightarrow> (Panic, n)
           | Ok data_ciphertext \<Rightarrow> (Ok (len_ciphertext @ data_ciphertext), increment_nonce n)))"

definition decode_frame ::
  "aead_crate \<Rightarrow> bytes \<Rightarrow> cipher \<Rightarrow> bytes \<Rightarrow> (framing_error, bytes) outcome \<times> bytes" where
  "decode_frame A frame c n =
     (if length frame < LEN_CIPHERTEXT_SIZE then (Err FrameTooSmall, n)
      else if length frame > MAX_FRAME_SIZE then (Err FrameTooLarge, n)
      else case and_then (bslice frame 0 LEN_CIPHERTEXT_SIZE) (\<lambda>ct. decrypt_length A ct c n) of
        Err e \<Rightarrow> (Err e, n)
      | Panic \<Rightarrow> (Panic, n)
      | Ok len_plaintext \<Rightarrow>
          (let n = increment_nonce n in
           case idxs len_plaintext 0 2 of
             Err e \<Rightarrow> (Err e, n)
           | Panic \<Rightarrow> (Panic, n)
           | Ok len_bytes \<Rightarrow>
               (let data_len = unat (from_be_bytes len_bytes :: u16);
                    data_start = LEN_CIPHERTEXT_SIZE;
                    data_end = data_start + data_len + TAG_SIZE
                in if length frame < data_end then (Err FrameTooSmall, n)
                   else case and_then (bslice frame data_start data_end) (\<lambda>ct. decrypt_data A ct c n) of
                     Err e \<Rightarrow> (Err e, n)
                   | Panic \<Rightarrow> (Panic, n)
                   | Ok data_plaintext \<Rightarrow> (Ok data_plaintext, increment_nonce n))))"

definition validate_frame :: "bytes \<Rightarrow> (framing_error, unit) outcome" where
  "validate_frame frame =
     (if length frame < LEN_CIPHERTEXT_SIZE then Err FrameTooSmall
      else if length frame > MAX_FRAME_SIZE then Err FrameTooLarge
      else Ok ())"

section \<open>The nonce is a 96-bit counter\<close>

lemma length_increment_from [simp]: "length (increment_from i n) = length n"
  by (induction i arbitrary: n) simp_all

lemma length_increment_nonce [simp]: "length (increment_nonce n) = length n"
  by (simp add: increment_nonce_def)

text \<open>Little-endian increment without the carry out, the value the loop computes on a prefix.\<close>

fun increment_le :: "bytes \<Rightarrow> bytes" where
  "increment_le [] = []"
| "increment_le (b # bs) = (if b = 255 then 0 # increment_le bs else (b + 1) # bs)"

lemma length_increment_le [simp]: "length (increment_le bs) = length bs"
  by (induction bs) simp_all

lemma increment_from_prefix:
  "i \<le> length n \<Longrightarrow> increment_from i n = rev (increment_le (rev (take i n))) @ drop i n"
proof (induction i arbitrary: n)
  case (Suc i)
  have t: "take (Suc i) n = take i n @ [n ! i]" using Suc.prems by (simp add: take_Suc_conv_app_nth)
  have d: "drop i (n[i := b]) = b # drop (Suc i) n" for b
    using Suc.prems by (simp add: Cons_nth_drop_Suc [symmetric])
  show ?case
  proof (cases "n ! i = 255")
    case True
    with Suc.prems Suc.IH [of "n[i := 0]"] show ?thesis by (simp add: t d)
  next
    case False
    have "n[i := n ! i + 1] = take i n @ (n ! i + 1) # drop (Suc i) n"
      using Suc.prems by (simp add: upd_conv_take_nth_drop)
    with False show ?thesis by (simp add: t)
  qed
qed simp

lemma le_value_increment_le:
  "le_value (increment_le bs) = (le_value bs + 1) mod 256 ^ length bs"
proof (induction bs)
  case (Cons b bs)
  show ?case
  proof (cases "b = 255")
    case True
    have "256 * ((le_value bs + 1) mod 256 ^ length bs) = (256 * le_value bs + 256) mod (256 * 256 ^ length bs)"
      by (simp add: mult_mod_right add.commute)
    moreover have "unat (255 :: u8) = 255" by simp
    then have "le_value (b # bs) + 1 = 256 * le_value bs + 256"
      unfolding True le_value.simps by linarith
    ultimately show ?thesis using True Cons by (simp add: add.commute)
  next
    case False
    moreover have "b = 255" if "b + 1 = 0"
    proof -
      from that have "b = - 1" by (simp add: eq_neg_iff_add_eq_0)
      then show ?thesis by simp
    qed
    ultimately have u: "unat (b + 1) = unat b + 1" by (metis unatSuc add.commute Suc_eq_plus1)
    have "le_value (b # bs) + 1 < 256 ^ length (b # bs)"
      using le_value_bound [of "(b + 1) # bs"] by (simp add: u)
    with False show ?thesis by (simp add: u)
  qed
qed simp

lemma increment_nonce_counter:
  assumes "length n = 12"
  shows "from_be_bytes (increment_nonce n) = (from_be_bytes n + 1 :: 96 word)"
proof -
  have "increment_nonce n = rev (increment_le (rev n))"
    using assms increment_from_prefix [of 12 n] by (simp add: increment_nonce_def NONCE_SIZE_def)
  then have "from_be_bytes (increment_nonce n)
      = (of_nat ((le_value (rev n) + 1) mod 256 ^ 12) :: 96 word)"
    using assms by (simp add: from_be_bytes_def from_le_bytes_def le_value_increment_le)
  also have "\<dots> = of_nat (le_value (rev n) + 1)"
    by (simp only: word_of_nat_eq_iff take_bit_eq_mod) simp
  finally show ?thesis by (simp add: from_be_bytes_def from_le_bytes_def)
qed

lemma even_byte_plus_1: "and b 0xFE + 1 = (or b 0x01 :: u8)" "and b 0xFE \<noteq> (255 :: u8)"
proof -
  have m: "(0xFE :: u8) = not 1" by simp
  have d: "and (and b (not 1)) 1 = (0 :: u8)" by (rule bit_word_eqI) (auto simp: bit_simps)
  show "and b 0xFE + 1 = (or b 0x01 :: u8)"
    unfolding m by (subst disjunctive_add_eq_or [OF d]) (rule bit_word_eqI, auto simp: bit_simps)
  show "and b 0xFE \<noteq> (255 :: u8)" unfolding m using d by auto
qed

lemma server_nonce_next:
  assumes "length base = 12"
  shows "increment_nonce (derive_server_nonce base) = derive_client_nonce base"
proof -
  have 11: "NONCE_SIZE = Suc 11" "NONCE_SIZE - 1 = 11" by (simp_all add: NONCE_SIZE_def)
  show ?thesis
    unfolding increment_nonce_def derive_server_nonce_def derive_client_nonce_def 11 increment_from.simps
    using assms by (simp add: even_byte_plus_1)
qed

section \<open>Frames\<close>

lemma encode_frame_parts:
  assumes "aead_ok A" "length (cipher_key c) = 32" "length n = 12" "length data \<le> 65535"
  obtains c1 c2 where "encode_frame A data c n = (Ok (c1 @ c2), increment_nonce (increment_nonce n))"
    and "length c1 = 18" "length c2 = length data + 16"
    and "aead_encrypt A (cipher_key c) n [] (to_be_bytes 2 (of_nat (length data) :: u16)) = Some c1"
    and "aead_encrypt A (cipher_key c) (increment_nonce n) [] data = Some c2"
    and "aead_decrypt A (cipher_key c) n [] c1 = Some (to_be_bytes 2 (of_nat (length data) :: u16))"
    and "aead_decrypt A (cipher_key c) (increment_nonce n) [] c2 = Some data"
proof -
  obtain c1 where "aead_encrypt A (cipher_key c) n [] (to_be_bytes 2 (of_nat (length data) :: u16)) = Some c1"
    "length c1 = 18" "aead_decrypt A (cipher_key c) n [] c1 = Some (to_be_bytes 2 (of_nat (length data) :: u16))"
    by (rule aead_roundtrip [OF assms(1-3), of "[]" "to_be_bytes 2 (of_nat (length data) :: u16)"]) simp_all
  moreover obtain c2 where "aead_encrypt A (cipher_key c) (increment_nonce n) [] data = Some c2"
    "length c2 = length data + 16" "aead_decrypt A (cipher_key c) (increment_nonce n) [] c2 = Some data"
    by (rule aead_roundtrip [OF assms(1,2), of "increment_nonce n" "[]" data]) (use assms in simp_all)
  moreover from calculation have
    "encode_frame A data c n = (Ok (c1 @ c2), increment_nonce (increment_nonce n))"
    using assms(4) by (simp add: encode_frame_def encrypt_length_def encrypt_data_def Let_def)
  ultimately show thesis using that by blast
qed

lemma encode_frame_succeeds:
  assumes "aead_ok A" "length (cipher_key c) = 32" "length n = 12" "length data \<le> 65535"
  shows "\<exists>f. encode_frame A data c n = (Ok f, increment_nonce (increment_nonce n))"
  by (rule encode_frame_parts [OF assms]) (rule exI)

lemma decode_encode_frame:
  assumes "aead_ok A" "length (cipher_key c) = 32" "length n = 12" "length data \<le> 65535"
    and "encode_frame A data c n = (Ok f, n')"
  shows "decode_frame A f c n = (Ok data, n') \<and> n' = increment_nonce (increment_nonce n) \<and> length f = length data + 34"
proof -
  obtain c1 c2 where e: "encode_frame A data c n = (Ok (c1 @ c2), increment_nonce (increment_nonce n))"
    "length c1 = 18" "length c2 = length data + 16"
    "aead_decrypt A (cipher_key c) n [] c1 = Some (to_be_bytes 2 (of_nat (length data) :: u16))"
    "aead_decrypt A (cipher_key c) (increment_nonce n) [] c2 = Some data"
    by (rule encode_frame_parts [OF assms(1-4)])
  with assms(5) have "f = c1 @ c2" "n' = increment_nonce (increment_nonce n)" by simp_all
  with e assms(4) show ?thesis
    by (simp add: decode_frame_def framing_consts decrypt_length_def decrypt_data_def Let_def)
qed

lemma decode_frame_no_panic:
  assumes "aead_ok A"
  shows "fst (decode_frame A f c n) \<noteq> Panic"
proof (cases "18 \<le> length f \<and> length f \<le> MAX_FRAME_SIZE")
  case True
  show ?thesis
  proof (cases "aead_decrypt A (cipher_key c) n [] (take 18 f)")
    case None
    with True show ?thesis by (simp add: decode_frame_def LEN_CIPHERTEXT_SIZE_def decrypt_length_def)
  next
    case (Some p)
    then have "length p = 2" using aead_decrypt_length [OF assms Some] True by simp
    with Some True show ?thesis
      by (simp add: decode_frame_def LEN_CIPHERTEXT_SIZE_def decrypt_length_def decrypt_data_def Let_def
          ok_or_def split: option.split)
  qed
qed (auto simp: decode_frame_def LEN_CIPHERTEXT_SIZE_def)

text \<open>The frames under way on a stream whose receiver stands at nonce \<open>b\<close> and whose sender at \<open>a\<close>.\<close>

fun frames_under_way :: "aead_crate \<Rightarrow> cipher \<Rightarrow> bytes \<Rightarrow> (bytes \<times> bytes) list \<Rightarrow> bytes \<Rightarrow> bool" where
  "frames_under_way A c b [] a = (a = b)"
| "frames_under_way A c b ((f, d) # q) a \<longleftrightarrow> length d \<le> 65535
     \<and> encode_frame A d c b = (Ok f, increment_nonce (increment_nonce b))
     \<and> frames_under_way A c (increment_nonce (increment_nonce b)) q a"

definition frame_flow :: "aead_crate \<Rightarrow> cipher \<Rightarrow> bytes \<Rightarrow> (bytes \<times> bytes) list \<Rightarrow> bytes \<Rightarrow> bool" where
  "frame_flow A c a q b \<longleftrightarrow> aead_ok A \<and> length (cipher_key c) = 32 \<and> length a = 12 \<and> length b = 12
     \<and> frames_under_way A c b q a"

lemma frames_under_way_snoc:
  "frames_under_way A c b (q @ [(f, d)]) a' \<longleftrightarrow>
     (\<exists>a. frames_under_way A c b q a \<and> length d \<le> 65535
        \<and> encode_frame A d c a = (Ok f, a') \<and> a' = increment_nonce (increment_nonce a))"
  by (induction A c b q a' rule: frames_under_way.induct) auto

interpretation framing: ordered_channel
  "\<lambda>n (x :: unit) d. encode_frame A d c n" "\<lambda>n (y :: unit) f. decode_frame A f c n"
  "\<lambda>x d. length d \<le> 65535" "frame_flow A c" for A c
proof
  show "\<exists>m a'. encode_frame A p c a = (Ok m, a') \<and> frame_flow A c a' (q @ [(m, p)]) b"
    if f: "frame_flow A c a q b" and l: "length p \<le> 65535" for a q b p
  proof -
    have *: "aead_ok A" "length (cipher_key c) = 32" "length a = 12" "length b = 12" "frames_under_way A c b q a"
      using f by (simp_all add: frame_flow_def)
    obtain f where "encode_frame A p c a = (Ok f, increment_nonce (increment_nonce a))"
      using encode_frame_succeeds [OF *(1-3) l] ..
    with * l show ?thesis by (auto simp: frame_flow_def frames_under_way_snoc)
  qed
  show "\<exists>b'. decode_frame A m c b = (Ok p, b') \<and> frame_flow A c a q b'"
    if "frame_flow A c a ((m, p) # q) b" for a m p q b
    using that decode_encode_frame [of A c b p m] by (auto simp: frame_flow_def)
qed

section \<open>Properties\<close>

text \<open>C10: a sequence of payloads of at most 65535 bytes each, encoded one after the other from a nonce and
  decoded in the same order from the same nonce, comes out unchanged, and both ends are left at the
  same nonce.\<close>

theorem framed_stream_roundtrip:
  assumes "aead_ok A" "length (cipher_key c) = 32" "length n = 12" "\<And>d. d \<in> set ds \<Longrightarrow> length d \<le> 65535"
  shows "\<exists>fs n'. send_all (\<lambda>n x d. encode_frame A d c n) n (map (Pair ()) ds) = (Ok fs, n')
    \<and> recv_all (\<lambda>n y f. decode_frame A f c n) n (map (Pair ()) fs) = (Ok ds, n')"
proof -
  have "frame_flow A c n [] n" using assms by (simp add: frame_flow_def)
  then obtain fs n' n'' where s: "send_all (\<lambda>n x d. encode_frame A d c n) n (map (Pair ()) ds) = (Ok fs, n')"
    "recv_all (\<lambda>n y f. decode_frame A f c n) n (zip (replicate (length ds) ()) fs) = (Ok ds, n'')"
    "frame_flow A c n' [] n''"
    using framing.in_order_delivery [of A c n n "map (Pair ()) ds" "replicate (length ds) ()"] assms(4)
    by (auto simp: comp_def)
  moreover have "length fs = length ds"
    using framing.send_all_flow [of A c n "[]" n "map (Pair ()) ds"] \<open>frame_flow A c n [] n\<close> assms(4) s(1) by auto
  then have "zip (replicate (length ds) ()) fs = map (Pair ()) fs"
    by (simp add: zip_replicate1)
  ultimately show ?thesis by (auto simp: frame_flow_def)
qed

theorem framed_stream_roundtrip_witness:
  "\<exists>fs n'. send_all (\<lambda>n x d. encode_frame demo_aead d (create_cipher (replicate 32 5)) n) (replicate 12 255)
      (map (Pair ()) [[1, 2, 3], [], [4]]) = (Ok fs, n')
    \<and> recv_all (\<lambda>n y f. decode_frame demo_aead f (create_cipher (replicate 32 5)) n) (replicate 12 255)
      (map (Pair ()) fs) = (Ok [[1, 2, 3], [], [4]], n')"
  by (rule framed_stream_roundtrip) (auto simp: demo_aead_ok create_cipher_def)

text \<open>\<open>increment_nonce\<close> is the increment of a 96-bit big-endian counter: it adds one and wraps from
  the all-ones nonce to zero.\<close>

lemma increment_nonce_is_counter:
  "length n = 12 \<Longrightarrow> from_be_bytes (increment_nonce n) = (from_be_bytes n + 1 :: 96 word)"
  by (rule increment_nonce_counter)

text \<open>C36: the client and server nonces are not disjoint. They are meant to be odd and even, but each frame
  uses two consecutive nonces: for every base nonce, the server's first payload is sealed under the
  same key and nonce as the length field of the client's first frame.\<close>

theorem client_and_server_reuse_nonce:
  assumes "aead_ok A" "length (cipher_key c) = 32" "length base = 12"
    and "length d \<le> 65535" "length d' \<le> 65535"
  shows "\<exists>nonce x x' y y'. fst (encode_frame A d c (derive_client_nonce base)) = Ok (x @ x')
    \<and> fst (encode_frame A d' c (derive_server_nonce base)) = Ok (y @ y')
    \<and> aead_encrypt A (cipher_key c) nonce [] (to_be_bytes 2 (of_nat (length d) :: u16)) = Some x
    \<and> aead_encrypt A (cipher_key c) nonce [] d' = Some y'"
proof -
  have l: "length (derive_client_nonce base) = 12" "length (derive_server_nonce base) = 12"
    using assms(3) by (simp_all add: derive_client_nonce_def derive_server_nonce_def)
  obtain x x' where "fst (encode_frame A d c (derive_client_nonce base)) = Ok (x @ x')"
    "aead_encrypt A (cipher_key c) (derive_client_nonce base) [] (to_be_bytes 2 (of_nat (length d) :: u16)) = Some x"
    by (rule encode_frame_parts [OF assms(1,2) l(1) assms(4)]) simp
  moreover obtain y y' where "fst (encode_frame A d' c (derive_server_nonce base)) = Ok (y @ y')"
    "aead_encrypt A (cipher_key c) (derive_client_nonce base) [] d' = Some y'"
    by (rule encode_frame_parts [OF assms(1,2) l(2) assms(5)]) (simp add: server_nonce_next [OF assms(3)])
  ultimately show ?thesis by blast
qed

theorem client_and_server_reuse_nonce_witness:
  "\<exists>nonce x x' y y'. fst (encode_frame demo_aead [1] (create_cipher (replicate 32 5)) (derive_client_nonce (replicate 12 0))) = Ok (x @ x')
    \<and> fst (encode_frame demo_aead [2] (create_cipher (replicate 32 5)) (derive_server_nonce (replicate 12 0))) = Ok (y @ y')
    \<and> aead_encrypt demo_aead (replicate 32 5) nonce [] (to_be_bytes 2 (of_nat 1 :: u16)) = Some x
    \<and> aead_encrypt demo_aead (replicate 32 5) nonce [] [2] = Some y'"
  using client_and_server_reuse_nonce [of demo_aead "create_cipher (replicate 32 5)" "replicate 12 0" "[1]" "[2]"]
  by (simp add: demo_aead_ok create_cipher_def)

end
