(* ===== verification/Ratchet.thy ===== *)
theory Ratchet
  imports Crypto Channel
begin

text \<open>
  The double ratchet of \<open>crypto/ratchet.rs\<close>: initialisation, encryption and its in-place variant, the
  three decryption routines, skipping of message keys, the DH ratchet step, and the zero-copy parser of
  ratchet messages. A method that takes \<open>&mut self\<close> returns its outcome beside the state it leaves.

  Random values (a fresh X25519 secret, a nonce) are arguments. The LRU cache of skipped keys is the
  \<open>lru\<close> crate's: its operations are the fields of \<open>lru_crate\<close>, and \<open>lru_ok\<close> states what is relied on.
\<close>

section \<open>The cache of skipped keys\<close>

type_synonym skip_key = "bytes \<times> u32"

record 'c lru_crate =
  lru_new :: "nat \<Rightarrow> 'c"
  lru_contains :: "'c \<Rightarrow> skip_key \<Rightarrow> bool"
  lru_pop :: "'c \<Rightarrow> skip_key \<Rightarrow> bytes option \<times> 'c"
  lru_put :: "'c \<Rightarrow> skip_key \<Rightarrow> bytes \<Rightarrow> 'c"
  lru_is_empty :: "'c \<Rightarrow> bool"

definition lru_ok :: "'c lru_crate \<Rightarrow> bool" where
  "lru_ok L \<longleftrightarrow>
     (\<forall>n k. \<not> lru_contains L (lru_new L n) k)
     \<and> (\<forall>c k k' v. lru_contains L (lru_put L c k v) k' \<longrightarrow> k' = k \<or> lru_contains L c k')
     \<and> (\<forall>c k k'. lru_contains L (snd (lru_pop L c k)) k' \<longrightarrow> lru_contains L c k')
     \<and> (\<forall>c k. lru_contains L c k \<longrightarrow> fst (lru_pop L c k) \<noteq> None)
     \<and> (\<forall>c. lru_is_empty L c \<longleftrightarrow> (\<forall>k. \<not> lru_contains L c k))"

section \<open>State\<close>

definition CHAIN_KEY_SIZE :: nat where
  "CHAIN_KEY_SIZE = 32"

definition MESSAGE_KEY_SIZE :: nat where
  "MESSAGE_KEY_SIZE = 32"

definition MAX_SKIP :: nat where
  "MAX_SKIP = 1000"

definition MAX_MESSAGE_SIZE :: nat where
  "MAX_MESSAGE_SIZE = 1024 * 1024"

record 'c double_ratchet =
  dr_dh_pair :: "ephemeral_key option"
  dr_remote_dh_key :: "bytes option"
  dr_previous_remote_dh_key :: "bytes option"
  dr_root_key :: bytes
  dr_sending_chain_key :: "bytes option"
  dr_receiving_chain_key :: "bytes option"
  dr_send_message_number :: u32
  dr_recv_message_number :: u32
  dr_previous_chain_length :: u32
  dr_skipped_keys :: 'c

text \<open>\<open>init_alice\<close> ignores the server's public key it is given, and so does the model.\<close>

definition dr_init_alice :: "crypto_crates \<Rightarrow> 'c lru_crate \<Rightarrow> bytes \<Rightarrow> bytes \<Rightarrow> ('e, 'c double_ratchet) outcome" where
  "dr_init_alice P L fresh shared_secret =
     and_then (kdf_init P shared_secret) (\<lambda>keys.
     Ok \<lparr>dr_dh_pair = Some (ephemeral_generate P fresh),
         dr_remote_dh_key = None,
         dr_previous_remote_dh_key = None,
         dr_root_key = shared_secret,
         dr_sending_chain_key = Some (fst keys),
         dr_receiving_chain_key = Some (snd keys),
         dr_send_message_number = 0,
         dr_recv_message_number = 0,
         dr_previous_chain_length = 0,
         dr_skipped_keys = lru_new L MAX_SKIP\<rparr>)"

definition dr_init_bob :: "crypto_crates \<Rightarrow> 'c lru_crate \<Rightarrow> bytes \<Rightarrow> bytes \<Rightarrow> ('e, 'c double_ratchet) outcome" where
  "dr_init_bob P L fresh shared_secret =
     and_then (kdf_init P shared_secret) (\<lambda>keys.
     Ok \<lparr>dr_dh_pair = Some (ephemeral_generate P fresh),
         dr_remote_dh_key = None,
         dr_previous_remote_dh_key = None,
         dr_root_key = shared_secret,
         dr_sending_chain_key = Some (snd keys),
         dr_receiving_chain_key = Some (fst keys),
         dr_send_message_number = 0,
         dr_recv_message_number = 0,
         dr_previous_chain_length = 0,
         dr_skipped_keys = lru_new L MAX_SKIP\<rparr>)"

definition get_send_message_number :: "'c double_ratchet \<Rightarrow> u32" where
  "get_send_message_number s = dr_send_message_number s"

definition get_recv_message_number :: "'c double_ratchet \<Rightarrow> u32" where
  "get_recv_message_number s = dr_recv_message_number s"

definition get_dh_public_key :: "'c double_ratchet \<Rightarrow> bytes option" where
  "get_dh_public_key s = map_option public_key (dr_dh_pair s)"

section \<open>Encryption\<close>

text \<open>\<open>associated_data.first().copied().unwrap_or(0)\<close>.\<close>

definition first_or_zero :: "bytes \<Rightarrow> u8" where
  "first_or_zero bs = (case bs of [] \<Rightarrow> 0 | b # r \<Rightarrow> b)"

definition dr_encrypt :: "crypto_crates \<Rightarrow> 'c double_ratchet \<Rightarrow> bytes \<Rightarrow> bytes \<Rightarrow> bytes
    \<Rightarrow> (crypt_error, ratchet_message) outcome \<times> 'c double_ratchet" where
  "dr_encrypt P s rnd plaintext associated_data =
     (case dr_sending_chain_key s of
        None \<Rightarrow> (Err (EncryptionFailed NoSendingChain), s)
      | Some chain_key \<Rightarrow>
          let (message_key, next_chain_key) = kdf_ck P chain_key;
              c = cipher_new message_key;
              ptype = first_or_zero associated_data;
              aad = [ptype]
          in case cipher_encrypt (chacha P) c rnd aad plaintext of
               Err e \<Rightarrow> (Err (EncryptionFailed (CipherReported (reason e))), s)
             | Panic \<Rightarrow> (Panic, s)
             | Ok ct \<Rightarrow>
                 let h = \<lparr>dh_public = map_option public_key (dr_dh_pair s),
                          message_number = dr_send_message_number s,
                          previous_chain_length = dr_previous_chain_length s,
                          payload_type = ptype\<rparr>
                 in (Ok \<lparr>header = h, nonce = rnd, ciphertext = ct\<rparr>,
                     s\<lparr>dr_sending_chain_key := Some next_chain_key,
                       dr_send_message_number := dr_send_message_number s + 1\<rparr>))"

text \<open>
  The in-place variant returns the nonce and the header and leaves the ciphertext in the caller's
  buffer, whose old contents it drops before it encrypts.
\<close>

definition dr_encrypt_to :: "crypto_crates \<Rightarrow> 'c double_ratchet \<Rightarrow> bytes \<Rightarrow> bytes \<Rightarrow> bytes \<Rightarrow> bytes
    \<Rightarrow> (crypt_error, bytes \<times> message_header) outcome \<times> 'c double_ratchet \<times> bytes" where
  "dr_encrypt_to P s rnd plaintext associated_data ciphertext_out =
     (case dr_sending_chain_key s of
        None \<Rightarrow> (Err (EncryptionFailed NoSendingChain), s, ciphertext_out)
      | Some chain_key \<Rightarrow>
          let (message_key, next_chain_key) = kdf_ck P chain_key;
              c = cipher_new message_key;
              ptype = first_or_zero associated_data;
              aad = [ptype];
              buf = plaintext
          in case cipher_encrypt_in_place (chacha P) c rnd aad buf of
               Err e \<Rightarrow> (Err (EncryptionFailed (CipherReported (reason e))), s, buf)
             | Panic \<Rightarrow> (Panic, s, buf)
             | Ok ct \<Rightarrow>
                 let h = \<lparr>dh_public = map_option public_key (dr_dh_pair s),
                          message_number = dr_send_message_number s,
                          previous_chain_length = dr_previous_chain_length s,
                          payload_type = ptype\<rparr>
                 in (Ok (rnd, h),
                     s\<lparr>dr_sending_chain_key := Some next_chain_key,
                       dr_send_message_number := dr_send_message_number s + 1\<rparr>,
                     ct))"

section \<open>Skipping and ratcheting\<close>

function skip_loop :: "crypto_crates \<Rightarrow> 'c lru_crate \<Rightarrow> u32 \<Rightarrow> 'c double_ratchet \<Rightarrow> bytes
    \<Rightarrow> 'c double_ratchet \<times> bytes" where
  "skip_loop P L until s current_ck =
     (if dr_recv_message_number s < until then
        let (message_key, next_ck) = kdf_ck P current_ck;
            header_bytes = (case dr_remote_dh_key s of None \<Rightarrow> [] | Some k \<Rightarrow> k)
        in skip_loop P L until
             (s\<lparr>dr_skipped_keys := lru_put L (dr_skipped_keys s) (header_bytes, dr_recv_message_number s) message_key,
                dr_recv_message_number := dr_recv_message_number s + 1\<rparr>) next_ck
      else (s, current_ck))"
  by pat_completeness auto

lemma less_word_next: "(a :: 'a::len word) < b \<Longrightarrow> unat (a + 1) = unat a + 1"
proof -
  assume "a < b"
  then have "unat a + 1 \<le> unat b" by (simp add: word_less_nat_alt)
  also have "unat b < 2 ^ LENGTH('a)" by (rule unsigned_less)
  finally show ?thesis by (simp add: unat_word_ariths)
qed

termination skip_loop
  by (relation "measure (\<lambda>(P, L, until, s, ck). unat until - unat (dr_recv_message_number s))")
     (auto simp: less_word_next word_less_nat_alt)

declare skip_loop.simps [simp del]

definition skip_message_keys :: "crypto_crates \<Rightarrow> 'c lru_crate \<Rightarrow> 'c double_ratchet \<Rightarrow> u32
    \<Rightarrow> (crypt_error, unit) outcome \<times> 'c double_ratchet" where
  "skip_message_keys P L s until =
     (if dr_recv_message_number s + of_nat MAX_SKIP < until then (Err (DecryptionFailed TooManySkipped), s)
      else case dr_receiving_chain_key s of
        None \<Rightarrow> (Err (DecryptionFailed NoReceivingChain), s)
      | Some chain_key \<Rightarrow>
          let (s', current_ck) = skip_loop P L until s chain_key
          in (Ok (), s'\<lparr>dr_receiving_chain_key := Some current_ck\<rparr>))"

definition dh_ratchet_step :: "crypto_crates \<Rightarrow> 'c double_ratchet \<Rightarrow> bytes \<Rightarrow> bytes
    \<Rightarrow> (crypt_error, unit) outcome \<times> 'c double_ratchet" where
  "dh_ratchet_step P s fresh remote_dh =
     (let s = s\<lparr>dr_previous_chain_length := dr_send_message_number s,
                dr_send_message_number := 0,
                dr_recv_message_number := 0\<rparr>;
          old_remote_key = (case dr_previous_remote_dh_key s of
              Some k \<Rightarrow> k
            | None \<Rightarrow> (case dr_remote_dh_key s of Some k \<Rightarrow> k | None \<Rightarrow> remote_dh))
      in case dr_dh_pair s of
           None \<Rightarrow> (Panic, s)
         | Some current_dh_pair \<Rightarrow>
             let recv_dh_secret = diffie_hellman P current_dh_pair old_remote_key
             in case kdf_rk_2 P (dr_root_key s) recv_dh_secret of
                  Err e \<Rightarrow> (Err e, s)
                | Panic \<Rightarrow> (Panic, s)
                | Ok (rk, recv_chain_key) \<Rightarrow>
                    let s = s\<lparr>dr_receiving_chain_key := Some recv_chain_key, dr_root_key := rk\<rparr>;
                        new_dh_pair = ephemeral_generate P fresh;
                        send_dh_secret = diffie_hellman P new_dh_pair remote_dh
                    in case kdf_rk_2 P (dr_root_key s) send_dh_secret of
                         Err e \<Rightarrow> (Err e, s)
                       | Panic \<Rightarrow> (Panic, s)
                       | Ok (rk, send_chain_key) \<Rightarrow>
                           let s = s\<lparr>dr_sending_chain_key := Some send_chain_key, dr_root_key := rk\<rparr>;
                               s = (case dr_remote_dh_key s of
                                      Some current \<Rightarrow> s\<lparr>dr_previous_remote_dh_key := Some current\<rparr>
                                    | None \<Rightarrow> s)
                           in (Ok (), s\<lparr>dr_remote_dh_key := Some remote_dh, dr_dh_pair := Some new_dh_pair\<rparr>))"

definition ratchet_for_next_message :: "crypto_crates \<Rightarrow> 'c double_ratchet \<Rightarrow> bytes
    \<Rightarrow> (crypt_error, unit) outcome \<times> 'c double_ratchet" where
  "ratchet_for_next_message P s fresh =
     (case dr_remote_dh_key s of
        Some remote_dh \<Rightarrow> dh_ratchet_step P s fresh remote_dh
      | None \<Rightarrow> (Ok (), s))"

section \<open>Decryption\<close>

definition dr_decrypt :: "crypto_crates \<Rightarrow> 'c lru_crate \<Rightarrow> 'c double_ratchet \<Rightarrow> bytes \<Rightarrow> ratchet_message
    \<Rightarrow> (crypt_error, bytes) outcome \<times> 'c double_ratchet" where
  "dr_decrypt P L s fresh m =
     (if length (ciphertext m) > MAX_MESSAGE_SIZE
      then (Err (DecryptionFailed (MessageTooLarge (length (ciphertext m)))), s)
      else let target_number = message_number (header m);
               current_number = dr_recv_message_number s;
               associated_data = [payload_type (header m)];
               header_bytes = header_to_bytes (header m);
               key = (header_bytes, target_number)
      in if lru_contains L (dr_skipped_keys s) key then
        (case lru_pop L (dr_skipped_keys s) key of
           (None, cache) \<Rightarrow> (Panic, s\<lparr>dr_skipped_keys := cache\<rparr>)
         | (Some message_key, cache) \<Rightarrow>
             (cipher_decrypt (chacha P) (cipher_new message_key) (nonce m) associated_data (ciphertext m),
              s\<lparr>dr_skipped_keys := cache\<rparr>))
      else if target_number < current_number
      then (Err (DecryptionFailed (MessageTooOld target_number current_number)), s)
      else st_then
        (case (dh_public (header m), dr_remote_dh_key s) of
           (Some remote_dh, Some current_remote) \<Rightarrow>
             (if current_remote \<noteq> remote_dh
              then st_then (skip_message_keys P L s (previous_chain_length (header m)))
                     (\<lambda>_ s. dh_ratchet_step P s fresh remote_dh)
              else (Ok (), s))
         | (Some remote_dh, None) \<Rightarrow> (Ok (), s\<lparr>dr_remote_dh_key := Some remote_dh\<rparr>)
         | (None, _) \<Rightarrow> (Ok (), s)) (\<lambda>_ s.
      st_then (if target_number > current_number then skip_message_keys P L s target_number else (Ok (), s)) (\<lambda>_ s.
      case dr_receiving_chain_key s of
        None \<Rightarrow> (Err (DecryptionFailed NoReceivingChain), s)
      | Some chain_key \<Rightarrow>
          let (message_key, next_chain_key) = kdf_ck P chain_key in
          (case cipher_decrypt (chacha P) (cipher_new message_key) (nonce m) associated_data (ciphertext m) of
             Ok plaintext \<Rightarrow> (Ok plaintext, s\<lparr>dr_receiving_chain_key := Some next_chain_key,
                 dr_recv_message_number := target_number + 1\<rparr>)
           | Err e \<Rightarrow> (Err (DecryptionFailed (CipherReported (reason e))), s)
           | Panic \<Rightarrow> (Panic, s)))))"

definition dr_decrypt_to :: "crypto_crates \<Rightarrow> 'c lru_crate \<Rightarrow> 'c double_ratchet \<Rightarrow> bytes \<Rightarrow> ratchet_message
    \<Rightarrow> bytes \<Rightarrow> (crypt_error, nat) outcome \<times> 'c double_ratchet \<times> bytes" where
  "dr_decrypt_to P L s fresh m plaintext_out =
     (if length (ciphertext m) > MAX_MESSAGE_SIZE
      then (Err (DecryptionFailed (MessageTooLarge (length (ciphertext m)))), s, plaintext_out)
      else let target_number = message_number (header m);
               current_number = dr_recv_message_number s;
               associated_data = [payload_type (header m)];
               header_bytes = header_to_bytes (header m);
               key = (header_bytes, target_number)
      in if lru_contains L (dr_skipped_keys s) key then
        (case lru_pop L (dr_skipped_keys s) key of
           (None, cache) \<Rightarrow> (Panic, s\<lparr>dr_skipped_keys := cache\<rparr>, plaintext_out)
         | (Some message_key, cache) \<Rightarrow>
             (case cipher_decrypt (chacha P) (cipher_new message_key) (nonce m) associated_data (ciphertext m) of
                Ok result \<Rightarrow> (Ok (length result), s\<lparr>dr_skipped_keys := cache\<rparr>, result)
              | Err e \<Rightarrow> (Err e, s\<lparr>dr_skipped_keys := cache\<rparr>, plaintext_out)
              | Panic \<Rightarrow> (Panic, s\<lparr>dr_skipped_keys := cache\<rparr>, plaintext_out)))
      else if target_number < current_number
      then (Err (DecryptionFailed (MessageTooOld target_number current_number)), s, plaintext_out)
      else st_then
        (case (dh_public (header m), dr_remote_dh_key s) of
           (Some remote_dh, Some current_remote) \<Rightarrow>
             (if current_remote \<noteq> remote_dh
              then (case st_then (skip_message_keys P L s (previous_chain_length (header m)))
                     (\<lambda>_ s. dh_ratchet_step P s fresh remote_dh) of (r, s) \<Rightarrow> (r, s, plaintext_out))
              else (Ok (), s, plaintext_out))
         | (Some remote_dh, None) \<Rightarrow> (Ok (), s\<lparr>dr_remote_dh_key := Some remote_dh\<rparr>, plaintext_out)
         | (None, _) \<Rightarrow> (Ok (), s, plaintext_out)) (\<lambda>_ (s, out).
      st_then (if target_number > current_number
               then (case skip_message_keys P L s target_number of (r, s) \<Rightarrow> (r, s, out))
               else (Ok (), s, out)) (\<lambda>_ (s, out).
      case dr_receiving_chain_key s of
        None \<Rightarrow> (Err (DecryptionFailed NoReceivingChain), s, out)
      | Some chain_key \<Rightarrow>
          let (message_key, next_chain_key) = kdf_ck P chain_key in
          (case cipher_decrypt (chacha P) (cipher_new message_key) (nonce m) associated_data (ciphertext m) of
             Ok plaintext \<Rightarrow> (Ok (length plaintext), s\<lparr>dr_receiving_chain_key := Some next_chain_key,
                 dr_recv_message_number := target_number + 1\<rparr>, plaintext)
           | Err e \<Rightarrow> (Err (DecryptionFailed (CipherReported (reason e))), s, out)
           | Panic \<Rightarrow> (Panic, s, out)))))"

definition dr_decrypt_to_ref :: "crypto_crates \<Rightarrow> 'c lru_crate \<Rightarrow> 'c double_ratchet \<Rightarrow> bytes \<Rightarrow> ratchet_message
    \<Rightarrow> bytes \<Rightarrow> (crypt_error, nat) outcome \<times> 'c double_ratchet \<times> bytes" where
  "dr_decrypt_to_ref P L s fresh m plaintext_out =
     (if length (ciphertext m) > MAX_MESSAGE_SIZE
      then (Err (DecryptionFailed (MessageTooLarge (length (ciphertext m)))), s, plaintext_out)
      else let target_number = message_number (header m);
               current_number = dr_recv_message_number s;
               associated_data = [payload_type (header m)];
               key = (header_to_bytes (header m), target_number)
      in if \<not> lru_is_empty L (dr_skipped_keys s) \<and> lru_contains L (dr_skipped_keys s) key then
        (case lru_pop L (dr_skipped_keys s) key of
           (None, cache) \<Rightarrow> (Panic, s\<lparr>dr_skipped_keys := cache\<rparr>, plaintext_out)
         | (Some message_key, cache) \<Rightarrow>
             (case cipher_decrypt_in_place (chacha P) (cipher_new message_key) (nonce m) associated_data (ciphertext m) of
                (Ok n, out) \<Rightarrow> (Ok (length out), s\<lparr>dr_skipped_keys := cache\<rparr>, out)
              | (Err e, out) \<Rightarrow> (Err e, s\<lparr>dr_skipped_keys := cache\<rparr>, out)
              | (Panic, out) \<Rightarrow> (Panic, s\<lparr>dr_skipped_keys := cache\<rparr>, out)))
      else if target_number < current_number
      then (Err (DecryptionFailed (MessageTooOld target_number current_number)), s, plaintext_out)
      else st_then
        (case (dh_public (header m), dr_remote_dh_key s) of
           (Some remote_dh, Some current_remote) \<Rightarrow>
             (if current_remote \<noteq> remote_dh
              then (case st_then (skip_message_keys P L s (previous_chain_length (header m)))
                     (\<lambda>_ s. dh_ratchet_step P s fresh remote_dh) of (r, s) \<Rightarrow> (r, s, plaintext_out))
              else (Ok (), s, plaintext_out))
         | (Some remote_dh, None) \<Rightarrow> (Ok (), s\<lparr>dr_remote_dh_key := Some remote_dh\<rparr>, plaintext_out)
         | (None, _) \<Rightarrow> (Ok (), s, plaintext_out)) (\<lambda>_ (s, out).
      st_then (if target_number > current_number
               then (case skip_message_keys P L s target_number of (r, s) \<Rightarrow> (r, s, out))
               else (Ok (), s, out)) (\<lambda>_ (s, out).
      case dr_receiving_chain_key s of
        None \<Rightarrow> (Err (DecryptionFailed NoReceivingChain), s, out)
      | Some chain_key \<Rightarrow>
          let (message_key, next_chain_key) = kdf_ck P chain_key in
          (case cipher_decrypt_in_place (chacha P) (cipher_new message_key) (nonce m) associated_data (ciphertext m) of
             (Ok plaintext_len, out) \<Rightarrow> (Ok plaintext_len, s\<lparr>dr_receiving_chain_key := Some next_chain_key,
                 dr_recv_message_number := target_number + 1\<rparr>, out)
           | (Err e, out) \<Rightarrow> (Err (DecryptionFailed (CipherReported (reason e))), s, out)
           | (Panic, out) \<Rightarrow> (Panic, s, out)))))"

section \<open>Zero-copy parsing of ratchet messages\<close>

datatype parse_error = UnexpectedEof | LengthOverflow | MessageTruncated nat nat nat

text \<open>\<open>Cursor::read_exact\<close> on the bytes behind the cursor; the rest is what stays behind it.\<close>

definition read_exact :: "nat \<Rightarrow> bytes \<Rightarrow> (parse_error, bytes \<times> bytes) outcome" where
  "read_exact n rest = (if n \<le> length rest then Ok (take n rest, drop n rest) else Err UnexpectedEof)"

definition ratchet_message_ref_from_bytes :: "bytes \<Rightarrow> (parse_error, ratchet_message) outcome" where
  "ratchet_message_ref_from_bytes data =
     and_then (read_exact 1 data) (\<lambda>(b, cursor). and_then (idx b 0) (\<lambda>has_dh.
     and_then (if has_dh = 1
               then and_then (read_exact 32 cursor) (\<lambda>(k, cursor). Ok (Some k, cursor))
               else Ok (None, cursor)) (\<lambda>(dh, cursor).
     and_then (read_exact 4 cursor) (\<lambda>(b, cursor). let number = from_le_bytes b in
     and_then (read_exact 4 cursor) (\<lambda>(b, cursor). let previous = from_le_bytes b in
     and_then (read_exact 1 cursor) (\<lambda>(b, cursor). and_then (idx b 0) (\<lambda>ptype.
     let h = \<lparr>dh_public = dh, message_number = number, previous_chain_length = previous,
              payload_type = ptype\<rparr> in
     and_then (read_exact NONCE_SIZE cursor) (\<lambda>(n, cursor).
     and_then (read_exact 8 cursor) (\<lambda>(b, cursor).
     let ct_len = unat (from_le_bytes b :: u64);
         pos = length data - length cursor in
     and_then (if pos + ct_len < 2 ^ 64 then Ok (pos + ct_len) else Err LengthOverflow) (\<lambda>end_pos.
     if end_pos > length data then Err (MessageTruncated ct_len pos (length data))
     else and_then (bslice data pos end_pos) (\<lambda>ct.
     Ok \<lparr>header = h, nonce = n, ciphertext = ct\<rparr>)))))))))))"

end
