(* ===== verification/Ratchet_Correct.thy ===== *)
theory Ratchet_Correct
  imports Ratchet
begin

text \<open>
  What the double ratchet does. An invariant of every state that initialisation and any sequence of calls
  can reach (\<open>dr_inv\<close>: the keys under which skipped message keys are stored have 0 or 32 bytes), the
  behaviour of each operation under it, the equivalence of the allocating and the in-place routines, and
  the interpretation of the duplex channel contract, from which the delivery theorem for whole sessions
  follows.
\<close>

section \<open>The cache and the skip loop\<close>

lemma lru_new_empty: "lru_ok L \<Longrightarrow> \<not> lru_contains L (lru_new L n) k"
  unfolding lru_ok_def by blast

lemma lru_put_contains:
  "lru_ok L \<Longrightarrow> lru_contains L (lru_put L c k v) k' \<Longrightarrow> k' = k \<or> lru_contains L c k'"
  unfolding lru_ok_def by blast

lemma lru_pop_contains:
  "lru_ok L \<Longrightarrow> lru_contains L (snd (lru_pop L c k)) k' \<Longrightarrow> lru_contains L c k'"
  unfolding lru_ok_def by blast

lemma lru_pop_some: "lru_ok L \<Longrightarrow> lru_contains L c k \<Longrightarrow> fst (lru_pop L c k) \<noteq> None"
  unfolding lru_ok_def by blast

lemma lru_is_empty_iff: "lru_ok L \<Longrightarrow> lru_is_empty L c \<longleftrightarrow> (\<forall>k. \<not> lru_contains L c k)"
  unfolding lru_ok_def by blast

definition dr_inv :: "'c lru_crate \<Rightarrow> 'c double_ratchet \<Rightarrow> bool" where
  "dr_inv L s \<longleftrightarrow>
     (\<forall>k n. lru_contains L (dr_skipped_keys s) (k, n) \<longrightarrow> length k = 0 \<or> length k = 32)
     \<and> (\<forall>k. dr_remote_dh_key s = Some k \<longrightarrow> length k = 32)"

lemma dr_inv_simps [simp]:
  "dr_inv L (s\<lparr>dr_dh_pair := a\<rparr>) = dr_inv L s"
  "dr_inv L (s\<lparr>dr_previous_remote_dh_key := b\<rparr>) = dr_inv L s"
  "dr_inv L (s\<lparr>dr_root_key := d\<rparr>) = dr_inv L s"
  "dr_inv L (s\<lparr>dr_sending_chain_key := e\<rparr>) = dr_inv L s"
  "dr_inv L (s\<lparr>dr_receiving_chain_key := e\<rparr>) = dr_inv L s"
  "dr_inv L (s\<lparr>dr_send_message_number := f\<rparr>) = dr_inv L s"
  "dr_inv L (s\<lparr>dr_recv_message_number := f\<rparr>) = dr_inv L s"
  "dr_inv L (s\<lparr>dr_previous_chain_length := f\<rparr>) = dr_inv L s"
  by (simp_all add: dr_inv_def)

lemma dr_inv_remote: "dr_inv L s \<Longrightarrow> length k = 32 \<Longrightarrow> dr_inv L (s\<lparr>dr_remote_dh_key := Some k\<rparr>)"
  by (simp add: dr_inv_def)

lemma dr_inv_pop:
  "lru_ok L \<Longrightarrow> dr_inv L s \<Longrightarrow> dr_inv L (s\<lparr>dr_skipped_keys := snd (lru_pop L (dr_skipped_keys s) k)\<rparr>)"
  unfolding dr_inv_def by (auto dest: lru_pop_contains)

lemma skip_loop_inv:
  assumes "lru_ok L" "dr_inv L s"
  shows "dr_inv L (fst (skip_loop P L until s ck))"
  using assms(2,1)
proof (induction P L until s ck rule: skip_loop.induct)
  case (1 P L until s ck)
  let ?hb = "case dr_remote_dh_key s of None \<Rightarrow> [] | Some k \<Rightarrow> k"
  have "dr_inv L (s\<lparr>dr_skipped_keys := lru_put L (dr_skipped_keys s) (?hb, dr_recv_message_number s) mk\<rparr>)" for mk
    using 1(2) lru_put_contains [OF 1(3), of "dr_skipped_keys s" "(?hb, dr_recv_message_number s)" mk]
    unfolding dr_inv_def by (cases "dr_remote_dh_key s") (simp_all, blast+)
  with 1 show ?case by (subst skip_loop.simps) (simp add: Let_def case_prod_unfold)
qed

lemma word_max_next:
  "(a :: 'a::len word) < b \<Longrightarrow> max (a + 1) b = max a b"
proof -
  assume "a < b"
  then have "a + 1 \<le> b" by (simp add: word_le_nat_alt word_less_nat_alt less_word_next)
  with \<open>a < b\<close> show ?thesis by simp
qed

lemma skip_loop_frame:
  "\<exists>c. fst (skip_loop P L until s ck)
     = s\<lparr>dr_skipped_keys := c, dr_recv_message_number := max (dr_recv_message_number s) until\<rparr>"
proof (induction P L until s ck rule: skip_loop.induct)
  case (1 P L until s ck)
  show ?case
  proof (cases "dr_recv_message_number s < until")
    case True
    with 1 show ?thesis
      by (subst skip_loop.simps) (auto simp: Let_def case_prod_unfold word_max_next)
  next
    case False
    then show ?thesis
      by (subst skip_loop.simps) (auto simp: max_def intro!: exI [of _ "dr_skipped_keys s"])
  qed
qed

lemma skip_message_keys_cases:
  obtains (too_many) "skip_message_keys P L s until = (Err (DecryptionFailed TooManySkipped), s)"
      "dr_recv_message_number s + of_nat MAX_SKIP < until"
    | (no_chain) "skip_message_keys P L s until = (Err (DecryptionFailed NoReceivingChain), s)"
      "dr_receiving_chain_key s = None"
    | (skipped) c ck where "skip_message_keys P L s until = (Ok (), s\<lparr>dr_skipped_keys := c,
         dr_recv_message_number := max (dr_recv_message_number s) until, dr_receiving_chain_key := Some ck\<rparr>)"
      "\<not> dr_recv_message_number s + of_nat MAX_SKIP < until"
proof (cases "dr_recv_message_number s + of_nat MAX_SKIP < until")
  case True
  then show thesis by (intro too_many) (simp_all add: skip_message_keys_def)
next
  case False
  show thesis
  proof (cases "dr_receiving_chain_key s")
    case None
    with False show thesis by (intro no_chain) (simp_all add: skip_message_keys_def)
  next
    case (Some ck)
    obtain c where "fst (skip_loop P L until s ck)
        = s\<lparr>dr_skipped_keys := c, dr_recv_message_number := max (dr_recv_message_number s) until\<rparr>"
      by (rule exE [OF skip_loop_frame])
    with False Some show thesis
      by (intro skipped [where c = c and ck = "snd (skip_loop P L until s ck)"])
         (simp_all add: skip_message_keys_def case_prod_unfold)
  qed
qed

lemma skip_message_keys_inv:
  assumes "lru_ok L" "dr_inv L s"
  shows "dr_inv L (snd (skip_message_keys P L s until))"
  using skip_loop_inv [OF assms] assms(2)
  by (simp add: skip_message_keys_def case_prod_unfold Let_def split: option.split)

lemma dh_ratchet_step_inv:
  assumes "dr_inv L s" "length remote = 32"
  shows "dr_inv L (snd (dh_ratchet_step P s fresh remote))"
  using assms
  by (auto simp: dh_ratchet_step_def Let_def dr_inv_remote split: option.splits outcome.splits prod.splits)

lemma dr_encrypt_inv: "dr_inv L s \<Longrightarrow> dr_inv L (snd (dr_encrypt P s rnd p ad))"
  by (simp add: dr_encrypt_def Let_def case_prod_unfold split: option.split outcome.split)

lemma dr_init_inv:
  assumes "lru_ok L"
  shows "dr_init_alice P L fresh ss = Ok s \<Longrightarrow> dr_inv L s"
    and "dr_init_bob P L fresh ss = Ok s \<Longrightarrow> dr_inv L s"
  using lru_new_empty [OF assms]
  by (auto simp: dr_init_alice_def dr_init_bob_def and_then_Ok_iff dr_inv_def)

section \<open>Decryption\<close>

lemma skipped_key_not_found:
  assumes "dr_inv L s" "wf_header h"
  shows "\<not> lru_contains L (dr_skipped_keys s) (header_to_bytes h, n)"
  using assms(1) length_header_to_bytes [OF assms(2)] unfolding dr_inv_def by (fastforce split: if_splits)

lemma dr_decrypt_too_large:
  "MAX_MESSAGE_SIZE < length (ciphertext m) \<Longrightarrow>
     dr_decrypt P L s fresh m = (Err (DecryptionFailed (MessageTooLarge (length (ciphertext m)))), s)"
  by (simp add: dr_decrypt_def)

lemma dr_decrypt_old:
  assumes "dr_inv L s" "wf_header (header m)" "length (ciphertext m) \<le> MAX_MESSAGE_SIZE"
    and "message_number (header m) < dr_recv_message_number s"
  shows "dr_decrypt P L s fresh m
    = (Err (DecryptionFailed (MessageTooOld (message_number (header m)) (dr_recv_message_number s))), s)"
  using assms skipped_key_not_found [OF assms(1,2)] by (simp add: dr_decrypt_def Let_def)

text \<open>The last stage of decryption, from the receiving chain the message is expected on.\<close>

definition dr_open :: "crypto_crates \<Rightarrow> ratchet_message \<Rightarrow> 'c double_ratchet
    \<Rightarrow> (crypt_error, bytes) outcome \<times> 'c double_ratchet" where
  "dr_open P m s =
     (case dr_receiving_chain_key s of
        None \<Rightarrow> (Err (DecryptionFailed NoReceivingChain), s)
      | Some chain_key \<Rightarrow>
          (case kdf_ck P chain_key of (message_key, next_chain_key) \<Rightarrow>
            (case cipher_decrypt (chacha P) (cipher_new message_key) (nonce m) [payload_type (header m)] (ciphertext m) of
               Ok plaintext \<Rightarrow> (Ok plaintext, s\<lparr>dr_receiving_chain_key := Some next_chain_key,
                   dr_recv_message_number := message_number (header m) + 1\<rparr>)
             | Err e \<Rightarrow> (Err (DecryptionFailed (CipherReported (reason e))), s)
             | Panic \<Rightarrow> (Panic, s))))"

lemmas dr_open_unfold = dr_open_def [symmetric]

lemma dr_decrypt_same_chain:
  assumes "dr_inv L s" "wf_header (header m)" "length (ciphertext m) \<le> MAX_MESSAGE_SIZE"
    and "dr_recv_message_number s \<le> message_number (header m)"
    and "dr_remote_dh_key s = None \<or> dh_public (header m) = None \<or> dh_public (header m) = dr_remote_dh_key s"
  defines "s1 \<equiv> (if dr_remote_dh_key s = None then s\<lparr>dr_remote_dh_key := dh_public (header m)\<rparr> else s)"
  shows "dr_decrypt P L s fresh m =
    (if message_number (header m) = dr_recv_message_number s then dr_open P m s1
     else st_then (skip_message_keys P L s1 (message_number (header m))) (\<lambda>_ s. dr_open P m s))"
proof -
  have "\<not> message_number (header m) < dr_recv_message_number s"
    "message_number (header m) > dr_recv_message_number s \<longleftrightarrow> message_number (header m) \<noteq> dr_recv_message_number s"
    using assms(4) by auto
  moreover have "(case (dh_public (header m), dr_remote_dh_key s) of
           (Some remote_dh, Some current_remote) \<Rightarrow>
             (if current_remote \<noteq> remote_dh
              then st_then (skip_message_keys P L s (previous_chain_length (header m)))
                     (\<lambda>_ s. dh_ratchet_step P s fresh remote_dh)
              else (Ok (), s))
         | (Some remote_dh, None) \<Rightarrow> (Ok (), s\<lparr>dr_remote_dh_key := Some remote_dh\<rparr>)
         | (None, _) \<Rightarrow> (Ok (), s)) = (Ok () :: (crypt_error, unit) outcome, s1)"
    using assms(5) by (auto simp: s1_def split: option.split)
  ultimately show ?thesis
    using assms(3) skipped_key_not_found [OF assms(1,2)]
    unfolding dr_decrypt_def Let_def dr_open_unfold by simp
qed

lemma st_then_inv:
  assumes "Q (snd r)" "\<And>a s. Q s \<Longrightarrow> Q (snd (f a s))"
  shows "Q (snd (st_then r f))"
  using assms by (cases "(r, f)" rule: st_then.cases) auto

lemma dr_open_inv: "dr_inv L s \<Longrightarrow> dr_inv L (snd (dr_open P m s))"
  by (simp add: dr_open_def split: option.split outcome.split prod.split)

lemma dr_decrypt_inv:
  assumes "lru_ok L" "dr_inv L s" "wf_header (header m)"
  shows "dr_inv L (snd (dr_decrypt P L s fresh m))"
proof -
  have dh: "length k = 32" if "dh_public (header m) = Some k" for k
    using assms(3) that by (simp add: wf_header_def)
  show ?thesis
    unfolding dr_decrypt_def Let_def dr_open_unfold
    using assms(2) skipped_key_not_found [OF assms(2,3)]
    by (auto intro!: st_then_inv [where Q = "dr_inv L"] skip_message_keys_inv [OF assms(1)] dr_open_inv
        dh_ratchet_step_inv dr_inv_remote dh split: option.split)
qed

section \<open>The allocating and the in-place routines agree\<close>

lemma dr_encrypt_to_eq:
  assumes "aead_ok (chacha P)"
  shows "dr_encrypt_to P s rnd p ad out =
    (case dr_encrypt P s rnd p ad of
       (Ok m, s') \<Rightarrow> (Ok (nonce m, header m), s', ciphertext m)
     | (Err e, s') \<Rightarrow> (Err e, s', if dr_sending_chain_key s = None then out else p)
     | (Panic, s') \<Rightarrow> (Panic, s', if dr_sending_chain_key s = None then out else p))"
  by (simp add: dr_encrypt_to_def dr_encrypt_def Let_def case_prod_unfold
      cipher_encrypt_in_place_eq [OF assms] split: option.split outcome.split)

text \<open>
  \<open>report out\<close> delivers the result of an allocating decryption through the caller's buffer \<open>out\<close>, which
  stays as it is unless the decryption succeeds.
\<close>

definition report :: "bytes \<Rightarrow> (crypt_error, bytes) outcome \<times> 's \<Rightarrow> (crypt_error, nat) outcome \<times> 's \<times> bytes" where
  "report out r = (case r of
      (Ok p, s) \<Rightarrow> (Ok (length p), s, p)
    | (Err e, s) \<Rightarrow> (Err e, s, out)
    | (Panic, s) \<Rightarrow> (Panic, s, out))"

lemma report_simps [simp]:
  "report out (Ok p, s) = (Ok (length p), s, p)"
  "report out (Err e, s) = (Err e, s, out)"
  "report out (Panic, s) = (Panic, s, out)"
  by (simp_all add: report_def)

abbreviation with_buffer :: "bytes \<Rightarrow> 'r \<times> 's \<Rightarrow> 'r \<times> 's \<times> bytes" where
  "with_buffer out r \<equiv> (case r of (x, s) \<Rightarrow> (x, s, out))"

lemma st_then_report:
  assumes "\<And>a s. r = (Ok a, s) \<Longrightarrow> g a s out = report out (f a s)"
  shows "st_then (with_buffer out r) (\<lambda>a (s, b). g a s b) = report out (st_then r f)"
  using assms by (cases "(r, f)" rule: st_then.cases) simp_all

lemma with_buffer_ratchet_case:
  "(case (d, r) of
      (Some remote_dh, Some current_remote) \<Rightarrow>
        (if current_remote \<noteq> remote_dh then with_buffer out (f remote_dh) else (Ok (), s, out))
    | (Some remote_dh, None) \<Rightarrow> (Ok (), g remote_dh, out)
    | (None, _) \<Rightarrow> (Ok (), s, out)) =
   with_buffer out (case (d, r) of
      (Some remote_dh, Some current_remote) \<Rightarrow>
        (if current_remote \<noteq> remote_dh then f remote_dh else (Ok (), s))
    | (Some remote_dh, None) \<Rightarrow> (Ok (), g remote_dh)
    | (None, _) \<Rightarrow> (Ok (), s))"
  by (simp split: option.split)

lemma with_buffer_if:
  "(if b then with_buffer out x else (Ok (), s, out)) = with_buffer out (if b then x else (Ok (), s))"
  by simp

lemma report_dr_open:
  "report out (dr_open P m s) =
    (case dr_receiving_chain_key s of
        None \<Rightarrow> (Err (DecryptionFailed NoReceivingChain), s, out)
      | Some chain_key \<Rightarrow>
          (case kdf_ck P chain_key of (message_key, next_chain_key) \<Rightarrow>
          (case cipher_decrypt (chacha P) (cipher_new message_key) (nonce m) [payload_type (header m)] (ciphertext m) of
             Ok plaintext \<Rightarrow> (Ok (length plaintext), s\<lparr>dr_receiving_chain_key := Some next_chain_key,
                 dr_recv_message_number := message_number (header m) + 1\<rparr>, plaintext)
           | Err e \<Rightarrow> (Err (DecryptionFailed (CipherReported (reason e))), s, out)
           | Panic \<Rightarrow> (Panic, s, out))))"
  by (simp add: dr_open_def report_def case_prod_unfold split: option.split outcome.split)

lemma dr_decrypt_to_eq: "dr_decrypt_to P L s fresh m out = report out (dr_decrypt P L s fresh m)"
proof (cases "MAX_MESSAGE_SIZE < length (ciphertext m)")
  case True
  then show ?thesis by (simp add: dr_decrypt_to_def dr_decrypt_def report_def)
next
  case False
  note small = this
  show ?thesis
  proof (cases "lru_contains L (dr_skipped_keys s) (header_to_bytes (header m), message_number (header m))")
    case True
    with small show ?thesis
      by (simp add: dr_decrypt_to_def dr_decrypt_def report_def Let_def
          split: prod.split option.split outcome.split)
  next
    case False
    with small show ?thesis
      unfolding dr_decrypt_to_def dr_decrypt_def Let_def dr_open_unfold with_buffer_ratchet_case
      unfolding with_buffer_if report_dr_open [symmetric]
      by (auto intro!: st_then_report)
  qed
qed

text \<open>
  The zero-copy routine decrypts inside the buffer, so a failure may leave anything there: it agrees in
  outcome and state, and on success in the buffer.
\<close>

definition agrees :: "(crypt_error, nat) outcome \<times> 's \<times> bytes \<Rightarrow> (crypt_error, bytes) outcome \<times> 's \<Rightarrow> bool" where
  "agrees r q \<longleftrightarrow> (case q of
      (Ok p, s) \<Rightarrow> r = (Ok (length p), s, p)
    | (Err e, s) \<Rightarrow> (\<exists>out. r = (Err e, s, out))
    | (Panic, s) \<Rightarrow> (\<exists>out. r = (Panic, s, out)))"

lemma agrees_simps [simp]:
  "agrees r (Ok p, s) \<longleftrightarrow> r = (Ok (length p), s, p)"
  "agrees r (Err e, s) \<longleftrightarrow> (\<exists>out. r = (Err e, s, out))"
  "agrees r (Panic, s) \<longleftrightarrow> (\<exists>out. r = (Panic, s, out))"
  by (simp_all add: agrees_def)

lemma agrees_st_then:
  assumes "\<And>a s. r = (Ok a, s) \<Longrightarrow> agrees (g a s out) (f a s)"
  shows "agrees (st_then (with_buffer out r) (\<lambda>a (s, b). g a s b)) (st_then r f)"
  using assms by (cases "(r, f)" rule: st_then.cases) simp_all

lemma agrees_in_place:
  assumes "aead_ok (chacha P)"
  shows "agrees
    (case cipher_decrypt_in_place (chacha P) c n a ct of
       (Ok k, out) \<Rightarrow> (Ok k, s, out) | (Err e, out) \<Rightarrow> (Err (g e), s', out) | (Panic, out) \<Rightarrow> (Panic, s', out))
    (case cipher_decrypt (chacha P) c n a ct of
       Ok p \<Rightarrow> (Ok p, s) | Err e \<Rightarrow> (Err (g e), s') | Panic \<Rightarrow> (Panic, s'))"
  using cipher_decrypt_in_place_eq [OF assms, of c n a ct]
  by (cases "cipher_decrypt (chacha P) c n a ct"; cases "cipher_decrypt_in_place (chacha P) c n a ct") auto

lemma agrees_in_place_length:
  assumes "aead_ok (chacha P)"
  shows "agrees
    (case cipher_decrypt_in_place (chacha P) c n a ct of
       (Ok k, out) \<Rightarrow> (Ok (length out), s, out) | (Err e, out) \<Rightarrow> (Err e, s, out) | (Panic, out) \<Rightarrow> (Panic, s, out))
    (cipher_decrypt (chacha P) c n a ct, s)"
  using cipher_decrypt_in_place_eq [OF assms, of c n a ct]
  by (cases "cipher_decrypt (chacha P) c n a ct"; cases "cipher_decrypt_in_place (chacha P) c n a ct") auto

lemma agrees_dr_open:
  assumes "aead_ok (chacha P)"
  shows "agrees
    (case dr_receiving_chain_key s of
        None \<Rightarrow> (Err (DecryptionFailed NoReceivingChain), s, out)
      | Some chain_key \<Rightarrow>
          (case kdf_ck P chain_key of (message_key, next_chain_key) \<Rightarrow>
          (case cipher_decrypt_in_place (chacha P) (cipher_new message_key) (nonce m) [payload_type (header m)] (ciphertext m) of
             (Ok plaintext_len, out) \<Rightarrow> (Ok plaintext_len, s\<lparr>dr_receiving_chain_key := Some next_chain_key,
                 dr_recv_message_number := message_number (header m) + 1\<rparr>, out)
           | (Err e, out) \<Rightarrow> (Err (DecryptionFailed (CipherReported (reason e))), s, out)
           | (Panic, out) \<Rightarrow> (Panic, s, out))))
    (dr_open P m s)"
  by (cases "dr_receiving_chain_key s")
     (simp_all add: dr_open_def kdf_ck_def agrees_in_place [OF assms])

lemma dr_decrypt_to_ref_agrees:
  assumes "aead_ok (chacha P)" "lru_ok L"
  shows "agrees (dr_decrypt_to_ref P L s fresh m out) (dr_decrypt P L s fresh m)"
proof (cases "MAX_MESSAGE_SIZE < length (ciphertext m)")
  case True
  then show ?thesis by (simp add: dr_decrypt_to_ref_def dr_decrypt_def)
next
  case False
  note small = this
  show ?thesis
  proof (cases "lru_contains L (dr_skipped_keys s) (header_to_bytes (header m), message_number (header m))")
    case True
    then have "\<not> lru_is_empty L (dr_skipped_keys s)" using lru_is_empty_iff [OF assms(2)] by blast
    moreover obtain k c where
      "lru_pop L (dr_skipped_keys s) (header_to_bytes (header m), message_number (header m)) = (k, c)" by fastforce
    ultimately show ?thesis
      using small True
      by (cases k) (simp_all add: dr_decrypt_to_ref_def dr_decrypt_def agrees_in_place_length [OF assms(1)])
  next
    case False
    with small show ?thesis
      unfolding dr_decrypt_to_ref_def dr_decrypt_def Let_def dr_open_unfold with_buffer_ratchet_case
      unfolding with_buffer_if
      by (simp add: agrees_st_then agrees_dr_open [OF assms(1)])
  qed
qed

section \<open>Sessions\<close>

text \<open>
  \<open>messages_under_way P pub ck n q ck' n'\<close>: the messages \<open>q\<close>, each with its plaintext, come from a sender with
  DH key \<open>pub\<close>, are numbered from \<open>n\<close> and open one after the other with the keys derived from the chain key
  \<open>ck\<close>; behind them the chain stands at \<open>ck'\<close> and \<open>n'\<close>.
\<close>

fun messages_under_way :: "crypto_crates \<Rightarrow> bytes \<Rightarrow> bytes \<Rightarrow> u32 \<Rightarrow> (ratchet_message \<times> bytes) list
    \<Rightarrow> bytes \<Rightarrow> u32 \<Rightarrow> bool" where
  "messages_under_way P pub ck n [] ck' n' \<longleftrightarrow> ck' = ck \<and> n' = n"
| "messages_under_way P pub ck n ((m, p) # q) ck' n' \<longleftrightarrow>
     dh_public (header m) = Some pub \<and> message_number (header m) = n
     \<and> length (ciphertext m) \<le> MAX_MESSAGE_SIZE
     \<and> cipher_decrypt (chacha P) (cipher_new (fst (kdf_ck P ck))) (nonce m) [payload_type (header m)] (ciphertext m) = Ok p
     \<and> messages_under_way P pub (snd (kdf_ck P ck)) (n + 1) q ck' n'"

lemma messages_under_way_snoc:
  "messages_under_way P pub ck n (q @ [(m, p)]) ck'' n'' \<longleftrightarrow>
     (\<exists>ck' n'. messages_under_way P pub ck n q ck' n' \<and> messages_under_way P pub ck' n' [(m, p)] ck'' n'')"
  by (induction P pub ck n q ck'' n'' rule: messages_under_way.induct) auto

text \<open>
  The relation between a sender, the messages under way and their receiver. The laws of the primitives
  are part of it, so the channel laws hold for every choice of primitives.
\<close>

definition dr_flow :: "crypto_crates \<Rightarrow> 'c lru_crate \<Rightarrow> 'c double_ratchet \<Rightarrow> (ratchet_message \<times> bytes) list
    \<Rightarrow> 'c double_ratchet \<Rightarrow> bool" where
  "dr_flow P L a q b \<longleftrightarrow> crypto_ok P \<and> lru_ok L \<and> dr_inv L b \<and>
     (\<exists>k ck ck'. dr_dh_pair a = Some k \<and> length (public_key k) = 32
        \<and> dr_sending_chain_key a = Some ck' \<and> length ck' = 32
        \<and> dr_receiving_chain_key b = Some ck
        \<and> messages_under_way P (public_key k) ck (dr_recv_message_number b) q ck' (dr_send_message_number a)
        \<and> (dr_remote_dh_key b = None \<or> dr_remote_dh_key b = Some (public_key k)))"

lemma dr_flowE:
  assumes "dr_flow P L a q b"
  obtains k ck ck' where "crypto_ok P" "lru_ok L" "dr_inv L b" "dr_dh_pair a = Some k" "length (public_key k) = 32"
    "dr_sending_chain_key a = Some ck'" "length ck' = 32" "dr_receiving_chain_key b = Some ck"
    "messages_under_way P (public_key k) ck (dr_recv_message_number b) q ck' (dr_send_message_number a)"
    "dr_remote_dh_key b = None \<or> dr_remote_dh_key b = Some (public_key k)"
  using assms unfolding dr_flow_def by blast

definition dr_usable :: "bytes \<times> bytes \<Rightarrow> bytes \<Rightarrow> bool" where
  "dr_usable x p \<longleftrightarrow> length (fst x) = 12 \<and> length p + TAG_SIZE \<le> MAX_MESSAGE_SIZE"

abbreviation dr_send :: "crypto_crates \<Rightarrow> 'c double_ratchet \<Rightarrow> bytes \<times> bytes \<Rightarrow> bytes
    \<Rightarrow> (crypt_error, ratchet_message) outcome \<times> 'c double_ratchet" where
  "dr_send P s x p \<equiv> dr_encrypt P s (fst x) p (snd x)"

lemma dr_encrypt_cases:
  assumes "dr_encrypt P s rnd p ad = (Ok m, s')"
  obtains ck where "dr_sending_chain_key s = Some ck"
    and "s' = s\<lparr>dr_sending_chain_key := Some (snd (kdf_ck P ck)),
           dr_send_message_number := dr_send_message_number s + 1\<rparr>"
    and "message_number (header m) = dr_send_message_number s"
    and "dh_public (header m) = map_option public_key (dr_dh_pair s)"
  using assms
  by (auto simp: dr_encrypt_def Let_def case_prod_unfold split: option.splits outcome.splits)

lemma dr_encrypt_ok:
  assumes "crypto_ok P" "dr_sending_chain_key s = Some ck" "length ck = 32" "length rnd = 12"
    and "length p + TAG_SIZE \<le> MAX_MESSAGE_SIZE"
  obtains m where "dr_encrypt P s rnd p ad = (Ok m, s\<lparr>dr_sending_chain_key := Some (snd (kdf_ck P ck)),
        dr_send_message_number := dr_send_message_number s + 1\<rparr>)"
    and "header m = \<lparr>dh_public = map_option public_key (dr_dh_pair s), message_number = dr_send_message_number s,
        previous_chain_length = dr_previous_chain_length s, payload_type = first_or_zero ad\<rparr>"
    and "length (ciphertext m) \<le> MAX_MESSAGE_SIZE"
    and "cipher_decrypt (chacha P) (cipher_new (fst (kdf_ck P ck))) (nonce m) [first_or_zero ad] (ciphertext m) = Ok p"
proof -
  have "length (fst (kdf_ck P ck)) = 32" by (simp add: kdf_ck_def crypto_ok_hmac [OF assms(1)])
  moreover have "length p < 2 ^ 32" using assms(5) by (simp add: MAX_MESSAGE_SIZE_def)
  ultimately obtain c where c: "cipher_encrypt (chacha P) (cipher_new (fst (kdf_ck P ck))) rnd [first_or_zero ad] p = Ok c"
    "length c = length p + 16" "cipher_decrypt (chacha P) (cipher_new (fst (kdf_ck P ck))) rnd [first_or_zero ad] c = Ok p"
    using cipher_roundtrip [OF crypto_ok_aead [OF assms(1)], of "fst (kdf_ck P ck)" rnd "[first_or_zero ad]" p] assms(4)
    by auto
  show thesis
    by (rule that [of "\<lparr>header = \<lparr>dh_public = map_option public_key (dr_dh_pair s),
          message_number = dr_send_message_number s, previous_chain_length = dr_previous_chain_length s,
          payload_type = first_or_zero ad\<rparr>, nonce = rnd, ciphertext = c\<rparr>"])
       (use c assms in \<open>simp_all add: dr_encrypt_def case_prod_unfold Let_def TAG_SIZE_def\<close>)
qed

lemma length_next_chain_key [simp]: "crypto_ok P \<Longrightarrow> length (snd (kdf_ck P ck)) = 32"
  by (simp add: kdf_ck_def crypto_ok_hmac)

lemma dr_send_flow:
  assumes "dr_flow P L a q b" "dr_usable x p"
  shows "\<exists>m a'. dr_send P a x p = (Ok m, a') \<and> dr_flow P L a' (q @ [(m, p)]) b"
proof -
  obtain k ck ck' where f: "crypto_ok P" "lru_ok L" "dr_inv L b" "dr_dh_pair a = Some k" "length (public_key k) = 32"
    "dr_sending_chain_key a = Some ck'" "length ck' = 32" "dr_receiving_chain_key b = Some ck"
    "messages_under_way P (public_key k) ck (dr_recv_message_number b) q ck' (dr_send_message_number a)"
    "dr_remote_dh_key b = None \<or> dr_remote_dh_key b = Some (public_key k)"
    by (rule dr_flowE [OF assms(1)])
  obtain m where "dr_encrypt P a (fst x) p (snd x) = (Ok m, a\<lparr>dr_sending_chain_key := Some (snd (kdf_ck P ck')),
        dr_send_message_number := dr_send_message_number a + 1\<rparr>)"
    "header m = \<lparr>dh_public = map_option public_key (dr_dh_pair a), message_number = dr_send_message_number a,
        previous_chain_length = dr_previous_chain_length a, payload_type = first_or_zero (snd x)\<rparr>"
    "length (ciphertext m) \<le> MAX_MESSAGE_SIZE"
    "cipher_decrypt (chacha P) (cipher_new (fst (kdf_ck P ck'))) (nonce m) [first_or_zero (snd x)] (ciphertext m) = Ok p"
    by (rule dr_encrypt_ok [OF f(1,6,7), of "fst x" p "snd x"]) (use assms(2) in \<open>auto simp: dr_usable_def\<close>)
  with f show ?thesis
    by (auto simp: dr_flow_def messages_under_way_snoc)
qed

lemma dr_recv_step:
  assumes "dr_flow P L a ((m, p) # q) b"
  obtains ck where "dr_decrypt P L b fresh m = (Ok p, b\<lparr>dr_remote_dh_key := dh_public (header m),
      dr_receiving_chain_key := Some ck, dr_recv_message_number := dr_recv_message_number b + 1\<rparr>)"
    and "dr_flow P L a q (snd (dr_decrypt P L b fresh m))"
proof -
  obtain k ck ck' where f: "crypto_ok P" "lru_ok L" "dr_inv L b" "dr_dh_pair a = Some k" "length (public_key k) = 32"
    "dr_sending_chain_key a = Some ck'" "length ck' = 32" "dr_receiving_chain_key b = Some ck"
    "messages_under_way P (public_key k) ck (dr_recv_message_number b) ((m, p) # q) ck' (dr_send_message_number a)"
    "dr_remote_dh_key b = None \<or> dr_remote_dh_key b = Some (public_key k)"
    by (rule dr_flowE [OF assms])
  have h: "wf_header (header m)" "length (ciphertext m) \<le> MAX_MESSAGE_SIZE" "dh_public (header m) = Some (public_key k)"
    "message_number (header m) = dr_recv_message_number b"
    using f(5,9) by (simp_all add: wf_header_def)
  let ?b = "b\<lparr>dr_remote_dh_key := dh_public (header m),
      dr_receiving_chain_key := Some (snd (kdf_ck P ck)), dr_recv_message_number := dr_recv_message_number b + 1\<rparr>"
  have "(if dr_remote_dh_key b = None then b\<lparr>dr_remote_dh_key := dh_public (header m)\<rparr> else b)
      = b\<lparr>dr_remote_dh_key := dh_public (header m)\<rparr>"
    using f(10) h(3) by auto
  then have "dr_decrypt P L b fresh m = dr_open P m (b\<lparr>dr_remote_dh_key := dh_public (header m)\<rparr>)"
    using dr_decrypt_same_chain [OF f(3) h(1,2), of P fresh] f(10) h(3,4) by auto
  then have d: "dr_decrypt P L b fresh m = (Ok p, ?b)"
    using f(8,9) h(4) by (simp add: dr_open_def case_prod_unfold)
  moreover have "dr_flow P L a q ?b"
    using f h(3) by (auto simp: dr_flow_def dr_inv_remote)
  ultimately show thesis by (intro that) simp_all
qed

interpretation double_ratchet: duplex_channel "dr_send P" "dr_decrypt P L" dr_usable "dr_flow P L" for P L
proof
  show "\<exists>m a'. dr_send P a x p = (Ok m, a') \<and> dr_flow P L a' (q @ [(m, p)]) b"
    if "dr_flow P L a q b" "dr_usable x p" for a q b x p
    using that by (rule dr_send_flow)
  show "\<exists>b'. dr_decrypt P L b y m = (Ok p, b') \<and> dr_flow P L a q b'"
    if "dr_flow P L a ((m, p) # q) b" for a m p q b y
    by (rule dr_recv_step [OF that, of y]) auto
  show "dr_flow P L b q a'" if "dr_flow P L b q a" "dr_send P a x p = (Ok m, a')" for b q a x p m a'
    by (rule dr_encrypt_cases [OF that(2)]) (use that(1) in \<open>simp add: dr_flow_def\<close>)
  show "dr_flow P L b' q' a"
    if "dr_flow P L a ((m, p) # q) b" "dr_flow P L b q' a" "dr_decrypt P L b y m = (r, b')" for a m p q b q' y r b'
    by (rule dr_recv_step [OF that(1), of y]) (use that(2,3) in \<open>auto simp: dr_flow_def\<close>)
qed

text \<open>Initialisation puts the two ends in step in both directions.\<close>

lemma dr_init_flow:
  assumes "crypto_ok P" "lru_ok L"
  obtains a b where "dr_init_alice P L fa ss = (Ok a :: ('e, _) outcome)" "dr_init_bob P L fb ss = (Ok b :: ('e, _) outcome)"
    and "dr_flow P L a [] b" "dr_flow P L b [] a"
proof -
  obtain x y where k: "kdf_init P ss = (Ok (x, y) :: ('e, _) outcome)" "length x = 32" "length y = 32"
    by (rule kdf_init_ok [OF assms(1)])
  show thesis
  proof (rule that)
    show a: "dr_init_alice P L fa ss = (Ok \<lparr>dr_dh_pair = Some (ephemeral_generate P fa), dr_remote_dh_key = None,
        dr_previous_remote_dh_key = None, dr_root_key = ss, dr_sending_chain_key = Some x,
        dr_receiving_chain_key = Some y, dr_send_message_number = 0, dr_recv_message_number = 0,
        dr_previous_chain_length = 0, dr_skipped_keys = lru_new L MAX_SKIP\<rparr> :: ('e, _) outcome)" (is "_ = Ok ?a")
      by (simp add: dr_init_alice_def k)
    show b: "dr_init_bob P L fb ss = (Ok \<lparr>dr_dh_pair = Some (ephemeral_generate P fb), dr_remote_dh_key = None,
        dr_previous_remote_dh_key = None, dr_root_key = ss, dr_sending_chain_key = Some y,
        dr_receiving_chain_key = Some x, dr_send_message_number = 0, dr_recv_message_number = 0,
        dr_previous_chain_length = 0, dr_skipped_keys = lru_new L MAX_SKIP\<rparr> :: ('e, _) outcome)" (is "_ = Ok ?b")
      by (simp add: dr_init_bob_def k)
    show "dr_flow P L ?a [] ?b" "dr_flow P L ?b [] ?a"
      using assms k(2,3) dr_init_inv(1) [OF assms(2) a] dr_init_inv(2) [OF assms(2) b]
      by (simp_all add: dr_flow_def ephemeral_generate_def crypto_ok_public)
  qed
qed

lemma dr_init_flowD:
  assumes "crypto_ok P" "lru_ok L"
    and "dr_init_alice P L fa ss = (Ok a :: ('e, _) outcome)" "dr_init_bob P L fb ss = (Ok b :: ('e, _) outcome)"
  shows "dr_flow P L a [] b" "dr_flow P L b [] a"
  using dr_init_flow [OF assms(1,2), of fa ss fb, where 'e = 'e] assms(3,4) by (metis outcome.inject(1))+

text \<open>What an endpoint never changes during an honest session.\<close>

definition dr_identity :: "'c double_ratchet \<Rightarrow> ephemeral_key option \<times> bytes \<times> u32 \<times> 'c" where
  "dr_identity s = (dr_dh_pair s, dr_root_key s, dr_previous_chain_length s, dr_skipped_keys s)"

lemma session_keeps_identity:
  assumes "(session_step (dr_send P) (dr_decrypt P L) dr_usable)\<^sup>*\<^sup>* (session_start a b) s"
    and "dr_flow P L a [] b" "dr_flow P L b [] a"
  shows "dr_identity (side_a s) = dr_identity a \<and> dr_identity (side_b s) = dr_identity b"
  using assms(1)
proof (induction rule: rtranclp_induct)
  case base
  show ?case by (simp add: session_start_def)
next
  case (step s s')
  have send: "dr_identity r' = dr_identity r" if "dr_send P r x p = (Ok m, r')" for r x p m r'
    by (rule dr_encrypt_cases [OF that]) (simp add: dr_identity_def)
  have recv: "dr_identity r' = dr_identity r"
    if st: "stream_ok (dr_flow P L) t (m # ms) r sent got" and de: "dr_decrypt P L r y m = (res, r')" for t m ms r sent got y res r'
  proof -
    obtain p q where "dr_flow P L t ((m, p) # q) r"
      using st unfolding stream_ok_def by (auto simp: length_Suc_conv)
    then show ?thesis
      by (rule dr_recv_step [where fresh = y]) (use de in \<open>simp add: dr_identity_def\<close>)
  qed
  note streams = double_ratchet.session_streams [OF step.hyps(1) assms(2,3)]
  from step.hyps(2) show ?case
  proof (cases rule: session_step.cases)
    case (send_a x p m a') then show ?thesis using step.IH send [of "side_a s" x p m a'] by simp
  next
    case (send_b x p m b') then show ?thesis using step.IH send [of "side_b s" x p m b'] by simp
  next
    case (recv_b m q y res b')
    then show ?thesis
      using step.IH recv [of "side_a s" m q "side_b s" "sent_a s" "got_b s" y res b'] streams by simp
  next
    case (recv_a m q y res a')
    then show ?thesis
      using step.IH recv [of "side_b s" m q "side_a s" "sent_b s" "got_a s" y res a'] streams by simp
  qed
qed

section \<open>States reachable by any calls\<close>

text \<open>
  Every state of a ratchet whose owner calls its methods in any order on any messages with a
  well-formed header, which the type of the header guarantees: honest, replayed or forged.
\<close>

inductive dr_reachable :: "crypto_crates \<Rightarrow> 'c lru_crate \<Rightarrow> 'c double_ratchet \<Rightarrow> bool" for P L where
  alice: "dr_init_alice P L fresh ss = (Ok s :: (crypt_error, _) outcome) \<Longrightarrow> dr_reachable P L s"
| bob: "dr_init_bob P L fresh ss = (Ok s :: (crypt_error, _) outcome) \<Longrightarrow> dr_reachable P L s"
| encrypts: "dr_reachable P L s \<Longrightarrow> dr_encrypt P s rnd p ad = (r, s') \<Longrightarrow> dr_reachable P L s'"
| decrypts: "dr_reachable P L s \<Longrightarrow> wf_header (header m) \<Longrightarrow> dr_decrypt P L s fresh m = (r', s') \<Longrightarrow> dr_reachable P L s'"
| ratchets: "dr_reachable P L s \<Longrightarrow> ratchet_for_next_message P s fresh = (r'', s') \<Longrightarrow> dr_reachable P L s'"

lemma dr_reachable_inv:
  assumes "lru_ok L" "dr_reachable P L s"
  shows "dr_inv L s"
  using assms(2)
proof (induction rule: dr_reachable.induct)
  case (encrypts s rnd p ad r s')
  then show ?case by (metis dr_encrypt_inv snd_conv)
next
  case (decrypts s m fresh r' s')
  then show ?case by (metis assms(1) dr_decrypt_inv snd_conv)
next
  case (ratchets s fresh r'' s')
  from ratchets.IH have "length k = 32" if "dr_remote_dh_key s = Some k" for k
    using that by (simp add: dr_inv_def)
  with ratchets.IH ratchets.hyps(2) dh_ratchet_step_inv [of L s _ P fresh] show ?case
    by (auto simp: ratchet_for_next_message_def split: option.splits) (metis snd_conv)
qed (use dr_init_inv [OF assms(1)] in blast)+

lemma unat_add_small:
  "unat (n :: u32) + k < 2 ^ 32 \<Longrightarrow> unat (n + of_nat k) = unat n + k"
  by (simp add: unat_word_ariths)

lemma skip_one:
  assumes "dr_receiving_chain_key s = Some ck" "until = dr_recv_message_number s + 1"
    and "dr_recv_message_number s < until" "\<not> dr_recv_message_number s + of_nat MAX_SKIP < until"
  shows "\<exists>c. skip_message_keys P L s until = (Ok (), s\<lparr>dr_skipped_keys := c,
    dr_recv_message_number := until, dr_receiving_chain_key := Some (snd (kdf_ck P ck))\<rparr>)"
proof -
  define c where "c = lru_put L (dr_skipped_keys s)
    (case dr_remote_dh_key s of None \<Rightarrow> [] | Some k \<Rightarrow> k, dr_recv_message_number s) (fst (kdf_ck P ck))"
  have "skip_loop P L until s ck
      = skip_loop P L until (s\<lparr>dr_skipped_keys := c, dr_recv_message_number := until\<rparr>) (snd (kdf_ck P ck))"
    using assms(2,3) by (subst skip_loop.simps) (simp add: c_def Let_def case_prod_unfold)
  then have "skip_loop P L until s ck
      = (s\<lparr>dr_skipped_keys := c, dr_recv_message_number := until\<rparr>, snd (kdf_ck P ck))"
    by (subst (asm) (2) skip_loop.simps) simp
  with assms(1,4) show ?thesis by (auto simp: skip_message_keys_def)
qed

section \<open>A concrete cache\<close>

text \<open>An association list that never evicts satisfies \<open>lru_ok\<close>; with it the witnesses run.\<close>

definition demo_lru :: "(skip_key \<times> bytes) list lru_crate" where
  "demo_lru = \<lparr>
     lru_new = \<lambda>n. [],
     lru_contains = \<lambda>c k. k \<in> fst ` set c,
     lru_pop = \<lambda>c k. (map_of c k, filter (\<lambda>e. fst e \<noteq> k) c),
     lru_put = \<lambda>c k v. (k, v) # filter (\<lambda>e. fst e \<noteq> k) c,
     lru_is_empty = \<lambda>c. c = []\<rparr>"

lemma demo_lru_ok: "lru_ok demo_lru"
  unfolding lru_ok_def demo_lru_def by (auto simp: map_of_eq_None_iff)

lemma demo_run:
  obtains a b m a1 b1 where
    "dr_init_alice demo_crypto demo_lru [1] (replicate 32 9) = (Ok a :: (crypt_error, _) outcome)"
    "dr_init_bob demo_crypto demo_lru [2] (replicate 32 9) = (Ok b :: (crypt_error, _) outcome)"
    "dr_flow demo_crypto demo_lru a [] b" "dr_flow demo_crypto demo_lru b [] a"
    "dr_usable (replicate 12 0, [5]) [1, 2, 3]"
    "dr_send demo_crypto a (replicate 12 0, [5]) [1, 2, 3] = (Ok m, a1)"
    "dr_flow demo_crypto demo_lru a1 [(m, [1, 2, 3])] b"
    "dr_decrypt demo_crypto demo_lru b [3] m = (Ok [1, 2, 3], b1)"
proof -
  obtain a b where ab: "dr_init_alice demo_crypto demo_lru [1] (replicate 32 9) = (Ok a :: (crypt_error, _) outcome)"
    "dr_init_bob demo_crypto demo_lru [2] (replicate 32 9) = (Ok b :: (crypt_error, _) outcome)"
    "dr_flow demo_crypto demo_lru a [] b" "dr_flow demo_crypto demo_lru b [] a"
    by (rule dr_init_flow [OF demo_crypto_ok demo_lru_ok])
  have u: "dr_usable (replicate 12 0, [5]) [1, 2, 3]"
    by (simp add: dr_usable_def TAG_SIZE_def MAX_MESSAGE_SIZE_def)
  obtain m a1 where m: "dr_send demo_crypto a (replicate 12 0, [5]) [1, 2, 3] = (Ok m, a1)"
    "dr_flow demo_crypto demo_lru a1 [(m, [1, 2, 3])] b"
    using double_ratchet.send_flow [OF ab(3) u] by auto
  obtain b1 where "dr_decrypt demo_crypto demo_lru b [3] m = (Ok [1, 2, 3], b1)"
    using double_ratchet.recv_flow [OF m(2), of "[3]"] by auto
  with ab u m show thesis by (intro that)
qed

lemma demo_session:
  obtains a b s where
    "dr_init_alice demo_crypto demo_lru [1] (replicate 32 9) = (Ok a :: (crypt_error, _) outcome)"
    "dr_init_bob demo_crypto demo_lru [2] (replicate 32 9) = (Ok b :: (crypt_error, _) outcome)"
    "(session_step (dr_send demo_crypto) (dr_decrypt demo_crypto demo_lru) dr_usable)\<^sup>*\<^sup>* (session_start a b) s"
    "sent_a s = [[1, 2, 3]]" "length (got_b s) = 1"
proof (rule demo_run)
  fix a b m a1 b1
  assume r: "dr_init_alice demo_crypto demo_lru [1] (replicate 32 9) = (Ok a :: (crypt_error, _) outcome)"
    "dr_init_bob demo_crypto demo_lru [2] (replicate 32 9) = (Ok b :: (crypt_error, _) outcome)"
    "dr_usable (replicate 12 0, [5]) [1, 2, 3]"
    "dr_send demo_crypto a (replicate 12 0, [5]) [1, 2, 3] = (Ok m, a1)"
    "dr_decrypt demo_crypto demo_lru b [3] m = (Ok [1, 2, 3], b1)"
  let ?step = "session_step (dr_send demo_crypto) (dr_decrypt demo_crypto demo_lru) dr_usable"
  define s0 where "s0 = (session_start a b :: (_, crypt_error, ratchet_message) session)"
  define s1 where "s1 = s0\<lparr>side_a := a1, a_to_b := a_to_b s0 @ [m], sent_a := sent_a s0 @ [[1, 2, 3]]\<rparr>"
  define s2 where "s2 = s1\<lparr>side_b := b1, a_to_b := [], got_b := got_b s1 @ [Ok [1, 2, 3]]\<rparr>"
  have "?step s0 s1" using r(3,4) unfolding s1_def
    by (intro session_step.send_a [where x = "(replicate 12 0, [5])"]) (simp_all add: s0_def session_start_def)
  moreover have "?step s1 s2" using r(5) unfolding s2_def
    by (intro session_step.recv_b) (simp_all add: s1_def s0_def session_start_def)
  ultimately have s: "?step\<^sup>*\<^sup>* s0 s2" by (meson rtranclp.rtrancl_refl rtranclp.rtrancl_into_rtrancl)
  show thesis
    by (rule that [OF r(1,2) s [unfolded s0_def]]) (simp_all add: s2_def s1_def s0_def session_start_def)
qed

section \<open>Properties\<close>

text \<open>C2: a session of Alice and Bob initialised from the same secret. Both send whenever they want and
  each takes the next message of its incoming stream whenever it wants, in any interleaving, with any
  randomness. In every state that can arise, each result of decryption so far is the plaintext the peer
  encrypted at that position, none was an error, and what is missing is exactly what is under way.\<close>

theorem ratchet_session_delivers:
  assumes "crypto_ok P" "lru_ok L"
    and "dr_init_alice P L fa ss = (Ok a :: (crypt_error, _) outcome)"
    and "dr_init_bob P L fb ss = (Ok b :: (crypt_error, _) outcome)"
    and "(session_step (dr_send P) (dr_decrypt P L) dr_usable)\<^sup>*\<^sup>* (session_start a b) s"
  shows "got_b s = map Ok (take (length (got_b s)) (sent_a s))
    \<and> got_a s = map Ok (take (length (got_a s)) (sent_b s))
    \<and> length (sent_a s) = length (got_b s) + length (a_to_b s)
    \<and> length (sent_b s) = length (got_a s) + length (b_to_a s)"
  using double_ratchet.session_delivery [OF assms(5) dr_init_flowD [OF assms(1-4)]] by blast

theorem ratchet_session_delivers_witness:
  "\<exists>a b s. dr_init_alice demo_crypto demo_lru [1] (replicate 32 9) = (Ok a :: (crypt_error, _) outcome)
     \<and> dr_init_bob demo_crypto demo_lru [2] (replicate 32 9) = (Ok b :: (crypt_error, _) outcome)
     \<and> (session_step (dr_send demo_crypto) (dr_decrypt demo_crypto demo_lru) dr_usable)\<^sup>*\<^sup>* (session_start a b) s
     \<and> sent_a s = [[1, 2, 3]] \<and> got_b s = [Ok [1, 2, 3]]"
proof (rule demo_session)
  fix a b s
  assume r: "dr_init_alice demo_crypto demo_lru [1] (replicate 32 9) = (Ok a :: (crypt_error, _) outcome)"
    "dr_init_bob demo_crypto demo_lru [2] (replicate 32 9) = (Ok b :: (crypt_error, _) outcome)"
    "(session_step (dr_send demo_crypto) (dr_decrypt demo_crypto demo_lru) dr_usable)\<^sup>*\<^sup>* (session_start a b) s"
    "sent_a s = [[1, 2, 3]]" "length (got_b s) = 1"
  with ratchet_session_delivers [OF demo_crypto_ok demo_lru_ok r(1-3)] have "got_b s = [Ok [1, 2, 3]]" by simp
  with r show ?thesis by blast
qed

text \<open>C37: in such a session no DH ratchet step is ever taken: the DH key pair, the root key and the
  previous chain length of both ends stay those of the initialisation, however long the session runs.\<close>

theorem honest_session_never_rekeys:
  assumes "crypto_ok P" "lru_ok L"
    and "dr_init_alice P L fa ss = (Ok a :: (crypt_error, _) outcome)"
    and "dr_init_bob P L fb ss = (Ok b :: (crypt_error, _) outcome)"
    and "(session_step (dr_send P) (dr_decrypt P L) dr_usable)\<^sup>*\<^sup>* (session_start a b) s"
  shows "get_dh_public_key (side_a s) = get_dh_public_key a \<and> dr_root_key (side_a s) = ss
    \<and> get_dh_public_key (side_b s) = get_dh_public_key b \<and> dr_root_key (side_b s) = ss
    \<and> dr_previous_chain_length (side_a s) = 0 \<and> dr_previous_chain_length (side_b s) = 0"
proof -
  have "dr_root_key a = ss" "dr_previous_chain_length a = 0" "dr_root_key b = ss" "dr_previous_chain_length b = 0"
    using assms(3,4) by (auto simp: dr_init_alice_def dr_init_bob_def and_then_Ok_iff)
  then show ?thesis
    using session_keeps_identity [OF assms(5) dr_init_flowD [OF assms(1-4)]]
    by (simp add: dr_identity_def get_dh_public_key_def)
qed

theorem honest_session_never_rekeys_witness:
  "\<exists>a b s. dr_init_alice demo_crypto demo_lru [1] (replicate 32 9) = (Ok a :: (crypt_error, _) outcome)
     \<and> (session_step (dr_send demo_crypto) (dr_decrypt demo_crypto demo_lru) dr_usable)\<^sup>*\<^sup>* (session_start a b) s
     \<and> sent_a s = [[1, 2, 3]] \<and> dr_root_key (side_a s) = replicate 32 9"
proof (rule demo_session)
  fix a b s
  assume r: "dr_init_alice demo_crypto demo_lru [1] (replicate 32 9) = (Ok a :: (crypt_error, _) outcome)"
    "dr_init_bob demo_crypto demo_lru [2] (replicate 32 9) = (Ok b :: (crypt_error, _) outcome)"
    "(session_step (dr_send demo_crypto) (dr_decrypt demo_crypto demo_lru) dr_usable)\<^sup>*\<^sup>* (session_start a b) s"
    "sent_a s = [[1, 2, 3]]"
  from honest_session_never_rekeys [OF demo_crypto_ok demo_lru_ok r(1-3)] r show ?thesis by blast
qed

text \<open>C32: whatever calls were made on a ratchet before, on honest, replayed or forged messages, a message
  whose number lies below the receive counter is refused and changes nothing: a delivered message
  cannot be replayed, and a message that was overtaken can never be read.\<close>

theorem stale_message_refused:
  assumes "lru_ok L" "dr_reachable P L s" "wf_header (header m)" "length (ciphertext m) \<le> MAX_MESSAGE_SIZE"
    and "message_number (header m) < get_recv_message_number s"
  shows "dr_decrypt P L s fresh m
    = (Err (DecryptionFailed (MessageTooOld (message_number (header m)) (get_recv_message_number s))), s)"
  using dr_decrypt_old [OF dr_reachable_inv [OF assms(1,2)] assms(3,4)] assms(5)
  by (simp add: get_recv_message_number_def)

theorem stale_message_refused_witness:
  "\<exists>b1 m n. dr_reachable demo_crypto demo_lru b1 \<and> message_number (header m) = 0
     \<and> dr_decrypt demo_crypto demo_lru b1 [4] m = (Err (DecryptionFailed (MessageTooOld 0 n)), b1)"
proof (rule demo_run)
  fix a b m a1 b1
  assume r: "dr_init_alice demo_crypto demo_lru [1] (replicate 32 9) = (Ok a :: (crypt_error, _) outcome)"
    "dr_init_bob demo_crypto demo_lru [2] (replicate 32 9) = (Ok b :: (crypt_error, _) outcome)"
    "dr_send demo_crypto a (replicate 12 0, [5]) [1, 2, 3] = (Ok m, a1)"
    "dr_flow demo_crypto demo_lru a1 [(m, [1, 2, 3])] b"
    "dr_decrypt demo_crypto demo_lru b [3] m = (Ok [1, 2, 3], b1)"
  have b: "dr_recv_message_number b = 0" using r(2) by (auto simp: dr_init_bob_def and_then_Ok_iff)
  then have n: "message_number (header m) = 0" "wf_header (header m)" "length (ciphertext m) \<le> MAX_MESSAGE_SIZE"
    using r(4) by (auto simp: dr_flow_def wf_header_def)
  have n1: "get_recv_message_number b1 = 1"
    by (rule dr_recv_step [OF r(4), where fresh = "[3]"]) (use r(5) b in \<open>simp add: get_recv_message_number_def\<close>)
  have b1: "dr_reachable demo_crypto demo_lru b1"
    using dr_reachable.decrypts [OF dr_reachable.bob [OF r(2)] n(2) r(5)] .
  with stale_message_refused [OF demo_lru_ok b1 n(2,3), of "[4]"] n n1 show ?thesis by fastforce
qed

text \<open>Messages out of order are lost. Of two messages sent one after the other, the receiver that gets
  the second one first decrypts it, and then refuses the first one as too old, although the key for it
  was stored: it is stored under another cache key than the one that is looked up.\<close>

lemma overtaken_message_is_lost:
  assumes "dr_flow P L a [] b" "dr_usable x1 p1" "dr_usable x2 p2"
    and "dr_send P a x1 p1 = (Ok m1, a1)" "dr_send P a1 x2 p2 = (Ok m2, a2)"
    and "unat (dr_recv_message_number b) + 1000 < 2 ^ 32"
  shows "\<exists>b'. dr_decrypt P L b y m2 = (Ok p2, b')
    \<and> dr_decrypt P L b' y' m1
        = (Err (DecryptionFailed (MessageTooOld (dr_recv_message_number b) (dr_recv_message_number b + 2))), b')"
proof -
  define n where "n = dr_recv_message_number b"
  have w: "n < n + 1" "\<not> n + of_nat MAX_SKIP < n + 1" "n < n + 2"
    using assms(6) unat_add_small [of n 1] unat_add_small [of n 2] unat_add_small [of n 1000]
    by (simp_all add: word_less_nat_alt n_def MAX_SKIP_def)
  have f: "dr_flow P L a2 [(m1, p1), (m2, p2)] b"
    using double_ratchet.send_flow [OF assms(1,2)] double_ratchet.send_flow [of P L a1 "[(m1, p1)]" b x2 p2]
      assms(3-5) by fastforce
  obtain k ck ck' where
    "crypto_ok P" "lru_ok L" "dr_inv L b" "dr_dh_pair a2 = Some k" "length (public_key k) = 32"
    "dr_sending_chain_key a2 = Some ck'" "length ck' = 32" "dr_receiving_chain_key b = Some ck"
    "messages_under_way P (public_key k) ck (dr_recv_message_number b) [(m1, p1), (m2, p2)] ck' (dr_send_message_number a2)"
    "dr_remote_dh_key b = None \<or> dr_remote_dh_key b = Some (public_key k)"
    by (rule dr_flowE [OF f])
  then have k: "dr_inv L b" "lru_ok L" "length (public_key k) = 32" "dr_receiving_chain_key b = Some ck"
    "dh_public (header m1) = Some (public_key k)" "message_number (header m1) = n" "length (ciphertext m1) \<le> MAX_MESSAGE_SIZE"
    "dh_public (header m2) = Some (public_key k)" "message_number (header m2) = n + 1" "length (ciphertext m2) \<le> MAX_MESSAGE_SIZE"
    "cipher_decrypt (chacha P) (cipher_new (fst (kdf_ck P (snd (kdf_ck P ck))))) (nonce m2) [payload_type (header m2)] (ciphertext m2) = Ok p2"
    "dr_remote_dh_key b = None \<or> dr_remote_dh_key b = Some (public_key k)"
    by (simp_all add: n_def)
  have h: "wf_header (header m1)" "wf_header (header m2)" using k by (simp_all add: wf_header_def)
  define b1 where "b1 = (if dr_remote_dh_key b = None then b\<lparr>dr_remote_dh_key := dh_public (header m2)\<rparr> else b)"
  have b1: "dr_receiving_chain_key b1 = Some ck" "dr_recv_message_number b1 = n"
    using k(4) by (simp_all add: b1_def n_def)
  obtain c where c: "skip_message_keys P L b1 (n + 1) = (Ok (), b1\<lparr>dr_skipped_keys := c,
      dr_recv_message_number := n + 1, dr_receiving_chain_key := Some (snd (kdf_ck P ck))\<rparr>)"
    using skip_one [of b1 ck "n + 1" P L] b1 w by auto
  have d: "dr_decrypt P L b y m2 = st_then (skip_message_keys P L b1 (n + 1)) (\<lambda>_ s. dr_open P m2 s)"
    using dr_decrypt_same_chain [OF k(1) h(2) k(10), of P y] k(8,9,12) w(1) by (auto simp: b1_def n_def)
  then obtain b' where b': "dr_decrypt P L b y m2 = (Ok p2, b')" "dr_recv_message_number b' = n + 2"
    using k(9,11) by (simp add: c dr_open_def case_prod_unfold)
  moreover have "dr_inv L b'" using dr_decrypt_inv [OF k(2,1) h(2), of P y] b'(1) by simp
  ultimately show ?thesis
    using dr_decrypt_old [of L b' m1 P y'] h(1) k(6,7) w(3) by (auto simp: n_def)
qed

text \<open>C34: a forged message that nobody could have sent blocks a session. It carries the sender's DH key or
  none, a number up to 1000 ahead and a ciphertext shorter than a tag; decryption fails, but the receive
  counter has moved to its number, and the honest message that was due next is refused as too old.\<close>

theorem forged_message_blocks_session:
  assumes "dr_flow P L a ((m, p) # q) b"
    and "wf_header (header f)" "length (ciphertext f) < TAG_SIZE"
    and "dh_public (header f) = None \<or> dh_public (header f) = dh_public (header m)"
    and "dr_recv_message_number b < message_number (header f)"
    and "message_number (header f) \<le> dr_recv_message_number b + 1000"
  shows "\<exists>b'. dr_decrypt P L b y f = (Err (DecryptionFailed (CipherReported CiphertextTooShort)), b')
    \<and> dr_decrypt P L b' y' m
        = (Err (DecryptionFailed (MessageTooOld (message_number (header m)) (message_number (header f)))), b')"
proof -
  obtain k ck ck' where
    "crypto_ok P" "lru_ok L" "dr_inv L b" "dr_dh_pair a = Some k" "length (public_key k) = 32"
    "dr_sending_chain_key a = Some ck'" "length ck' = 32" "dr_receiving_chain_key b = Some ck"
    "messages_under_way P (public_key k) ck (dr_recv_message_number b) ((m, p) # q) ck' (dr_send_message_number a)"
    "dr_remote_dh_key b = None \<or> dr_remote_dh_key b = Some (public_key k)"
    by (rule dr_flowE [OF assms(1)])
  then have k: "dr_inv L b" "lru_ok L" "length (public_key k) = 32" "dr_receiving_chain_key b = Some ck"
    "dh_public (header m) = Some (public_key k)" "message_number (header m) = dr_recv_message_number b"
    "length (ciphertext m) \<le> MAX_MESSAGE_SIZE"
    "dr_remote_dh_key b = None \<or> dr_remote_dh_key b = Some (public_key k)"
    by simp_all
  have c: "length (ciphertext f) \<le> MAX_MESSAGE_SIZE"
    using assms(3) by (simp add: TAG_SIZE_def MAX_MESSAGE_SIZE_def)
  define b1 where "b1 = (if dr_remote_dh_key b = None then b\<lparr>dr_remote_dh_key := dh_public (header f)\<rparr> else b)"
  have b1: "dr_receiving_chain_key b1 = Some ck" "dr_recv_message_number b1 = dr_recv_message_number b"
    using k(4) by (simp_all add: b1_def)
  have d: "dr_decrypt P L b y f = st_then (skip_message_keys P L b1 (message_number (header f))) (\<lambda>_ s. dr_open P f s)"
    using dr_decrypt_same_chain [OF k(1) assms(2) c, of P y] assms(4,5) k(5,8) by (auto simp: b1_def)
  have "\<exists>b'. dr_decrypt P L b y f = (Err (DecryptionFailed (CipherReported CiphertextTooShort)), b')
      \<and> dr_recv_message_number b' = message_number (header f)"
  proof (cases rule: skip_message_keys_cases [of P L b1 "message_number (header f)"])
    case (skipped c ck)
    then show ?thesis
      using assms(3) b1(2) max_absorb2 [OF less_imp_le [OF assms(5)]]
      by (simp add: d dr_open_def case_prod_unfold cipher_decrypt_def)
  qed (use assms(6) b1 in \<open>auto simp: MAX_SKIP_def\<close>)
  then obtain b' where b': "dr_decrypt P L b y f = (Err (DecryptionFailed (CipherReported CiphertextTooShort)), b')"
    "dr_recv_message_number b' = message_number (header f)" by blast
  moreover have "dr_inv L b'" using dr_decrypt_inv [OF k(2,1) assms(2), of P y] b'(1) by simp
  moreover have "wf_header (header m)" using k(3,5) by (simp add: wf_header_def)
  ultimately show ?thesis
    using dr_decrypt_old [of L b' m P y'] k(6,7) assms(5) by auto
qed

theorem forged_message_blocks_session_witness:
  "\<exists>b m b'. dr_decrypt demo_crypto demo_lru b [3] \<lparr>header = \<lparr>dh_public = None, message_number = 7,
        previous_chain_length = 0, payload_type = 0\<rparr>, nonce = replicate 12 0, ciphertext = []\<rparr>
      = (Err (DecryptionFailed (CipherReported CiphertextTooShort)), b')
     \<and> dr_decrypt demo_crypto demo_lru b' [3] m = (Err (DecryptionFailed (MessageTooOld 0 7)), b')"
proof (rule demo_run)
  fix a b m a1 b1
  assume r: "dr_init_bob demo_crypto demo_lru [2] (replicate 32 9) = (Ok b :: (crypt_error, _) outcome)"
    "dr_flow demo_crypto demo_lru a1 [(m, [1, 2, 3])] b"
  have b: "dr_recv_message_number b = 0" using r(1) by (auto simp: dr_init_bob_def and_then_Ok_iff)
  moreover have "message_number (header m) = 0" using r(2) b by (auto simp: dr_flow_def)
  ultimately show ?thesis
    using forged_message_blocks_session [OF r(2), of "\<lparr>header = \<lparr>dh_public = None, message_number = 7,
        previous_chain_length = 0, payload_type = 0\<rparr>, nonce = replicate 12 0, ciphertext = []\<rparr>" "[3]" "[3]"]
    by (auto simp: wf_header_def TAG_SIZE_def)
qed

text \<open>C20: the three decryption routines compute the same. \<open>decrypt_to\<close> returns the length of what \<open>decrypt\<close>
  returns, leaves the same ratchet and puts the plaintext in the buffer, which it does not touch on an
  error; the zero-copy routine agrees in outcome and ratchet, and in the buffer when it succeeds.\<close>

theorem decrypt_variants_agree:
  assumes "aead_ok (chacha P)" "lru_ok L"
  shows "dr_decrypt_to P L s fresh m out = report out (dr_decrypt P L s fresh m)
    \<and> agrees (dr_decrypt_to_ref P L s fresh m out) (dr_decrypt P L s fresh m)"
  using dr_decrypt_to_eq dr_decrypt_to_ref_agrees [OF assms] by blast

theorem decrypt_variants_agree_witness:
  "\<exists>s m. dr_decrypt demo_crypto demo_lru s [3] m = (Ok [1, 2, 3], snd (dr_decrypt demo_crypto demo_lru s [3] m))
     \<and> dr_decrypt_to demo_crypto demo_lru s [3] m [7] = (Ok 3, snd (dr_decrypt demo_crypto demo_lru s [3] m), [1, 2, 3])
     \<and> dr_decrypt_to_ref demo_crypto demo_lru s [3] m [7] = (Ok 3, snd (dr_decrypt demo_crypto demo_lru s [3] m), [1, 2, 3])"
proof (rule demo_run)
  fix b m b1
  assume d: "dr_decrypt demo_crypto demo_lru b [3] m = (Ok [1, 2, 3], b1)"
  from decrypt_variants_agree [OF crypto_ok_aead [OF demo_crypto_ok] demo_lru_ok, of b "[3]" m "[7]"]
  show ?thesis by (intro exI [of _ b] exI [of _ m]) (simp add: d)
qed

end
