(* ===== verification/Ratchet_Wire.thy ===== *)
theory Ratchet_Wire
  imports Ratchet
begin

text \<open>
  Ratchet messages on the wire: \<open>RatchetMessage::to_bytes\<close> and \<open>from_bytes\<close>, which call the \<open>bincode\<close> crate,
  and the hand-written zero-copy parser \<open>RatchetMessageRef::from_bytes\<close> of \<open>crypto/ratchet.rs\<close>, which has to
  agree with the layout that crate documents (\<open>bincode_ok\<close>): fixed-width little-endian integers, one
  tag byte for an option, a 64-bit length in front of a vector, arrays without a length.
\<close>

section \<open>The crate and its callers\<close>

record bincode_crate =
  bincode_serialize :: "ratchet_message \<Rightarrow> bytes option"
  bincode_deserialize :: "bytes \<Rightarrow> ratchet_message option"

definition bincode_layout :: "ratchet_message \<Rightarrow> bytes" where
  "bincode_layout m =
     (case dh_public (header m) of None \<Rightarrow> [0] | Some k \<Rightarrow> 1 # k)
     @ to_le_bytes 4 (message_number (header m))
     @ to_le_bytes 4 (previous_chain_length (header m))
     @ [payload_type (header m)]
     @ nonce m
     @ to_le_bytes 8 (of_nat (length (ciphertext m)) :: u64)
     @ ciphertext m"

definition bincode_ok :: "bincode_crate \<Rightarrow> bool" where
  "bincode_ok B \<longleftrightarrow>
     (\<forall>m. wf_ratchet_message m \<longrightarrow> length (ciphertext m) < 2 ^ 63 \<longrightarrow> bincode_serialize B m = Some (bincode_layout m))
     \<and> (\<forall>m rest. wf_ratchet_message m \<longrightarrow> length (ciphertext m) < 2 ^ 63 \<longrightarrow>
          bincode_deserialize B (bincode_layout m @ rest) = Some m)"

datatype bincode_error = SerializeError | DeserializeError

definition ratchet_message_to_bytes :: "bincode_crate \<Rightarrow> ratchet_message \<Rightarrow> (bincode_error, bytes) outcome" where
  "ratchet_message_to_bytes B m = ok_or SerializeError (bincode_serialize B m)"

definition ratchet_message_from_bytes :: "bincode_crate \<Rightarrow> bytes \<Rightarrow> (bincode_error, ratchet_message) outcome" where
  "ratchet_message_from_bytes B data = ok_or DeserializeError (bincode_deserialize B data)"

section \<open>The zero-copy parser\<close>

lemma read_exact_append [simp]: "length a = n \<Longrightarrow> read_exact n (a @ b) = Ok (a, b)"
  by (auto simp: read_exact_def)

lemma read_exact_Ok_iff:
  "read_exact n rest = Ok (a, b) \<longleftrightarrow> length a = n \<and> rest = a @ b"
  by (auto simp: read_exact_def)

lemma read_exact_no_panic [simp]: "read_exact n rest \<noteq> Panic"
  by (simp add: read_exact_def)

lemma read_exact_1 [simp]: "read_exact 1 (b # r) = Ok ([b], r)" "read_exact (Suc 0) (b # r) = Ok ([b], r)"
  by (simp_all add: read_exact_def)

lemma ref_from_bytes_layout:
  assumes "wf_ratchet_message m" "length (ciphertext m) < 2 ^ 63"
  shows "ratchet_message_ref_from_bytes (bincode_layout m @ rest) = Ok m"
proof -
  have n: "length (nonce m) = 12" "\<And>k. dh_public (header m) = Some k \<Longrightarrow> length k = 32"
    using assms(1) by (auto simp: wf_ratchet_message_def wf_header_def NONCE_SIZE_def)
  have l: "length (ciphertext m) mod 18446744073709551616 = length (ciphertext m)"
    "62 + length (ciphertext m) < 18446744073709551616"
    using assms(2) by simp_all
  show ?thesis
    using n l
    by (cases "dh_public (header m)")
       (simp_all add: ratchet_message_ref_from_bytes_def bincode_layout_def NONCE_SIZE_def Let_def)
qed

lemma ref_from_bytes_no_panic: "ratchet_message_ref_from_bytes data \<noteq> Panic"
  unfolding ratchet_message_ref_from_bytes_def
  by (auto simp: panic_simps read_exact_Ok_iff case_prod_unfold idx_def bslice_def split: if_splits)

lemma ref_from_bytes_wf:
  "ratchet_message_ref_from_bytes data = Ok m \<Longrightarrow> wf_ratchet_message m"
  unfolding ratchet_message_ref_from_bytes_def
  by (auto simp: and_then_Ok_iff read_exact_Ok_iff Let_def wf_ratchet_message_def wf_header_def split: if_splits)

text \<open>An instance of the crate with the documented layout.\<close>

definition demo_bincode :: bincode_crate where
  "demo_bincode = \<lparr>
     bincode_serialize = \<lambda>m. Some (bincode_layout m),
     bincode_deserialize = \<lambda>data. (case ratchet_message_ref_from_bytes data of Ok m \<Rightarrow> Some m | _ \<Rightarrow> None)\<rparr>"

lemma demo_bincode_ok: "bincode_ok demo_bincode"
  by (simp add: bincode_ok_def demo_bincode_def ref_from_bytes_layout)

section \<open>Properties\<close>

text \<open>C21: the zero-copy parser reads what \<open>RatchetMessage::to_bytes\<close> writes: it returns the message that was
  serialised, as \<open>RatchetMessage::from_bytes\<close> does, whatever bytes follow; on any bytes at all it does not
  panic, and what it accepts has a 12-byte nonce and a DH key of 32 bytes if any.\<close>

theorem zero_copy_parser_reads_bincode:
  assumes "bincode_ok B" "wf_ratchet_message m" "length (ciphertext m) < 2 ^ 63"
  shows "(\<exists>bs. ratchet_message_to_bytes B m = Ok bs
       \<and> (\<forall>rest. ratchet_message_ref_from_bytes (bs @ rest) = Ok m \<and> ratchet_message_from_bytes B (bs @ rest) = Ok m))
    \<and> ratchet_message_ref_from_bytes data \<noteq> Panic
    \<and> (ratchet_message_ref_from_bytes data = Ok m' \<longrightarrow> wf_ratchet_message m')"
  using assms ref_from_bytes_layout [OF assms(2,3)] ref_from_bytes_no_panic ref_from_bytes_wf
  by (simp add: bincode_ok_def ratchet_message_to_bytes_def ratchet_message_from_bytes_def)

theorem zero_copy_parser_reads_bincode_witness:
  "\<exists>bs. ratchet_message_to_bytes demo_bincode
       \<lparr>header = \<lparr>dh_public = Some (replicate 32 7), message_number = 300, previous_chain_length = 2, payload_type = 5\<rparr>,
         nonce = replicate 12 1, ciphertext = [1, 2, 3]\<rparr> = Ok bs
     \<and> ratchet_message_ref_from_bytes (bs @ [0])
       = Ok \<lparr>header = \<lparr>dh_public = Some (replicate 32 7), message_number = 300, previous_chain_length = 2, payload_type = 5\<rparr>,
         nonce = replicate 12 1, ciphertext = [1, 2, 3]\<rparr>"
proof -
  let ?m = "\<lparr>header = \<lparr>dh_public = Some (replicate 32 7), message_number = 300, previous_chain_length = 2, payload_type = 5\<rparr>,
    nonce = replicate 12 1, ciphertext = [1, 2, 3]\<rparr>"
  have "wf_ratchet_message ?m" "length (ciphertext ?m) < 2 ^ 63"
    by (simp_all add: wf_ratchet_message_def wf_header_def NONCE_SIZE_def)
  from zero_copy_parser_reads_bincode [OF demo_bincode_ok this, THEN conjunct1] show ?thesis by blast
qed

end
