(* ===== verification/X3dh.thy ===== *)
theory X3dh
  imports Crypto
begin

text \<open>
  The X3DH key agreement of \<open>crypto/x3dh.rs\<close> and the identity keys of \<open>crypto/mod.rs\<close>. The \<open>ed25519-dalek\<close>
  crate is the record \<open>ed25519_crate\<close>; \<open>ed_ok\<close> states the documented facts relied on. Freshly drawn secrets
  are arguments.
\<close>

section \<open>Identity keys\<close>

record ed25519_crate =
  ed_verifying_key :: "bytes \<Rightarrow> bytes"
  ed_sign :: "bytes \<Rightarrow> bytes \<Rightarrow> bytes"
  ed_key_valid :: "bytes \<Rightarrow> bool"
  ed_verify :: "bytes \<Rightarrow> bytes \<Rightarrow> bytes \<Rightarrow> bool"

definition ed_ok :: "ed25519_crate \<Rightarrow> bool" where
  "ed_ok E \<longleftrightarrow> (\<forall>sk. length (ed_verifying_key E sk) = 32)
     \<and> (\<forall>sk m. length (ed_sign E sk m) = 64)
     \<and> (\<forall>sk. length sk = 32 \<longrightarrow> ed_key_valid E (ed_verifying_key E sk))
     \<and> (\<forall>sk m. length sk = 32 \<longrightarrow> ed_verify E (ed_verifying_key E sk) m (ed_sign E sk m))"

record identity_key =
  signing_key :: bytes
  verifying_key :: bytes

definition identity_generate :: "ed25519_crate \<Rightarrow> bytes \<Rightarrow> identity_key" where
  "identity_generate E seed = \<lparr>signing_key = seed, verifying_key = ed_verifying_key E seed\<rparr>"

definition identity_sign :: "ed25519_crate \<Rightarrow> identity_key \<Rightarrow> bytes \<Rightarrow> bytes" where
  "identity_sign E i msg = ed_sign E (signing_key i) msg"

datatype crypto_error = Crypto string

definition identity_verify :: "ed25519_crate \<Rightarrow> identity_key \<Rightarrow> bytes \<Rightarrow> bytes \<Rightarrow> (crypto_error, unit) outcome" where
  "identity_verify E i msg signature =
     (if ed_verify E (verifying_key i) msg signature then Ok () else Err (Crypto ''signature error''))"

definition x25519_public_key_of_identity :: "crypto_crates \<Rightarrow> identity_key \<Rightarrow> bytes" where
  "x25519_public_key_of_identity P i = x25519_public P (signing_key i)"

section \<open>Bundles\<close>

record x3dh_public_bundle =
  pb_identity_key :: bytes
  pb_identity_x25519_key :: bytes
  pb_signed_prekey :: bytes
  pb_prekey_signature :: bytes
  pb_one_time_prekey :: "bytes option"
  pb_identity_key_version :: u32
  pb_rotation_signature :: "bytes option"

record x3dh_private_bundle =
  sb_identity_key :: bytes
  sb_identity_x25519_key :: bytes
  sb_signed_prekey :: bytes
  sb_one_time_prekey :: "bytes option"

record x3dh_initiator =
  xi_identity_key :: identity_key
  xi_ephemeral_key :: ephemeral_key

record x3dh_responder =
  private_bundle :: x3dh_private_bundle

record x3dh_material =
  xm_ephemeral_public :: bytes
  xm_identity_public :: bytes
  xm_identity_x25519_public :: bytes
  xm_one_time_prekey :: "bytes option"

definition ed25519_signing_key_to_x25519_private_key :: "bytes \<Rightarrow> bytes" where
  "ed25519_signing_key_to_x25519_private_key seed =
     (let k = seed[0 := and (seed ! 0) 0xF8];
          k = k[31 := and (k ! 31) 0x7F];
          k = k[31 := or (k ! 31) 0x40]
      in k)"

definition x25519_diffie_hellman :: "crypto_crates \<Rightarrow> bytes \<Rightarrow> bytes \<Rightarrow> bytes" where
  "x25519_diffie_hellman P priv pub = x25519_shared P priv pub"

definition derive_shared_secret :: "crypto_crates \<Rightarrow> bytes \<Rightarrow> ('e, bytes) outcome" where
  "derive_shared_secret P dh_results =
     and_then (hkdf_derive P [] dh_results (ascii ''R-VPN-v1 X3DH'') 32) copy_32"

section \<open>Initiator\<close>

definition initiator_new :: "crypto_crates \<Rightarrow> ed25519_crate \<Rightarrow> bytes \<Rightarrow> bytes \<Rightarrow> x3dh_initiator" where
  "initiator_new P E seed fresh =
     \<lparr>xi_identity_key = identity_generate E seed, xi_ephemeral_key = ephemeral_generate P fresh\<rparr>"

definition initiator_from_identity_key :: "crypto_crates \<Rightarrow> identity_key \<Rightarrow> bytes \<Rightarrow> x3dh_initiator" where
  "initiator_from_identity_key P i fresh =
     \<lparr>xi_identity_key = i, xi_ephemeral_key = ephemeral_generate P fresh\<rparr>"

definition initiator_agree :: "crypto_crates \<Rightarrow> x3dh_initiator \<Rightarrow> x3dh_public_bundle
    \<Rightarrow> (crypto_error, bytes \<times> x3dh_material) outcome" where
  "initiator_agree P i server_bundle =
     (let ik_client_x25519_private = ed25519_signing_key_to_x25519_private_key (signing_key (xi_identity_key i));
          ik_client_x25519_public = x25519_public P ik_client_x25519_private;
          dh1 = x25519_diffie_hellman P ik_client_x25519_private (pb_signed_prekey server_bundle);
          dh2 = x25519_diffie_hellman P (private_key (xi_ephemeral_key i)) (pb_identity_x25519_key server_bundle);
          dh3 = x25519_diffie_hellman P (private_key (xi_ephemeral_key i)) (pb_signed_prekey server_bundle);
          dh4 = map_option (\<lambda>opk. x25519_diffie_hellman P (private_key (xi_ephemeral_key i)) opk)
                  (pb_one_time_prekey server_bundle);
          dh_concat = dh1 @ dh2 @ dh3 @ (case dh4 of Some d \<Rightarrow> d | None \<Rightarrow> [])
      in and_then (derive_shared_secret P dh_concat) (\<lambda>shared_secret.
         Ok (shared_secret,
             \<lparr>xm_ephemeral_public = public_key (xi_ephemeral_key i),
              xm_identity_public = verifying_key (xi_identity_key i),
              xm_identity_x25519_public = ik_client_x25519_public,
              xm_one_time_prekey = pb_one_time_prekey server_bundle\<rparr>)))"

section \<open>Responder\<close>

definition responder_new :: "bytes \<Rightarrow> bytes \<Rightarrow> x3dh_responder" where
  "responder_new seed prekey =
     \<lparr>private_bundle = \<lparr>sb_identity_key = seed,
        sb_identity_x25519_key = ed25519_signing_key_to_x25519_private_key seed,
        sb_signed_prekey = prekey, sb_one_time_prekey = None\<rparr>\<rparr>"

definition responder_from_identity :: "identity_key \<Rightarrow> bytes \<Rightarrow> x3dh_responder" where
  "responder_from_identity i prekey =
     \<lparr>private_bundle = \<lparr>sb_identity_key = signing_key i,
        sb_identity_x25519_key = ed25519_signing_key_to_x25519_private_key (signing_key i),
        sb_signed_prekey = prekey, sb_one_time_prekey = None\<rparr>\<rparr>"

definition responder_from_identity_with_bundle :: "identity_key \<Rightarrow> bytes \<Rightarrow> x3dh_responder" where
  "responder_from_identity_with_bundle i signed_prekey_bytes =
     \<lparr>private_bundle = \<lparr>sb_identity_key = signing_key i,
        sb_identity_x25519_key = ed25519_signing_key_to_x25519_private_key (signing_key i),
        sb_signed_prekey = signed_prekey_bytes, sb_one_time_prekey = None\<rparr>\<rparr>"

definition generate_one_time_prekey :: "crypto_crates \<Rightarrow> x3dh_responder \<Rightarrow> bytes \<Rightarrow> bytes \<times> x3dh_responder" where
  "generate_one_time_prekey P r fresh =
     (x25519_public P fresh, r\<lparr>private_bundle := (private_bundle r)\<lparr>sb_one_time_prekey := Some fresh\<rparr>\<rparr>)"

definition responder_agree :: "crypto_crates \<Rightarrow> x3dh_responder \<Rightarrow> bytes \<Rightarrow> bytes \<Rightarrow> bool
    \<Rightarrow> (crypto_error, bytes) outcome" where
  "responder_agree P r client_identity_x25519 client_ephemeral used_one_time_prekey =
     (let dh1 = x25519_diffie_hellman P (sb_signed_prekey (private_bundle r)) client_identity_x25519;
          dh2 = x25519_diffie_hellman P (sb_identity_x25519_key (private_bundle r)) client_ephemeral;
          dh3 = x25519_diffie_hellman P (sb_signed_prekey (private_bundle r)) client_ephemeral;
          dh4 = (if used_one_time_prekey
                 then map_option (\<lambda>opk. x25519_diffie_hellman P opk client_ephemeral) (sb_one_time_prekey (private_bundle r))
                 else None);
          dh_concat = dh1 @ dh2 @ dh3 @ (case dh4 of Some d \<Rightarrow> d | None \<Rightarrow> [])
      in derive_shared_secret P dh_concat)"

definition get_public_bundle :: "crypto_crates \<Rightarrow> ed25519_crate \<Rightarrow> x3dh_responder \<Rightarrow> x3dh_public_bundle" where
  "get_public_bundle P E r =
     (let signed_prekey_public = x25519_public P (sb_signed_prekey (private_bundle r));
          identity_x25519_public = x25519_public P (sb_identity_x25519_key (private_bundle r));
          signature = ed_sign E (sb_identity_key (private_bundle r)) signed_prekey_public;
          one_time_prekey = map_option (x25519_public P) (sb_one_time_prekey (private_bundle r))
      in \<lparr>pb_identity_key = ed_verifying_key E (sb_identity_key (private_bundle r)),
          pb_identity_x25519_key = identity_x25519_public,
          pb_signed_prekey = signed_prekey_public,
          pb_prekey_signature = signature,
          pb_one_time_prekey = one_time_prekey,
          pb_identity_key_version = 1,
          pb_rotation_signature = None\<rparr>)"

definition get_signed_prekey_private :: "x3dh_responder \<Rightarrow> bytes" where
  "get_signed_prekey_private r = sb_signed_prekey (private_bundle r)"

section \<open>Agreement\<close>

text \<open>The ephemeral key of an initiator is a key pair, as both constructors make it.\<close>

definition wf_initiator :: "crypto_crates \<Rightarrow> x3dh_initiator \<Rightarrow> bool" where
  "wf_initiator P i \<longleftrightarrow> public_key (xi_ephemeral_key i) = x25519_public P (private_key (xi_ephemeral_key i))"

lemma wf_initiator_constructors [simp]:
  "wf_initiator P (initiator_new P E seed fresh)"
  "wf_initiator P (initiator_from_identity_key P i fresh)"
  by (simp_all add: wf_initiator_def initiator_new_def initiator_from_identity_key_def ephemeral_generate_def)

lemma derive_shared_secret_ok:
  assumes "crypto_ok P"
  obtains ss where "derive_shared_secret P d = Ok ss" "length ss = 32"
proof -
  obtain okm where "hkdf_sha256 P [] d (ascii ''R-VPN-v1 X3DH'') 32 = Some okm" "length okm = 32"
    by (rule crypto_ok_hkdf [OF assms, of 32]) simp_all
  then show thesis by (intro that [of okm]) (simp_all add: derive_shared_secret_def hkdf_derive_def copy_32_def)
qed

lemma x3dh_agree:
  assumes "crypto_ok P" "wf_initiator P i"
  obtains ss mat where "initiator_agree P i (get_public_bundle P E r) = Ok (ss, mat)" "length ss = 32"
    and "responder_agree P r (xm_identity_x25519_public mat) (xm_ephemeral_public mat) (xm_one_time_prekey mat \<noteq> None) = Ok ss"
    and "xm_one_time_prekey mat = map_option (x25519_public P) (sb_one_time_prekey (private_bundle r))"
proof -
  let ?c = "ed25519_signing_key_to_x25519_private_key (signing_key (xi_identity_key i))"
  let ?e = "private_key (xi_ephemeral_key i)"
  let ?b = "private_bundle r"
  let ?d = "x25519_shared P (sb_signed_prekey ?b) (x25519_public P ?c)
    @ x25519_shared P (sb_identity_x25519_key ?b) (x25519_public P ?e)
    @ x25519_shared P (sb_signed_prekey ?b) (x25519_public P ?e)
    @ (case sb_one_time_prekey ?b of Some k \<Rightarrow> x25519_shared P k (x25519_public P ?e) | None \<Rightarrow> [])"
  obtain ss where ss: "derive_shared_secret P ?d = (Ok ss :: (crypto_error, bytes) outcome)" "length ss = 32"
    by (rule derive_shared_secret_ok [OF assms(1), of ?d])
  let ?m = "\<lparr>xm_ephemeral_public = public_key (xi_ephemeral_key i),
      xm_identity_public = verifying_key (xi_identity_key i), xm_identity_x25519_public = x25519_public P ?c,
      xm_one_time_prekey = map_option (x25519_public P) (sb_one_time_prekey ?b)\<rparr>"
  have e: "public_key (xi_ephemeral_key i) = x25519_public P ?e" using assms(2) by (simp only: wf_initiator_def)
  note comm = crypto_ok_commute [OF assms(1), of ?c "sb_signed_prekey ?b"]
    crypto_ok_commute [OF assms(1), of ?e "sb_signed_prekey ?b"]
    crypto_ok_commute [OF assms(1), of ?e "sb_identity_x25519_key ?b"]
  have opk: "(case map_option (x25519_shared P ?e) (map_option (x25519_public P) (sb_one_time_prekey ?b)) of
        Some d \<Rightarrow> d | None \<Rightarrow> [])
      = (case sb_one_time_prekey ?b of Some k \<Rightarrow> x25519_shared P k (x25519_public P ?e) | None \<Rightarrow> [])"
    by (cases "sb_one_time_prekey ?b") (simp_all only: option.simps crypto_ok_commute [OF assms(1), of ?e])
  have "initiator_agree P i (get_public_bundle P E r) = Ok (ss, ?m)"
    unfolding initiator_agree_def get_public_bundle_def x25519_diffie_hellman_def Let_def x3dh_public_bundle.simps
      comm opk ss(1) by simp
  moreover have "responder_agree P r (xm_identity_x25519_public ?m) (xm_ephemeral_public ?m) (xm_one_time_prekey ?m \<noteq> None) = Ok ss"
    using ss(1) unfolding responder_agree_def x25519_diffie_hellman_def Let_def x3dh_material.simps e
    by (cases "sb_one_time_prekey ?b") simp_all
  ultimately show thesis using ss(2) by (intro that [of ss ?m]) simp_all
qed

lemma bundle_signature_verifies:
  assumes "ed_ok E" "length (sb_identity_key (private_bundle r)) = 32"
  shows "ed_verify E (pb_identity_key (get_public_bundle P E r)) (pb_signed_prekey (get_public_bundle P E r))
     (pb_prekey_signature (get_public_bundle P E r))"
  using assms by (simp add: ed_ok_def get_public_bundle_def Let_def)

section \<open>Clamping\<close>

lemma clamp_bytes:
  fixes b :: u8
  shows "take_bit 3 (and b 0xF8) = 0" "and (and b 0xF8) 0xF8 = and b 0xF8"
    and "bit (or (and b 0x7F) 0x40) 6" "\<not> bit (or (and b 0x7F) 0x40) 7"
    and "or (and (or (and b 0x7F) 0x40) 0x7F) 0x40 = or (and b 0x7F) 0x40"
proof -
  have m: "(0xF8 :: u8) = not (mask 3)" "(0x7F :: u8) = mask 7" "(0x40 :: u8) = push_bit 6 1"
    by (simp_all add: mask_eq_exp_minus_1)
  show "take_bit 3 (and b 0xF8) = 0" "and (and b 0xF8) 0xF8 = and b 0xF8"
    "or (and (or (and b 0x7F) 0x40) 0x7F) 0x40 = or (and b 0x7F) 0x40"
    unfolding m by (rule bit_word_eqI; auto simp: bit_simps)+
  show "bit (or (and b 0x7F) 0x40) 6" "\<not> bit (or (and b 0x7F) 0x40) 7"
    unfolding m by (simp_all add: bit_simps)
qed

lemma clamp_nth:
  assumes "length seed = 32"
  defines "k \<equiv> ed25519_signing_key_to_x25519_private_key seed"
  shows "length k = 32" "k ! 0 = and (seed ! 0) 0xF8" "k ! 31 = or (and (seed ! 31) 0x7F) 0x40"
    and "\<And>j. 0 < j \<Longrightarrow> j < 31 \<Longrightarrow> k ! j = seed ! j"
  using assms(1) by (simp_all add: k_def ed25519_signing_key_to_x25519_private_key_def Let_def)

lemma clamp_idempotent:
  assumes "length seed = 32"
  shows "ed25519_signing_key_to_x25519_private_key (ed25519_signing_key_to_x25519_private_key seed)
    = ed25519_signing_key_to_x25519_private_key seed" (is "?f (?f seed) = _")
proof (rule nth_equalityI)
  note k = clamp_nth [OF assms] and kk = clamp_nth [OF clamp_nth(1) [OF assms]]
  show "length (?f (?f seed)) = length (?f seed)" by (simp only: k(1) kk(1))
  fix j assume "j < length (?f (?f seed))"
  then consider "j = 0" | "0 < j" "j < 31" | "j = 31" using kk(1) by fastforce
  then show "?f (?f seed) ! j = ?f seed ! j"
    by cases (simp_all only: k kk clamp_bytes)
qed

section \<open>A concrete signature scheme\<close>

text \<open>Signatures without any secrecy that satisfy \<open>ed_ok\<close>.\<close>

definition demo_ed25519 :: ed25519_crate where
  "demo_ed25519 = \<lparr>
     ed_verifying_key = \<lambda>sk. demo_mix sk 32,
     ed_sign = \<lambda>sk m. demo_mix (demo_mix sk 32 @ m) 64,
     ed_key_valid = \<lambda>k. True,
     ed_verify = \<lambda>vk m s. s = demo_mix (vk @ m) 64\<rparr>"

lemma demo_ed25519_ok: "ed_ok demo_ed25519"
  by (simp add: ed_ok_def demo_ed25519_def demo_mix_def)

section \<open>Properties\<close>

text \<open>C8: the initiator and the responder of X3DH derive the same 32-byte secret, with and without a one-time
  prekey, whatever bundle the responder holds: the responder is given the two public keys of the
  material and whether a one-time prekey was used. Neither side panics or reports an error.\<close>

theorem x3dh_parties_agree:
  assumes "crypto_ok P" "wf_initiator P i"
  shows "\<exists>ss mat. initiator_agree P i (get_public_bundle P E r) = Ok (ss, mat) \<and> length ss = 32
    \<and> responder_agree P r (xm_identity_x25519_public mat) (xm_ephemeral_public mat) (xm_one_time_prekey mat \<noteq> None) = Ok ss"
  by (rule x3dh_agree [OF assms, of E r]) blast

theorem x3dh_parties_agree_witness:
  "\<exists>ss mat. initiator_agree demo_crypto (initiator_new demo_crypto demo_ed25519 (replicate 32 1) (replicate 32 2))
      (get_public_bundle demo_crypto demo_ed25519 (snd (generate_one_time_prekey demo_crypto
         (responder_new (replicate 32 3) (replicate 32 4)) (replicate 32 5)))) = Ok (ss, mat) \<and> length ss = 32
    \<and> responder_agree demo_crypto (snd (generate_one_time_prekey demo_crypto
         (responder_new (replicate 32 3) (replicate 32 4)) (replicate 32 5)))
        (xm_identity_x25519_public mat) (xm_ephemeral_public mat) (xm_one_time_prekey mat \<noteq> None) = Ok ss"
  by (rule x3dh_parties_agree [OF demo_crypto_ok]) simp

text \<open>The X25519 private key derived from an Ed25519 seed is clamped: the three lowest bits and the
  highest bit are clear, the second highest is set, the other bytes are those of the seed, and deriving
  it again changes nothing.\<close>

lemma derived_private_key_is_clamped:
  assumes "length seed = 32"
  defines "k \<equiv> ed25519_signing_key_to_x25519_private_key seed"
  shows "length k = 32 \<and> take_bit 3 (k ! 0) = 0 \<and> bit (k ! 31) 6 \<and> \<not> bit (k ! 31) 7
    \<and> ed25519_signing_key_to_x25519_private_key k = k"
  using clamp_nth(1-3) [OF assms(1)] clamp_idempotent [OF assms(1)] clamp_bytes unfolding k_def by metis

end
