(* ===== verification/Rust_Strings.thy ===== *)
theory Rust_Strings
  imports Rvpn_Prelude
begin

text \<open>
  The part of Rust's string library that the text-handling components use. A string is the list of its
  code points. Whitespace is the Unicode \<open>White_Space\<close> property that \<open>str::trim\<close> strips.
\<close>

type_synonym chars = "nat list"

definition codes :: "string \<Rightarrow> chars" where
  "codes s = map of_char s"

definition is_whitespace :: "nat \<Rightarrow> bool" where
  "is_whitespace c \<longleftrightarrow> (9 \<le> c \<and> c \<le> 13) \<or> c = 0x20 \<or> c = 0x85 \<or> c = 0xA0 \<or> c = 0x1680
     \<or> (0x2000 \<le> c \<and> c \<le> 0x200A) \<or> c = 0x2028 \<or> c = 0x2029 \<or> c = 0x202F \<or> c = 0x205F \<or> c = 0x3000"

definition is_ascii_whitespace :: "nat \<Rightarrow> bool" where
  "is_ascii_whitespace c \<longleftrightarrow> c = 9 \<or> c = 10 \<or> c = 12 \<or> c = 13 \<or> c = 32"

definition trim :: "chars \<Rightarrow> chars" where
  "trim s = rev (dropWhile is_whitespace (rev (dropWhile is_whitespace s)))"

definition strip_prefix :: "chars \<Rightarrow> chars \<Rightarrow> chars option" where
  "strip_prefix p s = (if take (length p) s = p then Some (drop (length p) s) else None)"

text \<open>\<open>splitn(2, ':')\<close>: the part before the first colon, and the part behind it if there is one.\<close>

definition split_colon :: "chars \<Rightarrow> chars \<times> chars option" where
  "split_colon s =
     (let (a, b) = (takeWhile (\<lambda>c. c \<noteq> 58) s, dropWhile (\<lambda>c. c \<noteq> 58) s)
      in (a, if b = [] then None else Some (tl b)))"

definition ascii_lower :: "nat \<Rightarrow> nat" where
  "ascii_lower c = (if 65 \<le> c \<and> c \<le> 90 then c + 32 else c)"

definition utf8_len :: "nat \<Rightarrow> nat" where
  "utf8_len c = (if c < 0x80 then 1 else if c < 0x800 then 2 else if c < 0x10000 then 3 else 4)"

text \<open>\<open>u8::from_str\<close>: an optional plus sign and at least one decimal digit, at most 255.\<close>

definition parse_u8 :: "chars \<Rightarrow> u8 option" where
  "parse_u8 s =
     (let ds = (case s of c # r \<Rightarrow> if c = 43 then r else s | [] \<Rightarrow> []);
          v = foldl (\<lambda>a d. a * 10 + (d - 48)) 0 ds
      in if ds \<noteq> [] \<and> list_all (\<lambda>d. 48 \<le> d \<and> d \<le> 57) ds \<and> v < 256 then Some (of_nat v) else None)"

text \<open>\<open>split(c)\<close>: the parts between the separators, at least one.\<close>

fun split_on :: "'a \<Rightarrow> 'a list \<Rightarrow> 'a list list" where
  "split_on c [] = [[]]"
| "split_on c (x # s) =
     (if x = c then [] # split_on c s
      else case split_on c s of [] \<Rightarrow> [[x]] | p # r \<Rightarrow> (x # p) # r)"

text \<open>\<open>str::lines\<close>: a line ends with a newline, before which a carriage return is dropped; what is behind the
  last newline is a line unless it is empty.\<close>

definition strip_cr :: "chars \<Rightarrow> chars" where
  "strip_cr s = (if s \<noteq> [] \<and> last s = 13 then butlast s else s)"

definition lines :: "chars \<Rightarrow> chars list" where
  "lines s = (let ps = split_on 10 s in map strip_cr (butlast ps) @ (if last ps = [] then [] else [last ps]))"

definition starts_with :: "chars \<Rightarrow> chars \<Rightarrow> bool" where
  "starts_with p s \<longleftrightarrow> take (length p) s = p"

definition ends_with :: "chars \<Rightarrow> chars \<Rightarrow> bool" where
  "ends_with p s \<longleftrightarrow> length p \<le> length s \<and> drop (length s - length p) s = p"

text \<open>
  \<open>Ipv4Addr::from_str\<close>: four octets separated by dots, each of one to three decimal digits without a
  leading zero and at most 255.
\<close>

definition parse_octet :: "chars \<Rightarrow> u8 option" where
  "parse_octet s =
     (let v = foldl (\<lambda>a d. a * 10 + (d - 48)) 0 s
      in if 1 \<le> length s \<and> length s \<le> 3 \<and> list_all (\<lambda>d. 48 \<le> d \<and> d \<le> 57) s
            \<and> (hd s = 48 \<longrightarrow> length s = 1) \<and> v < 256
         then Some (of_nat v) else None)"

definition parse_ipv4_addr :: "chars \<Rightarrow> ipv4_addr option" where
  "parse_ipv4_addr s =
     (case map parse_octet (split_on 46 s) of
        [Some a, Some b, Some c, Some d] \<Rightarrow> Some (ipv4_new a b c d)
      | _ \<Rightarrow> None)"

lemma split_on_not_Nil [simp]: "split_on c s \<noteq> []"
  by (induction s) (auto split: list.split)

lemma split_on_none: "c \<notin> set s \<Longrightarrow> split_on c s = [s]"
  by (induction s) auto

lemma split_on_append: "c \<notin> set a \<Longrightarrow> split_on c (a @ c # b) = a # split_on c b"
  by (induction a) auto

text \<open>\<open>[_].join(c)\<close>.\<close>

fun join :: "'a \<Rightarrow> 'a list list \<Rightarrow> 'a list" where
  "join c [] = []"
| "join c [p] = p"
| "join c (p # q # r) = p @ c # join c (q # r)"

lemma join_split_on [simp]: "join c (split_on c s) = s"
proof (induction s)
  case (Cons x s)
  obtain p r where "split_on c s = p # r" by (meson neq_Nil_conv split_on_not_Nil)
  then show ?case using Cons by (cases r) auto
qed simp

lemma split_on_parts: "p \<in> set (split_on c s) \<Longrightarrow> c \<notin> set p"
  by (induction s arbitrary: p) (auto split: if_splits list.splits)

lemma split_on_join: "ps \<noteq> [] \<Longrightarrow> (\<And>p. p \<in> set ps \<Longrightarrow> c \<notin> set p) \<Longrightarrow> split_on c (join c ps) = ps"
  by (induction c ps rule: join.induct) (auto simp: split_on_none split_on_append)

lemma ends_with_iff: "ends_with p s \<longleftrightarrow> (\<exists>q. s = q @ p)"
proof
  assume "ends_with p s"
  then have "s = take (length s - length p) s @ p" unfolding ends_with_def by (metis append_take_drop_id)
  then show "\<exists>q. s = q @ p" by blast
next
  assume "\<exists>q. s = q @ p"
  then show "ends_with p s" by (auto simp: ends_with_def)
qed

text \<open>What the lead byte of a UTF-8 sequence demands; and a dot always separates valid strings.\<close>

lemma utf8_valid_lead:
  obtains "\<And>r. utf8_valid (x # r) = utf8_valid r"
  | "\<And>r. utf8_valid (x # r) = (case r of b # r2 \<Rightarrow> utf8_cont b \<and> utf8_valid r2 | _ \<Rightarrow> False)"
  | P where "\<And>r. utf8_valid (x # r) = (case r of b # c # r3 \<Rightarrow> utf8_cont b \<and> P b \<and> utf8_cont c \<and> utf8_valid r3 | _ \<Rightarrow> False)"
  | P where "\<And>r. utf8_valid (x # r) =
      (case r of b # c # d # r4 \<Rightarrow> utf8_cont b \<and> P b \<and> utf8_cont c \<and> utf8_cont d \<and> utf8_valid r4 | _ \<Rightarrow> False)"
  | "\<And>r. \<not> utf8_valid (x # r)"
proof -
  consider "x \<le> 0x7F" | "\<not> x \<le> 0x7F" "0xC2 \<le> x \<and> x \<le> 0xDF"
    | "\<not> x \<le> 0x7F" "\<not> (0xC2 \<le> x \<and> x \<le> 0xDF)" "0xE0 \<le> x \<and> x \<le> 0xEF"
    | "\<not> x \<le> 0x7F" "\<not> (0xC2 \<le> x \<and> x \<le> 0xDF)" "\<not> (0xE0 \<le> x \<and> x \<le> 0xEF)" "0xF0 \<le> x \<and> x \<le> 0xF4"
    | "\<not> x \<le> 0x7F" "\<not> (0xC2 \<le> x \<and> x \<le> 0xDF)" "\<not> (0xE0 \<le> x \<and> x \<le> 0xEF)" "\<not> (0xF0 \<le> x \<and> x \<le> 0xF4)"
    by blast
  then show ?thesis
  proof cases
    case 1 then show ?thesis by (intro that(1)) simp
  next
    case 2 then show ?thesis by (intro that(2)) (simp only: utf8_valid.simps if_True if_False simp_thms)
  next
    case 3 then show ?thesis
      by (intro that(3) [of "\<lambda>b. (x = 0xE0 \<longrightarrow> 0xA0 \<le> b) \<and> (x = 0xED \<longrightarrow> b \<le> 0x9F)"])
        (simp only: utf8_valid.simps if_True if_False simp_thms conj_assoc)
  next
    case 4 then show ?thesis
      by (intro that(4) [of "\<lambda>b. (x = 0xF0 \<longrightarrow> 0x90 \<le> b) \<and> (x = 0xF4 \<longrightarrow> b \<le> 0x8F)"])
        (simp only: utf8_valid.simps if_True if_False simp_thms conj_assoc)
  next
    case 5 then show ?thesis by (intro that(5)) (simp only: utf8_valid.simps if_False simp_thms)
  qed
qed

lemma utf8_valid_split: "utf8_valid (a @ 46 # b) \<longleftrightarrow> utf8_valid a \<and> utf8_valid b"
proof (induction a rule: length_induct)
  case (1 a)
  then have IH: "length s < length a \<Longrightarrow> utf8_valid (s @ 46 # b) \<longleftrightarrow> utf8_valid s \<and> utf8_valid b" for s by blast
  have dot: "\<not> utf8_cont 46" by (simp add: utf8_cont_def)
  show ?case
  proof (cases a)
    case (Cons x r)
    note [simp del] = utf8_valid.simps(2)
    show ?thesis
    proof (rule utf8_valid_lead [of x])
      assume "\<And>r. utf8_valid (x # r) = utf8_valid r"
      then show ?thesis using IH [of r] Cons by simp
    next
      assume "\<And>r. utf8_valid (x # r) = (case r of b # r2 \<Rightarrow> utf8_cont b \<and> utf8_valid r2 | _ \<Rightarrow> False)"
      then show ?thesis using IH [of "tl r"] Cons dot by (cases r) simp_all
    next
      fix P
      assume "\<And>r. utf8_valid (x # r) = (case r of b # c # r3 \<Rightarrow> utf8_cont b \<and> P b \<and> utf8_cont c \<and> utf8_valid r3 | _ \<Rightarrow> False)"
      then show ?thesis using IH [of "tl (tl r)"] Cons dot by (cases r; cases "tl r") (simp_all split: list.split)
    next
      fix P
      assume "\<And>r. utf8_valid (x # r) =
        (case r of b # c # d # r4 \<Rightarrow> utf8_cont b \<and> P b \<and> utf8_cont c \<and> utf8_cont d \<and> utf8_valid r4 | _ \<Rightarrow> False)"
      then show ?thesis using IH [of "tl (tl (tl r))"] Cons dot
        by (cases r; cases "tl r"; cases "tl (tl r)") (simp_all split: list.split)
    qed (use Cons in simp)
  qed simp
qed
end
