(* ===== verification/Identity_Pin.thy ===== *)
theory Identity_Pin
  imports X3dh Rust_Strings
begin

text \<open>
  Pins of server identities and the chained rotation of identity keys: \<open>identity_pin.rs\<close>.

  A string is the list of its code points. The hash, the Base32 and hex codecs, the constant-time
  comparison and the Unicode uppercase mapping are the fields of \<open>pin_crates\<close>, and \<open>pin_ok\<close> states what their
  documentation promises.
\<close>

section \<open>Pins\<close>

record pin_crates =
  sha256 :: "bytes \<Rightarrow> bytes"
  base32_encode :: "bytes \<Rightarrow> chars"
  base32_decode :: "chars \<Rightarrow> bytes option"
  hex_decode :: "chars \<Rightarrow> bytes option"
  ct_eq :: "bytes \<Rightarrow> bytes \<Rightarrow> bool"
  char_upper :: "nat \<Rightarrow> chars"

definition pin_ok :: "pin_crates \<Rightarrow> bool" where
  "pin_ok K \<longleftrightarrow> (\<forall>b. length (sha256 K b) = 32)
     \<and> (\<forall>b. base32_decode K (base32_encode K b) = Some b)
     \<and> (\<forall>b c. c \<in> set (base32_encode K b) \<longrightarrow> (65 \<le> c \<and> c \<le> 90) \<or> (50 \<le> c \<and> c \<le> 55))
     \<and> (\<forall>s b. hex_decode K s = Some b \<longrightarrow> length s = 2 * length b \<and> list_all (\<lambda>c. c < 128) s)
     \<and> (\<forall>a b. ct_eq K a b \<longleftrightarrow> a = b)
     \<and> (\<forall>c. c < 128 \<longrightarrow> char_upper K c = [if 97 \<le> c \<and> c \<le> 122 then c - 32 else c])"

datatype pin_error =
    InvalidKeyLength nat
  | PinMissingBody
  | InvalidPinVersion chars
  | UnknownPinVersion u8
  | NotBase32
  | WrongBodyLength nat
  | HexDecodeError
  | UnexpectedLength nat
  | RotationVersion u32 u32
  | NotAnEd25519Point
  | RotationSignatureInvalid

definition PIN_PREFIX :: chars where
  "PIN_PREFIX = codes ''ik:''"

definition PIN_VERSION :: u8 where
  "PIN_VERSION = 1"

definition IDENTITY_KEY_LEN :: nat where
  "IDENTITY_KEY_LEN = 32"

record parsed_pin =
  pin_version :: u8
  pin_hash :: bytes

definition constant_time_eq :: "pin_crates \<Rightarrow> bytes \<Rightarrow> bytes \<Rightarrow> bool" where
  "constant_time_eq K a b = ct_eq K a b"

text \<open>The version is printed in decimal; it is the constant 1.\<close>

definition to_canonical :: "pin_crates \<Rightarrow> parsed_pin \<Rightarrow> chars" where
  "to_canonical K p = PIN_PREFIX @ codes ''1'' @ codes '':'' @ map ascii_lower (base32_encode K (pin_hash p))"

definition encode_identity_pin :: "pin_crates \<Rightarrow> bytes \<Rightarrow> (pin_error, chars) outcome" where
  "encode_identity_pin K key =
     (if length key \<noteq> IDENTITY_KEY_LEN then Err (InvalidKeyLength (length key))
      else let hash = sha256 K key
           in Ok (PIN_PREFIX @ codes ''1'' @ codes '':'' @ map ascii_lower (base32_encode K hash)))"

definition parse_pin :: "pin_crates \<Rightarrow> chars \<Rightarrow> (pin_error, parsed_pin) outcome" where
  "parse_pin K input =
     (let trimmed = trim input in
      case strip_prefix PIN_PREFIX trimmed of
        Some rest \<Rightarrow>
          (let (version_str, body_opt) = split_colon rest in
           and_then (ok_or PinMissingBody body_opt) (\<lambda>body.
           and_then (ok_or (InvalidPinVersion version_str) (parse_u8 version_str)) (\<lambda>version.
           if version \<noteq> PIN_VERSION then Err (UnknownPinVersion version)
           else let body_upper = concat (map (char_upper K) (trim body)) in
           and_then (ok_or NotBase32 (base32_decode K body_upper)) (\<lambda>hash_vec.
           if length hash_vec \<noteq> 32 then Err (WrongBodyLength (length hash_vec))
           else Ok \<lparr>pin_version = version, pin_hash = hash_vec\<rparr>))))
      | None \<Rightarrow>
          (let hex_only = filter (\<lambda>c. \<not> is_ascii_whitespace c \<and> c \<noteq> 58) trimmed;
               n = sum_list (map utf8_len hex_only) in
           if n = 64 then
             and_then (ok_or HexDecodeError (hex_decode K hex_only)) (\<lambda>bytes.
             if length bytes \<noteq> 32 then Err (WrongBodyLength (length bytes))
             else Ok \<lparr>pin_version = PIN_VERSION, pin_hash = bytes\<rparr>)
           else if n = 32 then
             and_then (ok_or HexDecodeError (hex_decode K hex_only)) (\<lambda>bytes.
             if length bytes \<noteq> 16 then Panic
             else Ok \<lparr>pin_version = 0, pin_hash = bytes @ replicate 16 0\<rparr>)
           else Err (UnexpectedLength n)))"

definition pins_match :: "pin_crates \<Rightarrow> chars \<Rightarrow> bytes \<Rightarrow> (pin_error, bool) outcome" where
  "pins_match K stored actual_identity_key =
     and_then (parse_pin K stored) (\<lambda>parsed.
     if pin_version parsed = 0 then
       (if length actual_identity_key < 16 then Ok False
        else and_then (bslice (pin_hash parsed) 0 16) (\<lambda>a.
             and_then (bslice actual_identity_key 0 16) (\<lambda>b. Ok (constant_time_eq K a b))))
     else let actual_hash = sha256 K actual_identity_key
          in Ok (constant_time_eq K (pin_hash parsed) actual_hash))"

section \<open>Rotation\<close>

text \<open>The conversion of the old key to an array of 32 bytes is unwrapped, so it panics on any other length.\<close>

definition rotation_signature_message :: "bytes \<Rightarrow> u32 \<Rightarrow> bytes" where
  "rotation_signature_message new_identity_pub new_version = new_identity_pub @ to_le_bytes 4 new_version"

definition verify_rotation_signature :: "ed25519_crate \<Rightarrow> bytes \<Rightarrow> u32 \<Rightarrow> bytes \<Rightarrow> u32 \<Rightarrow> bytes
    \<Rightarrow> (pin_error, unit) outcome" where
  "verify_rotation_signature E prev_identity_pub prev_version new_identity_pub new_version rotation_signature =
     (if length prev_identity_pub \<noteq> IDENTITY_KEY_LEN then Err (InvalidKeyLength (length prev_identity_pub))
      else if length new_identity_pub \<noteq> IDENTITY_KEY_LEN then Err (InvalidKeyLength (length new_identity_pub))
      else if new_version \<noteq> prev_version + 1 then Err (RotationVersion prev_version new_version)
      else and_then (if length prev_identity_pub = 32 then Ok prev_identity_pub else Panic) (\<lambda>key_arr.
           if \<not> ed_key_valid E key_arr then Err NotAnEd25519Point
           else let message = rotation_signature_message new_identity_pub new_version
                in if ed_verify E key_arr message rotation_signature then Ok ()
                   else Err RotationSignatureInvalid))"

section \<open>Reading back a canonical pin\<close>

lemma pin_okD:
  assumes "pin_ok K"
  shows pin_ok_sha: "length (sha256 K b) = 32"
    and pin_ok_base32: "base32_decode K (base32_encode K b) = Some b"
    and pin_ok_ct: "ct_eq K x y \<longleftrightarrow> x = y"
  using assms by (simp_all add: pin_ok_def)

lemma pin_ok_alphabet:
  "pin_ok K \<Longrightarrow> c \<in> set (base32_encode K b) \<Longrightarrow> (65 \<le> c \<and> c \<le> 90) \<or> (50 \<le> c \<and> c \<le> 55)"
  unfolding pin_ok_def by blast

lemma pin_ok_upper:
  "pin_ok K \<Longrightarrow> c < 128 \<Longrightarrow> char_upper K c = [if 97 \<le> c \<and> c \<le> 122 then c - 32 else c]"
  by (simp add: pin_ok_def)

lemma pin_ok_hex: "pin_ok K \<Longrightarrow> hex_decode K s = Some b \<Longrightarrow> length s = 2 * length b \<and> list_all (\<lambda>c. c < 128) s"
  by (simp add: pin_ok_def)

lemma ascii_whitespace: "is_ascii_whitespace c \<Longrightarrow> is_whitespace c"
  by (auto simp: is_ascii_whitespace_def is_whitespace_def)

lemma trim_ws:
  assumes "list_all is_whitespace a" "list_all is_whitespace b" "s \<noteq> []" "\<not> is_whitespace (hd s)" "\<not> is_whitespace (last s)"
  shows "trim (a @ s @ b) = s"
proof -
  have "dropWhile is_whitespace (a @ s @ b) = s @ b"
    using assms(1,3,4) by (cases s) (auto simp: dropWhile_append list_all_iff)
  moreover have "dropWhile is_whitespace (rev b @ rev s) = rev s"
    using assms(2,3,5) by (cases s rule: rev_cases) (auto simp: dropWhile_append list_all_iff)
  ultimately show ?thesis by (simp add: trim_def)
qed

lemma base32_lower:
  assumes "pin_ok K" "c \<in> set (base32_encode K b)"
  shows "\<not> is_whitespace (ascii_lower c)" "char_upper K (ascii_lower c) = [c]"
  using pin_ok_alphabet [OF assms] pin_ok_upper [OF assms(1), of "ascii_lower c"]
  by (auto simp: is_whitespace_def ascii_lower_def split: if_splits)

lemma parse_pin_canonical:
  assumes "pin_ok K" "length h = 32" "list_all is_whitespace a" "list_all is_whitespace z"
  shows "parse_pin K (a @ to_canonical K \<lparr>pin_version = v, pin_hash = h\<rparr> @ z) = Ok \<lparr>pin_version = 1, pin_hash = h\<rparr>"
proof -
  let ?body = "map ascii_lower (base32_encode K h)"
  have c: "to_canonical K \<lparr>pin_version = v, pin_hash = h\<rparr> = [105, 107, 58, 49, 58] @ ?body"
    by (simp add: to_canonical_def PIN_PREFIX_def codes_def)
  have "\<not> is_whitespace (last ([105, 107, 58, 49, 58] @ ?body))"
    using base32_lower(1) [OF assms(1), of "last (base32_encode K h)" h]
    by (cases "base32_encode K h = []") (auto simp: last_map is_whitespace_def)
  then have t: "trim (a @ ([105, 107, 58, 49, 58] @ ?body) @ z) = [105, 107, 58, 49, 58] @ ?body"
    using assms(3,4) by (intro trim_ws) (simp_all add: is_whitespace_def)
  have "trim ?body = ?body"
    using trim_ws [of "[]" "[]" ?body] base32_lower(1) [OF assms(1), of "hd (base32_encode K h)" h]
      base32_lower(1) [OF assms(1), of "last (base32_encode K h)" h]
    by (cases "base32_encode K h = []") (auto simp: trim_def hd_map last_map)
  moreover have "concat (map (char_upper K) ?body) = base32_encode K h"
    using base32_lower(2) [OF assms(1)] by (simp add: comp_def concat_map_singleton cong: map_cong)
  moreover have "split_colon (49 # 58 # ?body) = ([49], Some ?body)"
    by (simp add: split_colon_def)
  moreover have "parse_u8 [49] = Some 1" by (simp add: parse_u8_def)
  ultimately show ?thesis
    using assms(1,2) unfolding parse_pin_def c t Let_def
    by (simp add: strip_prefix_def PIN_PREFIX_def codes_def PIN_VERSION_def pin_ok_base32)
qed

lemma encode_identity_pin_canonical:
  "length key = 32 \<Longrightarrow> encode_identity_pin K key = Ok (to_canonical K \<lparr>pin_version = 1, pin_hash = sha256 K key\<rparr>)"
  by (simp add: encode_identity_pin_def to_canonical_def IDENTITY_KEY_LEN_def)

lemma hex_decode_length:
  assumes "pin_ok K" "hex_decode K s = Some b" "sum_list (map utf8_len s) = n"
  shows "2 * length b = n"
proof -
  have "map utf8_len s = map (\<lambda>_. 1) s"
    using pin_ok_hex [OF assms(1,2)] by (auto simp: list_all_iff utf8_len_def)
  with pin_ok_hex [OF assms(1,2)] assms(3) show ?thesis by (simp add: sum_list_triv)
qed

lemma parse_pin_hash:
  assumes "pin_ok K"
  shows "parse_pin K input \<noteq> Panic" and "parse_pin K input = Ok p \<Longrightarrow> length (pin_hash p) = 32"
  using hex_decode_length [OF assms _ refl, of "filter (\<lambda>c. \<not> is_ascii_whitespace c \<and> c \<noteq> 58) (trim input)"]
  by (auto simp: parse_pin_def Let_def case_prod_unfold ok_or_def split: option.splits if_splits)

lemma pins_match_no_panic: "pin_ok K \<Longrightarrow> pins_match K stored key \<noteq> Panic"
  using parse_pin_hash [of K stored]
  by (cases "parse_pin K stored") (simp_all add: pins_match_def Let_def)

lemma rotation_message_inj:
  assumes "length a = length b" "rotation_signature_message a v = rotation_signature_message b w"
  shows "a = b \<and> v = w"
proof -
  have "a = b" "to_le_bytes 4 v = to_le_bytes 4 w"
    using assms by (simp_all add: rotation_signature_message_def)
  then show ?thesis by (metis le_roundtrips(1))
qed

section \<open>A concrete instance of the crates\<close>

fun demo_unletters :: "chars \<Rightarrow> bytes option" where
  "demo_unletters [] = Some []"
| "demo_unletters [c] = None"
| "demo_unletters (c # d # r) = map_option (Cons (of_nat ((c - 65) * 16 + (d - 65)))) (demo_unletters r)"

definition demo_pin_crates :: pin_crates where
  "demo_pin_crates = \<lparr>
     sha256 = \<lambda>b. demo_mix b 32,
     base32_encode = \<lambda>b. concat (map (\<lambda>x. [65 + unat x div 16, 65 + unat x mod 16]) b),
     base32_decode = demo_unletters,
     hex_decode = \<lambda>s. None,
     ct_eq = \<lambda>a b. a = b,
     char_upper = \<lambda>c. [if 97 \<le> c \<and> c \<le> 122 then c - 32 else c]\<rparr>"

lemma demo_letters: "demo_unletters (concat (map (\<lambda>x. [65 + unat x div 16, 65 + unat x mod 16]) b)) = Some b"
  by (induction b) simp_all

lemma nibble_bounds: "unat (x :: u8) div 16 \<le> 15" "unat (x :: u8) mod 16 \<le> 15"
proof -
  have "unat x < 16 * 16" using unsigned_less [of x, where 'a = nat] by simp
  then have "unat x div 16 < 16" by (rule less_mult_imp_div_less)
  then show "unat x div 16 \<le> 15" by simp
qed simp

lemma demo_pin_ok: "pin_ok demo_pin_crates"
proof -
  have "65 + unat x div 16 \<le> 90" "65 + unat x mod 16 \<le> 90" for x :: u8
    using nibble_bounds [of x] by linarith+
  then have "c \<in> set (base32_encode demo_pin_crates b) \<Longrightarrow> 65 \<le> c \<and> c \<le> 90" for b c
    by (auto simp: demo_pin_crates_def)
  then show ?thesis
    unfolding pin_ok_def by (simp add: demo_mix_def demo_letters demo_pin_crates_def)
qed

section \<open>Properties\<close>

text \<open>C26: the canonical pin of an identity key, read back with any whitespace around it, matches exactly the
  keys that have the same SHA-256 hash; comparing never panics, whatever string is stored.\<close>

theorem identity_pin_matches:
  assumes "pin_ok K" "length key = 32" "list_all is_whitespace a" "list_all is_whitespace z"
  shows "\<exists>pin. encode_identity_pin K key = Ok pin
      \<and> pins_match K (a @ pin @ z) key' = Ok (sha256 K key' = sha256 K key)
      \<and> pins_match K stored key' \<noteq> Panic"
  using encode_identity_pin_canonical [OF assms(2), of K]
    parse_pin_canonical [OF assms(1) pin_ok_sha [OF assms(1), of key] assms(3,4), of 1]
    pins_match_no_panic [OF assms(1)] pin_ok_ct [OF assms(1)]
  by (auto simp: pins_match_def constant_time_eq_def)

theorem identity_pin_matches_witness:
  "\<exists>pin. encode_identity_pin demo_pin_crates (replicate 32 7) = Ok pin
      \<and> pins_match demo_pin_crates ([32] @ pin @ [10]) (replicate 32 7) = Ok True"
proof -
  have "length (replicate 32 (7 :: u8)) = 32" "list_all is_whitespace [32]" "list_all is_whitespace [10]"
    by (simp_all only: length_replicate) (simp_all add: is_whitespace_def)
  from identity_pin_matches [OF demo_pin_ok this, of "replicate 32 7" "[]"] show ?thesis by metis
qed

text \<open>A rotation of the pinned identity is accepted exactly when both keys have 32 bytes, the version is
  the successor of the pinned one modulo 2^32, the old key is a valid point, and the signature verifies
  under the old key on the new key followed by the new version in little-endian order. The signed bytes
  determine the new key and the new version.\<close>

lemma rotation_accepted_iff:
  "(verify_rotation_signature E old v new v' sig = Ok () \<longleftrightarrow>
      length old = 32 \<and> length new = 32 \<and> v' = v + 1 \<and> ed_key_valid E old
      \<and> ed_verify E old (new @ to_le_bytes 4 v') sig)
   \<and> verify_rotation_signature E old v new v' sig \<noteq> Panic
   \<and> inj_on (\<lambda>(k, w). rotation_signature_message k w) {(k, w). length k = 32}"
  using rotation_message_inj
  by (auto simp: verify_rotation_signature_def IDENTITY_KEY_LEN_def Let_def rotation_signature_message_def
      intro!: inj_onI)

text \<open>A pin written with spaces around its separators is refused. For every 52-character body, the string
  \<open>ik : 1 : <body>\<close> is not recognised as a canonical pin but counted as 55 hex digits.\<close>

lemma spaced_pin_refused:
  assumes "length body = 52" "list_all (\<lambda>c. c < 128 \<and> \<not> is_whitespace c \<and> c \<noteq> 58) body"
  shows "parse_pin K (codes ''ik : 1 : '' @ body) = Err (UnexpectedLength 55)"
proof -
  have b: "body \<noteq> []" using assms(1) by auto
  then have "\<not> is_whitespace (last body)" using assms(2) by (simp add: list_all_iff)
  have t: "trim (codes ''ik : 1 : '' @ body) = codes ''ik : 1 : '' @ body"
    using trim_ws [of "[]" "[]" "codes ''ik : 1 : '' @ body"] b \<open>\<not> is_whitespace (last body)\<close>
    by (simp add: codes_def is_whitespace_def)
  have "filter (\<lambda>c. \<not> is_ascii_whitespace c \<and> c \<noteq> 58) body = body"
    using assms(2) ascii_whitespace by (simp add: list_all_iff filter_id_conv) blast
  moreover have "map utf8_len body = map (\<lambda>_. 1) body"
    using assms(2) by (auto simp: list_all_iff utf8_len_def)
  then have "sum_list (map utf8_len body) = 52" using assms(1) by (simp only: sum_list_triv length_map) simp
  moreover have "filter (\<lambda>c. \<not> is_ascii_whitespace c \<and> c \<noteq> 58) (codes ''ik : 1 : '') = codes ''ik1''"
    by (simp add: codes_def is_ascii_whitespace_def)
  moreover have "sum_list (map utf8_len (codes ''ik1'')) = 3" by (simp add: codes_def utf8_len_def)
  moreover have "strip_prefix PIN_PREFIX (codes ''ik : 1 : '' @ body) = None"
    by (simp add: strip_prefix_def PIN_PREFIX_def codes_def)
  ultimately show ?thesis
    unfolding parse_pin_def t Let_def by simp
qed

end
