(* ===== verification/Multiplex.thy ===== *)
theory Multiplex
  imports Rvpn_Prelude
begin

text \<open>
  Multiplexed frames of \<open>protocol/multiplex.rs\<close>: a 4-byte flow id, a 2-byte payload length and the payload,
  the parser of a buffer of frames, and the streaming \<open>FrameCodec\<close>.

  The accessors of the \<open>bytes\<close> crate are the fields of \<open>bytes_crate\<close>, with \<open>bytes_ok\<close> stating their
  documentation; \<open>None\<close> is the documented panic on too few bytes. A \<open>Bytes\<close> or \<open>BytesMut\<close> value is its contents. The
  \<open>bincode\<close> codec of control messages is the record \<open>control_crate\<close>.
\<close>

section \<open>Crates\<close>

record bytes_crate =
  put_u32 :: "bytes \<Rightarrow> u32 \<Rightarrow> bytes"
  put_u16 :: "bytes \<Rightarrow> u16 \<Rightarrow> bytes"
  extend_from_slice :: "bytes \<Rightarrow> bytes \<Rightarrow> bytes"
  get_u32 :: "bytes \<Rightarrow> (u32 \<times> bytes) option"
  get_u16 :: "bytes \<Rightarrow> (u16 \<times> bytes) option"
  split_to :: "nat \<Rightarrow> bytes \<Rightarrow> (bytes \<times> bytes) option"

definition bytes_ok :: "bytes_crate \<Rightarrow> bool" where
  "bytes_ok R \<longleftrightarrow>
     (\<forall>b x. put_u32 R b x = b @ to_be_bytes 4 x)
     \<and> (\<forall>b x. put_u16 R b x = b @ to_be_bytes 2 x)
     \<and> (\<forall>b x. extend_from_slice R b x = b @ x)
     \<and> (\<forall>b. get_u32 R b = (if 4 \<le> length b then Some (from_be_bytes (take 4 b), drop 4 b) else None))
     \<and> (\<forall>b. get_u16 R b = (if 2 \<le> length b then Some (from_be_bytes (take 2 b), drop 2 b) else None))
     \<and> (\<forall>n b. split_to R n b = (if n \<le> length b then Some (take n b, drop n b) else None))"

section \<open>Frames and control messages\<close>

definition MAX_PAYLOAD_SIZE :: nat where
  "MAX_PAYLOAD_SIZE = 65535"

definition CONTROL_FLOW_ID :: u32 where
  "CONTROL_FLOW_ID = 0"

definition INITIAL_FLOW_WINDOW :: u32 where
  "INITIAL_FLOW_WINDOW = 256 * 1024"

record frame =
  flow_id :: u32
  payload :: bytes

datatype control_message =
    CreateFlow u32 bytes u16
  | CloseFlow u32
  | FlowCreated u32 "u16 option"
  | FlowFailed u32 bytes
  | Ping u64
  | Pong u64
  | WindowUpdate u32 u32

record control_crate =
  control_serialize :: "control_message \<Rightarrow> bytes option"
  control_deserialize :: "bytes \<Rightarrow> control_message option"

definition control_ok :: "control_crate \<Rightarrow> bool" where
  "control_ok B \<longleftrightarrow> (\<forall>m b. control_serialize B m = Some b \<longrightarrow> control_deserialize B b = Some m)"

datatype multiplex_error =
    FrameTooLarge nat nat
  | InvalidFrame string
  | IncompleteData nat nat
  | SerializationError

definition new_data :: "u32 \<Rightarrow> bytes \<Rightarrow> frame" where
  "new_data fid p = \<lparr>flow_id = fid, payload = p\<rparr>"

definition new_control :: "control_crate \<Rightarrow> control_message \<Rightarrow> (multiplex_error, frame) outcome" where
  "new_control B m =
     and_then (ok_or SerializationError (control_serialize B m)) (\<lambda>p.
     Ok \<lparr>flow_id = CONTROL_FLOW_ID, payload = p\<rparr>)"

definition frame_encode :: "bytes_crate \<Rightarrow> frame \<Rightarrow> (multiplex_error, bytes) outcome" where
  "frame_encode R f =
     (if length (payload f) > MAX_PAYLOAD_SIZE then Err (FrameTooLarge (length (payload f)) MAX_PAYLOAD_SIZE)
      else let buf = put_u32 R [] (flow_id f);
               buf = put_u16 R buf (of_nat (length (payload f)));
               buf = extend_from_slice R buf (payload f)
           in Ok buf)"

definition frame_encode_to :: "bytes_crate \<Rightarrow> frame \<Rightarrow> bytes \<Rightarrow> (multiplex_error, unit) outcome \<times> bytes" where
  "frame_encode_to R f dst =
     (if length (payload f) > MAX_PAYLOAD_SIZE
      then (Err (FrameTooLarge (length (payload f)) MAX_PAYLOAD_SIZE), dst)
      else let dst = put_u32 R dst (flow_id f);
               dst = put_u16 R dst (of_nat (length (payload f)));
               dst = extend_from_slice R dst (payload f)
           in (Ok (), dst))"

definition or_panic :: "'a option \<Rightarrow> ('e, 'a) outcome" where
  "or_panic x = (case x of None \<Rightarrow> Panic | Some a \<Rightarrow> Ok a)"

definition frame_decode :: "bytes_crate \<Rightarrow> bytes \<Rightarrow> (multiplex_error, frame) outcome" where
  "frame_decode R data =
     (if length data < 6 then Err (IncompleteData 6 (length data))
      else and_then (or_panic (get_u32 R data)) (\<lambda>(fid, cursor).
           and_then (or_panic (get_u16 R cursor)) (\<lambda>(len, cursor).
           let payload_len = unat len in
           if length data < 6 + payload_len then Err (IncompleteData (6 + payload_len) (length data))
           else and_then (bslice data 6 (6 + payload_len)) (\<lambda>p.
                Ok \<lparr>flow_id = fid, payload = p\<rparr>))))"

definition decode_from_buffer :: "bytes_crate \<Rightarrow> bytes \<Rightarrow> (multiplex_error, frame option) outcome \<times> bytes" where
  "decode_from_buffer R buf =
     (if length buf < 6 then (Ok None, buf)
      else case idxs buf 4 2 of
        Err e \<Rightarrow> (Err e, buf)
      | Panic \<Rightarrow> (Panic, buf)
      | Ok len_bytes \<Rightarrow>
          (let payload_len = unat (from_be_bytes len_bytes :: u16);
               total_len = 6 + payload_len
           in if length buf < total_len then (Ok None, buf)
              else case idxs buf 0 4 of
                Err e \<Rightarrow> (Err e, buf)
              | Panic \<Rightarrow> (Panic, buf)
              | Ok id_bytes \<Rightarrow>
                  (case split_to R total_len buf of
                     None \<Rightarrow> (Panic, buf)
                   | Some (frame_buf, buf) \<Rightarrow>
                       (and_then (bslice frame_buf 6 (length frame_buf)) (\<lambda>p.
                          Ok (Some \<lparr>flow_id = from_be_bytes id_bytes, payload = p\<rparr>)), buf))))"

definition is_control :: "frame \<Rightarrow> bool" where
  "is_control f = (flow_id f = CONTROL_FLOW_ID)"

definition parse_control :: "control_crate \<Rightarrow> frame \<Rightarrow> (multiplex_error, control_message) outcome" where
  "parse_control B f =
     (if \<not> is_control f then Err (InvalidFrame ''Not a control frame'')
      else ok_or SerializationError (control_deserialize B (payload f)))"

definition frame_size :: "frame \<Rightarrow> nat" where
  "frame_size f = 6 + length (payload f)"

section \<open>Parsing a buffer\<close>

function parse_frames_loop :: "bytes_crate \<Rightarrow> bytes \<Rightarrow> frame list \<Rightarrow> nat \<Rightarrow> ('e, frame list \<times> nat) outcome" where
  "parse_frames_loop R data frames pos =
     (if pos + 6 \<le> length data then
        (case idxs data (pos + 4) 2 of
           Err e \<Rightarrow> Err e
         | Panic \<Rightarrow> Panic
         | Ok len_bytes \<Rightarrow>
             (let payload_len = unat (from_be_bytes len_bytes :: u16);
                  total_len = 6 + payload_len
              in if pos + total_len > length data then Ok (frames, pos)
                 else case bslice data pos (pos + total_len) of
                   Err e \<Rightarrow> Err e
                 | Panic \<Rightarrow> Panic
                 | Ok chunk \<Rightarrow>
                     (case frame_decode R chunk of
                        Ok f \<Rightarrow> parse_frames_loop R data (frames @ [f]) (pos + total_len)
                      | Err e \<Rightarrow> Ok (frames, pos)
                      | Panic \<Rightarrow> Panic)))
      else Ok (frames, pos))"
  by pat_completeness auto

termination parse_frames_loop
  by (relation "measure (\<lambda>(R, data, frames, pos). length data - pos)") auto

declare parse_frames_loop.simps [simp del]

definition parse_frames :: "bytes_crate \<Rightarrow> bytes \<Rightarrow> ('e, frame list \<times> nat) outcome" where
  "parse_frames R data = parse_frames_loop R data [] 0"

section \<open>The streaming codec\<close>

record frame_codec =
  codec_buffer :: bytes

definition codec_new :: frame_codec where
  "codec_new = \<lparr>codec_buffer = []\<rparr>"

definition codec_with_capacity :: "nat \<Rightarrow> frame_codec" where
  "codec_with_capacity capacity = \<lparr>codec_buffer = []\<rparr>"

definition codec_feed :: "bytes_crate \<Rightarrow> frame_codec \<Rightarrow> bytes \<Rightarrow> frame_codec" where
  "codec_feed R c data = c\<lparr>codec_buffer := extend_from_slice R (codec_buffer c) data\<rparr>"

definition codec_decode_next :: "bytes_crate \<Rightarrow> frame_codec \<Rightarrow> (multiplex_error, frame option) outcome \<times> frame_codec" where
  "codec_decode_next R c =
     (if length (codec_buffer c) < 6 then (Ok None, c)
      else case idxs (codec_buffer c) 4 2 of
        Err e \<Rightarrow> (Err e, c)
      | Panic \<Rightarrow> (Panic, c)
      | Ok len_bytes \<Rightarrow>
          (let payload_len = unat (from_be_bytes len_bytes :: u16);
               total_len = 6 + payload_len
           in if length (codec_buffer c) < total_len then (Ok None, c)
              else case split_to R total_len (codec_buffer c) of
                None \<Rightarrow> (Panic, c)
              | Some (frame_data, rest) \<Rightarrow>
                  (and_then (idxs frame_data 0 4) (\<lambda>id_bytes.
                   and_then (bslice frame_data 6 (length frame_data)) (\<lambda>p.
                     Ok (Some \<lparr>flow_id = from_be_bytes id_bytes, payload = p\<rparr>))),
                   c\<lparr>codec_buffer := rest\<rparr>)))"

definition codec_encode :: "bytes_crate \<Rightarrow> frame_codec \<Rightarrow> frame \<Rightarrow> (multiplex_error, bytes) outcome" where
  "codec_encode R c f = frame_encode R f"

definition codec_buffer_len :: "frame_codec \<Rightarrow> nat" where
  "codec_buffer_len c = length (codec_buffer c)"

definition codec_clear :: "frame_codec \<Rightarrow> frame_codec" where
  "codec_clear c = c\<lparr>codec_buffer := []\<rparr>"

section \<open>Reference parser\<close>

text \<open>
  What every decoder of the file implements: the first frame of a buffer and what is behind it, if the
  buffer holds a whole frame.
\<close>

definition first_frame :: "bytes \<Rightarrow> (frame \<times> bytes) option" where
  "first_frame b =
     (if length b < 6 then None
      else let n = unat (from_be_bytes (take 2 (drop 4 b)) :: u16)
           in if length b < 6 + n then None
              else Some (\<lparr>flow_id = from_be_bytes (take 4 b), payload = take n (drop 6 b)\<rparr>, drop (6 + n) b))"

definition wire :: "frame \<Rightarrow> bytes" where
  "wire f = to_be_bytes 4 (flow_id f) @ to_be_bytes 2 (of_nat (length (payload f)) :: u16) @ payload f"

lemma length_wire [simp]: "length (wire f) = frame_size f"
  by (simp add: wire_def frame_size_def)

lemma bytes_okD:
  assumes "bytes_ok R"
  shows "put_u32 R b x = b @ to_be_bytes 4 x" "put_u16 R b y = b @ to_be_bytes 2 y"
    "extend_from_slice R b z = b @ z"
    "get_u32 R b = (if 4 \<le> length b then Some (from_be_bytes (take 4 b), drop 4 b) else None)"
    "get_u16 R b = (if 2 \<le> length b then Some (from_be_bytes (take 2 b), drop 2 b) else None)"
    "split_to R n b = (if n \<le> length b then Some (take n b, drop n b) else None)"
  using assms by (simp_all add: bytes_ok_def)

lemma first_frame_wire:
  "length (payload f) \<le> 65535 \<Longrightarrow> first_frame (wire f @ r) = Some (f, r)"
  by (cases f) (simp add: first_frame_def wire_def Let_def)

lemma first_frame_Some_iff:
  "first_frame b = Some (f, r) \<longleftrightarrow> length (payload f) \<le> 65535 \<and> b = wire f @ r"
proof
  assume *: "first_frame b = Some (f, r)"
  define n where "n = unat (from_be_bytes (take 2 (drop 4 b)) :: u16)"
  have l: "6 + n \<le> length b" and f: "f = \<lparr>flow_id = from_be_bytes (take 4 b), payload = take n (drop 6 b)\<rparr>"
    and r: "r = drop (6 + n) b"
    using * by (auto simp: first_frame_def Let_def n_def split: if_splits)
  have n: "n < 65536" by (simp add: n_def)
  have "to_be_bytes 4 (from_be_bytes (take 4 b) :: u32) = take 4 b"
    "to_be_bytes 2 (of_nat n :: u16) = take 2 (drop 4 b)"
    using to_be_from_be_take [of 0 4 b, where 'a = 32] to_be_from_be_take [of 4 2 b, where 'a = 16] l
    by (simp_all add: n_def)
  then have "wire f = take 4 b @ take 2 (drop 4 b) @ take n (drop 6 b)"
    using l by (simp add: wire_def f)
  also have "\<dots> @ r = b"
    using take_drop_split [of 0 b 4] take_drop_split [of 4 b 2] take_drop_split [of 6 b n] by (simp add: r)
  finally show "length (payload f) \<le> 65535 \<and> b = wire f @ r" using n l f by simp
qed (simp add: first_frame_wire)

section \<open>The decoders implement the reference\<close>

lemma frame_encode_wire:
  assumes "bytes_ok R"
  shows "frame_encode R f = (if length (payload f) \<le> 65535 then Ok (wire f)
    else Err (FrameTooLarge (length (payload f)) 65535))"
  by (simp add: frame_encode_def bytes_okD [OF assms] wire_def MAX_PAYLOAD_SIZE_def)

lemma frame_encode_to_wire:
  assumes "bytes_ok R"
  shows "frame_encode_to R f dst = (if length (payload f) \<le> 65535 then (Ok (), dst @ wire f)
    else (Err (FrameTooLarge (length (payload f)) 65535), dst))"
  by (simp add: frame_encode_to_def bytes_okD [OF assms] wire_def MAX_PAYLOAD_SIZE_def)

lemma drop_6_take [simp]: "drop 6 (take (6 + n) b) = take n (drop 6 b)"
  by (simp add: drop_take)

lemma frame_decode_first:
  assumes "bytes_ok R"
  shows "frame_decode R data = (case first_frame data of Some (f, r) \<Rightarrow> Ok f
    | None \<Rightarrow> Err (IncompleteData (if length data < 6 then 6
        else 6 + unat (from_be_bytes (take 2 (drop 4 data)) :: u16)) (length data)))"
  by (cases "length data < 6")
     (simp_all add: frame_decode_def first_frame_def bytes_okD [OF assms] or_panic_def Let_def)

lemma decode_from_buffer_first:
  assumes "bytes_ok R"
  shows "decode_from_buffer R buf = (case first_frame buf of Some (f, r) \<Rightarrow> (Ok (Some f), r) | None \<Rightarrow> (Ok None, buf))"
  by (simp add: decode_from_buffer_def first_frame_def bytes_okD [OF assms] Let_def)

lemma codec_decode_next_first:
  assumes "bytes_ok R"
  shows "codec_decode_next R c = (case first_frame (codec_buffer c) of
      Some (f, r) \<Rightarrow> (Ok (Some f), c\<lparr>codec_buffer := r\<rparr>) | None \<Rightarrow> (Ok None, c))"
  by (simp add: codec_decode_next_def first_frame_def bytes_okD [OF assms] Let_def)

section \<open>Incremental parsing\<close>

text \<open>
  \<open>drains step b xs r\<close>: a caller that takes items off the buffer \<open>b\<close> until there is none gets \<open>xs\<close> and is left
  with \<open>r\<close>. \<open>feeds\<close> does so after each of a list of chunks appended to the buffer. The contract a
  streaming parser has to meet is that an item is recognised without looking behind it.
\<close>

inductive drains :: "(bytes \<Rightarrow> ('x \<times> bytes) option) \<Rightarrow> bytes \<Rightarrow> 'x list \<Rightarrow> bytes \<Rightarrow> bool" for step where
  stop: "step b = None \<Longrightarrow> drains step b [] b"
| more: "step b = Some (x, r) \<Longrightarrow> drains step r xs r' \<Longrightarrow> drains step b (x # xs) r'"

inductive_simps drains_Nil: "drains step b [] r"
inductive_simps drains_Cons: "drains step b (x # xs) r"

inductive feeds :: "(bytes \<Rightarrow> ('x \<times> bytes) option) \<Rightarrow> bytes \<Rightarrow> bytes list \<Rightarrow> 'x list \<Rightarrow> bytes \<Rightarrow> bool" for step where
  done_feeding: "feeds step b [] [] b"
| chunk: "drains step (b @ c) xs r \<Longrightarrow> feeds step r cs ys r' \<Longrightarrow> feeds step b (c # cs) (xs @ ys) r'"

locale incremental_parser =
  fixes step :: "bytes \<Rightarrow> ('x \<times> bytes) option"
  assumes step_shrinks: "step b = Some (x, r) \<Longrightarrow> length r < length b"
    and step_local: "step b = Some (x, r) \<Longrightarrow> step (b @ e) = Some (x, r @ e)"
begin

lemma drains_total: "\<exists>xs r. drains step b xs r"
proof (induction "length b" arbitrary: b rule: less_induct)
  case less
  show ?case
  proof (cases "step b")
    case None
    then show ?thesis using drains.stop by metis
  next
    case (Some p)
    then obtain x r where p: "step b = Some (x, r)" by (cases p) auto
    with less [OF step_shrinks [OF p]] show ?thesis using drains.more by metis
  qed
qed

lemma drains_unique:
  assumes "drains step b xs r" "drains step b ys r'"
  shows "xs = ys \<and> r = r'"
  using assms
proof (induction arbitrary: ys r' rule: drains.induct)
  case (stop b)
  from stop.prems stop.hyps show ?case by (auto elim: drains.cases)
next
  case (more b x r xs r'')
  from more.prems more.hyps(1) obtain zs where "ys = x # zs" "drains step r zs r'" by (cases) auto
  with more.IH show ?case by blast
qed

lemma drains_continue:
  assumes "drains step b xs r" "drains step (r @ e) ys r'"
  shows "drains step (b @ e) (xs @ ys) r'"
  using assms by (induction rule: drains.induct) (auto intro: drains.more step_local)

lemma drains_idle: "drains step b xs r \<Longrightarrow> drains step r [] r"
  by (induction rule: drains.induct) (auto intro: drains.stop)

lemma feeds_concat:
  assumes "feeds step b cs ys r'" "drains step b0 xs b"
  shows "drains step (b0 @ concat cs) (xs @ ys) r'"
  using assms
proof (induction arbitrary: xs b0 rule: feeds.induct)
  case (chunk b c ys r cs zs r')
  from drains_continue [OF chunk.prems chunk.hyps(1)] have "drains step (b0 @ c) (xs @ ys) r" .
  from chunk.IH [OF this] show ?case by simp
qed simp

lemma feeds_total: "\<exists>ys r. feeds step b cs ys r"
proof (induction cs arbitrary: b)
  case Nil
  then show ?case using feeds.done_feeding by blast
next
  case (Cons c cs)
  then show ?case using drains_total feeds.chunk by metis
qed

text \<open>Any two ways of cutting a stream into chunks give the same items and the same rest.\<close>

lemma chunking_irrelevant:
  assumes "step [] = None"
  shows "feeds step [] cs ys r \<longleftrightarrow> drains step (concat cs) ys r"
proof
  have start: "drains step [] [] []" using assms by (rule drains.stop)
  show "drains step (concat cs) ys r" if "feeds step [] cs ys r"
    using feeds_concat [OF that start] by simp
  show "feeds step [] cs ys r" if "drains step (concat cs) ys r"
  proof -
    obtain zs r' where f: "feeds step [] cs zs r'" using feeds_total by blast
    from feeds_concat [OF f start] have "drains step (concat cs) zs r'" by simp
    with drains_unique [OF that] f show ?thesis by simp
  qed
qed

end

interpretation frames: incremental_parser first_frame
proof
  show "length r < length b" if "first_frame b = Some (x, r)" for b x r
    using that by (auto simp: first_frame_Some_iff frame_size_def)
  show "first_frame (b @ e) = Some (x, r @ e)" if "first_frame b = Some (x, r)" for b x r e
    using that by (auto simp: first_frame_Some_iff)
qed

lemma drains_frames_iff:
  "drains first_frame b fs r \<longleftrightarrow>
     list_all (\<lambda>f. length (payload f) \<le> 65535) fs \<and> b = concat (map wire fs) @ r \<and> first_frame r = None"
proof (induction fs arbitrary: b)
  case Nil
  show ?case by (auto simp: drains_Nil)
next
  case (Cons f fs)
  show ?case by (auto simp: drains_Cons first_frame_Some_iff Cons.IH)
qed

lemma parse_frames_loop_at:
  assumes "pos + 6 \<le> length data"
  defines "n \<equiv> unat (from_be_bytes (take 2 (drop (pos + 4) data)) :: u16)"
  shows "parse_frames_loop R data frames pos =
    (if pos + (6 + n) > length data then Ok (frames, pos)
     else case frame_decode R (take (6 + n) (drop pos data)) of
        Ok f \<Rightarrow> parse_frames_loop R data (frames @ [f]) (pos + (6 + n))
      | Err e \<Rightarrow> Ok (frames, pos)
      | Panic \<Rightarrow> Panic)"
  unfolding n_def using assms(1) by (subst parse_frames_loop.simps) (simp add: Let_def)

lemma parse_frames_loop_step:
  assumes "bytes_ok R" "pos \<le> length data"
  shows "parse_frames_loop R data frames pos = (case first_frame (drop pos data) of
      None \<Rightarrow> Ok (frames, pos)
    | Some (f, r) \<Rightarrow> parse_frames_loop R data (frames @ [f]) (pos + frame_size f))"
proof (cases "pos + 6 \<le> length data")
  case False
  then show ?thesis by (subst parse_frames_loop.simps) (simp add: first_frame_def)
next
  case True
  define n where "n = unat (from_be_bytes (take 2 (drop (pos + 4) data)) :: u16)"
  have m: "unat (from_be_bytes (take 2 (drop 4 (drop pos data))) :: u16) = n"
    by (simp only: n_def drop_drop add.commute [of 4 pos])
  show ?thesis
  proof (cases "pos + (6 + n) \<le> length data")
    case False
    then have "first_frame (drop pos data) = None" by (simp only: first_frame_def Let_def m) auto
    with False show ?thesis by (simp add: parse_frames_loop_at [OF True, folded n_def])
  next
    case True': True
    define f where "f = \<lparr>flow_id = from_be_bytes (take 4 (drop pos data)), payload = take n (drop 6 (drop pos data))\<rparr>"
    have p: "first_frame (drop pos data) = Some (f, drop (6 + n) (drop pos data))"
      using True True' by (simp only: first_frame_def Let_def m f_def) auto
    then have w: "length (payload f) \<le> 65535" "drop pos data = wire f @ drop (6 + n) (drop pos data)"
      unfolding first_frame_Some_iff by blast+
    have s: "frame_size f = 6 + n" using True' by (simp add: frame_size_def f_def)
    then have "take (6 + n) (drop pos data) = wire f" by (subst w(2)) simp
    moreover have "frame_decode R (wire f) = Ok f"
      using first_frame_wire [OF w(1), of "[]"] by (simp add: frame_decode_first [OF assms(1)])
    ultimately show ?thesis
      using True' by (simp only: parse_frames_loop_at [OF True, folded n_def] p) (simp add: s)
  qed
qed

lemma parse_frames_loop_drains:
  assumes "bytes_ok R" "drains first_frame b fs r" "b = drop pos data" "pos \<le> length data"
  shows "parse_frames_loop R data frames pos = Ok (frames @ fs, length data - length r)"
  using assms(2-4)
proof (induction arbitrary: pos frames rule: drains.induct)
  case (stop b)
  then show ?case by (simp add: parse_frames_loop_step [OF assms(1)])
next
  case (more b x r xs r')
  then have w: "drop pos data = wire x @ r" by (simp add: first_frame_Some_iff)
  have "length (drop pos data) = frame_size x + length r" by (simp only: w length_append length_wire)
  then have l: "pos + frame_size x \<le> length data" using more.prems(2) by simp
  have "drop (pos + frame_size x) data = drop (frame_size x) (drop pos data)" by (simp add: add.commute)
  then have "r = drop (pos + frame_size x) data" by (simp add: w)
  from more.IH [OF this l] more.hyps(1) more.prems show ?case
    by (simp add: parse_frames_loop_step [OF assms(1)])
qed

lemma parse_frames_drains:
  assumes "bytes_ok R"
  shows "parse_frames R data = (Ok (fs, n) :: ('e, _) outcome) \<longleftrightarrow>
    (\<exists>r. drains first_frame data fs r \<and> n = length data - length r)"
proof -
  obtain gs r where d: "drains first_frame data gs r" using frames.drains_total by blast
  then have p: "parse_frames R data = (Ok (gs, length data - length r) :: ('e, _) outcome)"
    using parse_frames_loop_drains [OF assms d, of 0 data "[]"] by (simp add: parse_frames_def)
  show ?thesis
  proof
    show "\<exists>r. drains first_frame data fs r \<and> n = length data - length r" if "parse_frames R data = (Ok (fs, n) :: ('e, _) outcome)"
      using that p d by auto
    show "parse_frames R data = (Ok (fs, n) :: ('e, _) outcome)" if "\<exists>r. drains first_frame data fs r \<and> n = length data - length r"
      using that p frames.drains_unique [OF d] by blast
  qed
qed

section \<open>The codec in use\<close>

text \<open>
  The caller's loop over a codec: after each chunk that arrives it calls \<open>decode_next\<close> until there is no
  complete frame.
\<close>

inductive codec_drains :: "bytes_crate \<Rightarrow> frame_codec \<Rightarrow> frame list \<Rightarrow> frame_codec \<Rightarrow> bool" for R where
  codec_stop: "codec_decode_next R c = (Ok None, c') \<Longrightarrow> codec_drains R c [] c'"
| codec_more: "codec_decode_next R c = (Ok (Some f), c') \<Longrightarrow> codec_drains R c' fs c'' \<Longrightarrow> codec_drains R c (f # fs) c''"

inductive codec_session :: "bytes_crate \<Rightarrow> frame_codec \<Rightarrow> bytes list \<Rightarrow> frame list \<Rightarrow> frame_codec \<Rightarrow> bool" for R where
  codec_end: "codec_session R c [] [] c"
| codec_chunk: "codec_drains R (codec_feed R c chunk) fs c' \<Longrightarrow> codec_session R c' chunks gs c''
     \<Longrightarrow> codec_session R c (chunk # chunks) (fs @ gs) c''"

lemma codec_drains_iff:
  assumes "bytes_ok R"
  shows "codec_drains R c fs c' \<longleftrightarrow> drains first_frame (codec_buffer c) fs (codec_buffer c')"
proof
  show "drains first_frame (codec_buffer c) fs (codec_buffer c')" if "codec_drains R c fs c'"
    using that by (induction rule: codec_drains.induct)
      (auto simp: codec_decode_next_first [OF assms] intro: drains.intros split: option.splits)
  have "codec_drains R \<lparr>codec_buffer = b\<rparr> fs \<lparr>codec_buffer = r\<rparr>" if "drains first_frame b fs r" for b r
    using that by (induction rule: drains.induct)
      (auto intro: codec_drains.intros simp: codec_decode_next_first [OF assms])
  then show "codec_drains R c fs c'" if "drains first_frame (codec_buffer c) fs (codec_buffer c')"
    using that by (metis (full_types) frame_codec.surjective old.unit.exhaust)
qed

lemma codec_session_iff:
  assumes "bytes_ok R"
  shows "codec_session R c chunks fs c' \<longleftrightarrow> feeds first_frame (codec_buffer c) chunks fs (codec_buffer c')"
proof
  show "feeds first_frame (codec_buffer c) chunks fs (codec_buffer c')" if "codec_session R c chunks fs c'"
    using that by (induction rule: codec_session.induct)
      (auto simp: codec_drains_iff [OF assms] codec_feed_def bytes_okD [OF assms] intro: feeds.intros)
  have "codec_session R \<lparr>codec_buffer = b\<rparr> chunks fs \<lparr>codec_buffer = r\<rparr>" if "feeds first_frame b chunks fs r" for b r
    using that
  proof (induction rule: feeds.induct)
    case (chunk b c xs r cs ys r')
    then have "codec_drains R (codec_feed R \<lparr>codec_buffer = b\<rparr> c) xs \<lparr>codec_buffer = r\<rparr>"
      by (simp add: codec_drains_iff [OF assms] codec_feed_def bytes_okD [OF assms])
    then show ?case using chunk.IH by (rule codec_session.codec_chunk)
  qed (rule codec_session.codec_end)
  then show "codec_session R c chunks fs c'" if "feeds first_frame (codec_buffer c) chunks fs (codec_buffer c')"
    using that by (metis (full_types) frame_codec.surjective old.unit.exhaust)
qed

section \<open>Concrete crates\<close>

definition demo_bytes :: bytes_crate where
  "demo_bytes = \<lparr>
     put_u32 = \<lambda>b x. b @ to_be_bytes 4 x,
     put_u16 = \<lambda>b x. b @ to_be_bytes 2 x,
     extend_from_slice = \<lambda>b x. b @ x,
     get_u32 = \<lambda>b. (if 4 \<le> length b then Some (from_be_bytes (take 4 b), drop 4 b) else None),
     get_u16 = \<lambda>b. (if 2 \<le> length b then Some (from_be_bytes (take 2 b), drop 2 b) else None),
     split_to = \<lambda>n b. (if n \<le> length b then Some (take n b, drop n b) else None)\<rparr>"

definition demo_control :: control_crate where
  "demo_control = \<lparr>
     control_serialize = \<lambda>m. (case m of Ping t \<Rightarrow> Some (to_be_bytes 8 t) | _ \<Rightarrow> None),
     control_deserialize = \<lambda>b. Some (Ping (from_be_bytes b))\<rparr>"

lemma demo_bytes_ok: "bytes_ok demo_bytes"
  by (simp add: bytes_ok_def demo_bytes_def)

lemma demo_control_ok: "control_ok demo_control"
  by (auto simp: control_ok_def demo_control_def split: control_message.splits)

section \<open>Properties\<close>

text \<open>C9: parsing a buffer never panics and always ends. The frames it returns, encoded one after the other,
  are exactly the bytes it reports as consumed, and what is left does not hold a whole frame: nothing is
  lost, invented or reordered.\<close>

theorem parse_frames_exact:
  assumes "bytes_ok R"
  shows "\<exists>fs n ws. parse_frames R data = (Ok (fs, n) :: ('e, _) outcome) \<and> n \<le> length data
    \<and> list_all2 (\<lambda>f w. frame_encode R f = Ok w) fs ws \<and> take n data = concat ws
    \<and> fst (decode_from_buffer R (drop n data)) = Ok None"
proof -
  obtain fs r where d: "drains first_frame data fs r" using frames.drains_total by blast
  then have f: "list_all (\<lambda>f. length (payload f) \<le> 65535) fs" "data = concat (map wire fs) @ r" "first_frame r = None"
    by (simp_all add: drains_frames_iff)
  let ?n = "length data - length r"
  have "parse_frames R data = (Ok (fs, ?n) :: ('e, _) outcome)" using d by (auto simp: parse_frames_drains [OF assms])
  moreover have "take ?n data = concat (map wire fs)" "drop ?n data = r" using f(2) by simp_all
  moreover have "list_all2 (\<lambda>f w. frame_encode R f = Ok w) fs (map wire fs)"
    using f(1) by (simp add: frame_encode_wire [OF assms] list_all2_conv_all_nth list_all_length)
  ultimately show ?thesis
    using f(3) by (intro exI [of _ fs] exI [of _ ?n] exI [of _ "map wire fs"])
      (simp add: decode_from_buffer_first [OF assms])
qed

theorem parse_frames_exact_witness:
  "\<exists>fs n ws. parse_frames demo_bytes [0, 0, 0, 7, 0, 1, 42, 0, 0] = (Ok (fs, n) :: (nat, _) outcome)
    \<and> n \<le> length [0, 0, 0, 7, 0, 1, 42, 0, 0 :: u8]
    \<and> list_all2 (\<lambda>f w. frame_encode demo_bytes f = Ok w) fs ws \<and> take n [0, 0, 0, 7, 0, 1, 42, 0, 0] = concat ws
    \<and> fst (decode_from_buffer demo_bytes (drop n [0, 0, 0, 7, 0, 1, 42, 0, 0])) = Ok None"
  by (rule parse_frames_exact [OF demo_bytes_ok])

text \<open>C15: the streaming codec does not depend on how the stream is cut into chunks: with \<open>decode_next\<close> called
  until it is idle after every chunk, the frames and the bytes left in the buffer are those of parsing
  the whole stream at once.\<close>

theorem codec_ignores_chunking:
  assumes "bytes_ok R"
  shows "codec_session R codec_new chunks fs c \<longleftrightarrow>
    (\<exists>n. parse_frames R (concat chunks) = (Ok (fs, n) :: ('e, _) outcome) \<and> codec_buffer c = drop n (concat chunks))"
proof -
  have "codec_session R codec_new chunks fs c \<longleftrightarrow> drains first_frame (concat chunks) fs (codec_buffer c)"
    using frames.chunking_irrelevant [of chunks fs "codec_buffer c"]
    by (simp add: codec_session_iff [OF assms] codec_new_def first_frame_def)
  also have "\<dots> \<longleftrightarrow> (\<exists>n r. drains first_frame (concat chunks) fs r \<and> n = length (concat chunks) - length r
      \<and> codec_buffer c = drop n (concat chunks))"
    by (auto simp: drains_frames_iff)
  finally show ?thesis by (auto simp: parse_frames_drains [OF assms])
qed

theorem codec_ignores_chunking_witness:
  "codec_session demo_bytes codec_new
     [take 5 (wire \<lparr>flow_id = 7, payload = [42]\<rparr>), drop 5 (wire \<lparr>flow_id = 7, payload = [42]\<rparr>) @ [0]]
     [\<lparr>flow_id = 7, payload = [42]\<rparr>] \<lparr>codec_buffer = [0]\<rparr>"
proof -
  let ?f = "\<lparr>flow_id = 7, payload = [42]\<rparr>"
  let ?cs = "[take 5 (wire ?f), drop 5 (wire ?f) @ [0]]"
  have c: "concat ?cs = wire ?f @ [0]" by (simp only: concat.simps append_Nil2 append_assoc [symmetric] append_take_drop_id)
  have "drains first_frame (concat ?cs) [?f] [0]"
    unfolding c by (simp add: drains_frames_iff first_frame_def)
  then have "parse_frames demo_bytes (concat ?cs) = (Ok ([?f], length (concat ?cs) - length [0 :: u8]) :: (nat, _) outcome)"
    unfolding parse_frames_drains [OF demo_bytes_ok] by blast
  moreover have "[0] = drop (length (concat ?cs) - length [0 :: u8]) (concat ?cs)" unfolding c by simp
  ultimately show ?thesis
    unfolding codec_ignores_chunking [OF demo_bytes_ok, of ?cs, where 'e = nat] frame_codec.select_convs by blast
qed

text \<open>A control message whose serialisation fits a frame survives framing: the encoded frame, followed by
  anything, decodes to a control frame that parses to the message. A payload above 65535 bytes is
  refused with both sizes, and a frame of another flow is never taken for a control frame.\<close>

lemma control_message_roundtrip:
  assumes "bytes_ok R" "control_ok B" "new_control B m = Ok f"
  shows "(if length (payload f) \<le> 65535
      then \<exists>bs. frame_encode R f = Ok bs \<and> length bs = frame_size f
         \<and> (\<forall>rest. frame_decode R (bs @ rest) = Ok f) \<and> is_control f \<and> parse_control B f = Ok m
      else frame_encode R f = Err (FrameTooLarge (length (payload f)) 65535))
    \<and> (flow_id g \<noteq> 0 \<longrightarrow> parse_control B g = Err (InvalidFrame ''Not a control frame''))"
proof -
  have "flow_id f = 0" "control_serialize B m = Some (payload f)"
    using assms(3) by (auto simp: new_control_def and_then_Ok_iff ok_or_def CONTROL_FLOW_ID_def split: option.splits)
  then have "is_control f" "parse_control B f = Ok m"
    using assms(2) by (auto simp: parse_control_def is_control_def CONTROL_FLOW_ID_def control_ok_def)
  then show ?thesis
    by (auto simp: frame_encode_wire [OF assms(1)] frame_decode_first [OF assms(1)] first_frame_wire
        parse_control_def is_control_def CONTROL_FLOW_ID_def)
qed

end
