(* ===== verification/Flow_Credits.thy ===== *)
theory Flow_Credits
  imports Multiplex
begin

text \<open>
  Credit-based flow control: \<open>FlowSendCredits\<close> of \<open>protocol/multiplex.rs\<close>. One send task consumes credits and
  waits for more; any number of other tasks grant credits and close the flow. Every access to an atomic or
  to the notifier is one step, and the steps of all tasks interleave freely.

  The notifier is \<open>tokio::sync::Notify\<close>: \<open>notify_ok\<close> states the documented law that a wait started or pending
  after a \<open>notify_one\<close> completes, because the call either wakes the waiter or stores a permit.
\<close>

section \<open>The gate\<close>

record 'n notify_crate =
  notify_new :: 'n
  notify_one :: "'n \<Rightarrow> 'n"
  notified :: "'n \<Rightarrow> 'n option"

definition notify_ok :: "'n notify_crate \<Rightarrow> bool" where
  "notify_ok N \<longleftrightarrow> (\<forall>n. notified N (notify_one N n) \<noteq> None)"

datatype credit_wait = Granted | Closed | Stalled

text \<open>
  Where the send task stands: between calls; in the compare-exchange loop of \<open>try_consume\<close> with the value it
  last read and the amount it wants; returning from it; in a waiting loop, about to read the credits,
  about to read the closed flag, parked on the notifier, or past the timeout; returning from it. The
  argument of the waiting stages says which of the two loops it is: \<open>True\<close> for \<open>wait_for_credit_or_stall\<close>,
  \<open>False\<close> for \<open>wait_for_credit\<close>, which does not look at the closed flag and has no timeout.
\<close>

datatype sender_pc =
    Idle
  | Consuming u64 u64
  | Consumed u64
  | WaitCredits bool
  | WaitClosed
  | Parked bool
  | TimedOut
  | Waited credit_wait

text \<open>
  The atomics and the notifier, the stage of the send task, and the number of \<open>grant\<close> and \<open>close\<close> calls that
  have changed their atomic and not yet called \<open>notify_one\<close>. The last three fields are not in the code: they
  record what was granted and consumed so far, and whether a grant was ever cut at the largest u64.
\<close>

record 'n flow_send_credits =
  credits :: u64
  closed :: bool
  notify :: 'n
  sender :: sender_pc
  unsent :: nat
  total_granted :: nat
  total_consumed :: nat
  saturated :: bool

definition credits_new :: "'n notify_crate \<Rightarrow> 'n flow_send_credits" where
  "credits_new N = \<lparr>credits = ucast INITIAL_FLOW_WINDOW, closed = False, notify = notify_new N, sender = Idle,
     unsent = 0, total_granted = 0, total_consumed = 0, saturated = False\<rparr>"

definition available :: "'n flow_send_credits \<Rightarrow> u64" where
  "available s = credits s"

definition is_closed :: "'n flow_send_credits \<Rightarrow> bool" where
  "is_closed s = closed s"

definition saturating_add :: "u64 \<Rightarrow> u64 \<Rightarrow> u64" where
  "saturating_add a b = (if unat a + unat b < 2 ^ 64 then a + b else - 1)"

section \<open>Granting and closing\<close>

text \<open>
  \<open>grant\<close> and \<open>close\<close> each change an atomic and then call \<open>notify_one\<close>. The calls between the two steps
  are counted in \<open>unsent\<close>; \<open>notify_step\<close> is the second step of one of them.
\<close>

definition grant_step :: "u64 \<Rightarrow> 'n flow_send_credits \<Rightarrow> 'n flow_send_credits" where
  "grant_step n s = s\<lparr>credits := saturating_add (credits s) n, unsent := unsent s + 1,
     total_granted := total_granted s + unat n,
     saturated := (saturated s \<or> unat (credits s) + unat n \<ge> 2 ^ 64)\<rparr>"

definition close_step :: "'n flow_send_credits \<Rightarrow> 'n flow_send_credits" where
  "close_step s = s\<lparr>closed := True, unsent := unsent s + 1\<rparr>"

definition notify_step :: "'n notify_crate \<Rightarrow> 'n flow_send_credits \<Rightarrow> 'n flow_send_credits" where
  "notify_step N s = s\<lparr>notify := notify_one N (notify s), unsent := unsent s - 1\<rparr>"

section \<open>Consuming\<close>

text \<open>One round of the loop of \<open>try_consume\<close>; \<open>weak\<close> is a spurious failure of \<open>compare_exchange_weak\<close>.\<close>

definition consume_step :: "bool \<Rightarrow> u64 \<Rightarrow> u64 \<Rightarrow> 'n flow_send_credits \<Rightarrow> 'n flow_send_credits" where
  "consume_step weak current wanted s =
     (if current = 0 then s\<lparr>sender := Consumed 0\<rparr>
      else let amount = min current wanted
           in if credits s = current \<and> \<not> weak
              then s\<lparr>credits := current - amount, sender := Consumed amount,
                     total_consumed := total_consumed s + unat amount\<rparr>
              else s\<lparr>sender := Consuming (credits s) wanted\<rparr>)"

section \<open>Waiting\<close>

definition wait_credits_step :: "bool \<Rightarrow> 'n flow_send_credits \<Rightarrow> 'n flow_send_credits" where
  "wait_credits_step stall s =
     s\<lparr>sender := (if available s > 0 then Waited Granted else if stall then WaitClosed else Parked False)\<rparr>"

definition wait_closed_step :: "'n flow_send_credits \<Rightarrow> 'n flow_send_credits" where
  "wait_closed_step s = s\<lparr>sender := (if is_closed s then Waited Closed else Parked True)\<rparr>"

definition timeout_step :: "'n flow_send_credits \<Rightarrow> 'n flow_send_credits" where
  "timeout_step s = s\<lparr>sender := (if is_closed s then Waited Closed else Waited Stalled)\<rparr>"

section \<open>The steps of all tasks\<close>

inductive peer_step :: "'n notify_crate \<Rightarrow> 'n flow_send_credits \<Rightarrow> 'n flow_send_credits \<Rightarrow> bool" for N where
  grant: "peer_step N s (grant_step n s)"
| close: "peer_step N s (close_step s)"
| notify: "0 < unsent s \<Longrightarrow> peer_step N s (notify_step N s)"

inductive sender_step :: "'n notify_crate \<Rightarrow> 'n flow_send_credits \<Rightarrow> 'n flow_send_credits \<Rightarrow> bool" for N where
  call_consume: "sender s = Idle \<Longrightarrow> sender_step N s (s\<lparr>sender := Consuming (credits s) wanted\<rparr>)"
| consume: "sender s = Consuming current wanted \<Longrightarrow> sender_step N s (consume_step weak current wanted s)"
| call_wait: "sender s = Idle \<Longrightarrow> sender_step N s (s\<lparr>sender := WaitCredits stall\<rparr>)"
| wait_credits: "sender s = WaitCredits stall \<Longrightarrow> sender_step N s (wait_credits_step stall s)"
| wait_closed: "sender s = WaitClosed \<Longrightarrow> sender_step N s (wait_closed_step s)"
| woken: "sender s = Parked stall \<Longrightarrow> notified N (notify s) = Some n \<Longrightarrow>
     sender_step N s (s\<lparr>notify := n, sender := WaitCredits stall\<rparr>)"
| expired: "sender s = Parked True \<Longrightarrow> sender_step N s (s\<lparr>sender := TimedOut\<rparr>)"
| timeout: "sender s = TimedOut \<Longrightarrow> sender_step N s (timeout_step s)"
| return_consume: "sender s = Consumed k \<Longrightarrow> sender_step N s (s\<lparr>sender := Idle\<rparr>)"
| return_wait: "sender s = Waited r \<Longrightarrow> sender_step N s (s\<lparr>sender := Idle\<rparr>)"

definition credit_step :: "'n notify_crate \<Rightarrow> 'n flow_send_credits \<Rightarrow> 'n flow_send_credits \<Rightarrow> bool" where
  "credit_step N s s' \<longleftrightarrow> peer_step N s s' \<or> sender_step N s s'"

lemma peer_credit_step: "peer_step N s s' \<Longrightarrow> credit_step N s s'"
  and sender_credit_step: "sender_step N s s' \<Longrightarrow> credit_step N s s'"
  by (simp_all add: credit_step_def)

lemmas credit_ops = grant_step_def close_step_def notify_step_def consume_step_def wait_credits_step_def
  wait_closed_step_def timeout_step_def available_def is_closed_def

section \<open>Accounting\<close>

definition accounts :: "'n flow_send_credits \<Rightarrow> bool" where
  "accounts s \<longleftrightarrow>
     unat (credits s) + total_consumed s \<le> 262144 + total_granted s
     \<and> (\<not> saturated s \<longrightarrow> unat (credits s) + total_consumed s = 262144 + total_granted s)"

definition waits_in_vain :: "'n flow_send_credits \<Rightarrow> bool" where
  "waits_in_vain s = (case sender s of
       WaitClosed \<Rightarrow> credits s > 0
     | Parked stall \<Rightarrow> credits s > 0 \<or> stall \<and> closed s
     | _ \<Rightarrow> False)"

definition no_lost_wakeup :: "'n notify_crate \<Rightarrow> 'n flow_send_credits \<Rightarrow> bool" where
  "no_lost_wakeup N s \<longleftrightarrow> waits_in_vain s \<longrightarrow> unsent s > 0 \<or> notified N (notify s) \<noteq> None"

lemma unat_saturating_add: "unat (saturating_add a b) = min (unat a + unat b) (2 ^ 64 - 1)"
proof (cases "unat a + unat b < 2 ^ 64")
  case True
  then show ?thesis by (simp add: saturating_add_def unat_word_ariths)
next
  case False
  then show ?thesis by (simp add: saturating_add_def unsigned_minus_1_eq_mask mask_eq_exp_minus_1)
qed

lemma unat_minus_min: "unat (c - min c w) + unat (min c w) = unat (c :: u64)"
proof -
  have "min c w \<le> c" by simp
  then show ?thesis by (simp add: unat_sub word_le_nat_alt)
qed

lemma credits_new_ok: "accounts (credits_new N)" "no_lost_wakeup N (credits_new N)"
  by (simp_all add: accounts_def no_lost_wakeup_def waits_in_vain_def credits_new_def INITIAL_FLOW_WINDOW_def)

lemma peer_step_accounts: "peer_step N s s' \<Longrightarrow> accounts s \<Longrightarrow> accounts s'"
  by (induction rule: peer_step.induct)
     (auto simp: accounts_def credit_ops unat_saturating_add)

lemma sender_step_accounts: "sender_step N s s' \<Longrightarrow> accounts s \<Longrightarrow> accounts s'"
proof (induction rule: sender_step.induct)
  case (consume s current wanted weak)
  with unat_minus_min [of current wanted] show ?case
    by (auto simp: accounts_def consume_step_def Let_def)
qed (auto simp: accounts_def credit_ops)

lemma peer_step_no_lost_wakeup:
  "notify_ok N \<Longrightarrow> peer_step N s s' \<Longrightarrow> no_lost_wakeup N s'"
  by (auto simp: no_lost_wakeup_def notify_ok_def credit_ops elim!: peer_step.cases)

lemma sender_step_no_lost_wakeup: "sender_step N s s' \<Longrightarrow> no_lost_wakeup N s \<Longrightarrow> no_lost_wakeup N s'"
  by (induction rule: sender_step.induct)
     (auto simp: no_lost_wakeup_def waits_in_vain_def credit_ops Let_def split: if_splits)

lemma credit_run_ok:
  assumes "notify_ok N" "(credit_step N)\<^sup>*\<^sup>* (credits_new N) s"
  shows "accounts s \<and> no_lost_wakeup N s"
  using assms(2)
proof (induction rule: rtranclp_induct)
  case base
  show ?case by (simp add: credits_new_ok)
next
  case (step s s')
  then show ?case
    unfolding credit_step_def
    using peer_step_accounts sender_step_accounts peer_step_no_lost_wakeup [OF assms(1)] sender_step_no_lost_wakeup
    by blast
qed

section \<open>Wake-up\<close>

lemma unread_wakeup_is_read:
  assumes "sender s = Parked stall" "notified N (notify s) = Some n" "credits s > 0 \<or> stall \<and> closed s"
  shows "\<exists>s'. (sender_step N)\<^sup>*\<^sup>* s s' \<and> credits s' = credits s
    \<and> sender s' = Waited (if credits s > 0 then Granted else Closed)"
proof -
  define s1 where "s1 = s\<lparr>notify := n, sender := WaitCredits stall\<rparr>"
  have "sender_step N s s1" unfolding s1_def by (rule woken) fact+
  moreover have "sender_step N s1 (wait_credits_step stall s1)" by (rule wait_credits) (simp add: s1_def)
  ultimately have run: "(sender_step N)\<^sup>*\<^sup>* s (wait_credits_step stall s1)" by (meson converse_rtranclp_into_rtranclp r_into_rtranclp)
  show ?thesis
  proof (cases "credits s > 0")
    case True
    with run show ?thesis by (intro exI [of _ "wait_credits_step stall s1"]) (simp add: s1_def credit_ops)
  next
    case False
    let ?s2 = "wait_credits_step stall s1"
    from False assms(3) have c: "stall" "closed s" by auto
    with False have "sender ?s2 = WaitClosed" by (simp add: s1_def credit_ops)
    then have "sender_step N ?s2 (wait_closed_step ?s2)" by (rule wait_closed)
    with run have "(sender_step N)\<^sup>*\<^sup>* s (wait_closed_step ?s2)" by (rule rtranclp.rtrancl_into_rtrancl)
    with False c show ?thesis by (intro exI [of _ "wait_closed_step ?s2"]) (simp add: s1_def credit_ops)
  qed
qed

definition demo_notify :: "bool notify_crate" where
  "demo_notify = \<lparr>notify_new = False, notify_one = (\<lambda>_. True), notified = (\<lambda>p. if p then Some False else None)\<rparr>"

lemma demo_notify_ok: "notify_ok demo_notify"
  by (simp add: notify_ok_def demo_notify_def)

text \<open>A run of the gate: the sender takes the whole window, finds it empty, parks, and is granted five bytes.\<close>

definition demo_parked :: "bool flow_send_credits" where
  "demo_parked = \<lparr>credits = 5, closed = False, notify = True, sender = Parked True, unsent = 0,
     total_granted = 5, total_consumed = 262144, saturated = False\<rparr>"

lemma demo_parked_reachable: "(credit_step demo_notify)\<^sup>*\<^sup>* (credits_new demo_notify) demo_parked"
proof -
  let ?N = demo_notify
  let ?s0 = "credits_new ?N"
  let ?s1 = "?s0\<lparr>sender := Consuming 262144 262144\<rparr>"
  let ?s2 = "?s0\<lparr>credits := 0, total_consumed := 262144, sender := Consumed 262144\<rparr>"
  let ?s3 = "?s2\<lparr>sender := Idle\<rparr>"
  let ?s4 = "?s2\<lparr>sender := WaitCredits True\<rparr>"
  let ?s5 = "?s2\<lparr>sender := WaitClosed\<rparr>"
  let ?s6 = "?s2\<lparr>sender := Parked True\<rparr>"
  let ?s7 = "?s6\<lparr>credits := 5, unsent := 1, total_granted := 5\<rparr>"
  note defs = credits_new_def INITIAL_FLOW_WINDOW_def credit_ops saturating_add_def demo_notify_def demo_parked_def
  have 1: "sender_step ?N ?s0 ?s1" using call_consume [of ?s0 ?N 262144] by (simp add: defs)
  have 2: "sender_step ?N ?s1 ?s2" using consume [of ?s1 262144 262144 ?N False] by (simp add: defs)
  have 3: "sender_step ?N ?s2 ?s3" using return_consume [of ?s2 262144 ?N] by simp
  have 4: "sender_step ?N ?s3 ?s4" using call_wait [of ?s3 ?N True] by simp
  have 5: "sender_step ?N ?s4 ?s5" using wait_credits [of ?s4 True ?N] by (simp add: defs)
  have 6: "sender_step ?N ?s5 ?s6" using wait_closed [of ?s5 ?N] by (simp add: defs)
  have 7: "peer_step ?N ?s6 ?s7" using grant [of ?N ?s6 5] by (simp add: defs)
  have 8: "peer_step ?N ?s7 demo_parked" using notify [of ?s7 ?N] by (simp add: defs)
  note chain = converse_rtranclp_into_rtranclp [of "credit_step ?N"]
  show ?thesis
    by (rule chain [OF sender_credit_step [OF 1]], rule chain [OF sender_credit_step [OF 2]],
        rule chain [OF sender_credit_step [OF 3]], rule chain [OF sender_credit_step [OF 4]],
        rule chain [OF sender_credit_step [OF 5]], rule chain [OF sender_credit_step [OF 6]],
        rule chain [OF peer_credit_step [OF 7]], rule chain [OF peer_credit_step [OF 8]], rule rtranclp.rtrancl_refl)
qed

section \<open>Properties\<close>

text \<open>C6: credits are conserved under every interleaving of one sender with any number of granters: the bytes the
  sender was allowed so far plus those still available never exceed the initial window plus all grants,
  and are equal to it as long as no grant was cut at the largest counter value. An amount that
  \<open>try_consume\<close> returns is the smaller of what is available at that moment and what was asked for.\<close>

theorem credits_are_conserved:
  assumes "notify_ok N" "(credit_step N)\<^sup>*\<^sup>* (credits_new N) s"
  shows "unat (credits s) + total_consumed s \<le> unat INITIAL_FLOW_WINDOW + total_granted s
    \<and> (\<not> saturated s \<longrightarrow> unat (credits s) + total_consumed s = unat INITIAL_FLOW_WINDOW + total_granted s)
    \<and> (credit_step N s s' \<and> sender s = Consuming current wanted \<and> sender s' = Consumed k \<and> k \<noteq> 0
        \<longrightarrow> k = min (credits s) wanted \<and> credits s' = credits s - k)"
proof -
  have "k = min (credits s) wanted \<and> credits s' = credits s - k"
    if "credit_step N s s'" "sender s = Consuming current wanted" "sender s' = Consumed k" "k \<noteq> 0"
    using that by (auto simp: credit_step_def credit_ops Let_def elim!: peer_step.cases sender_step.cases split: if_splits)
  with credit_run_ok [OF assms] show ?thesis
    by (auto simp: accounts_def INITIAL_FLOW_WINDOW_def)
qed

theorem credits_are_conserved_witness:
  "unat (credits demo_parked) + total_consumed demo_parked
    = unat INITIAL_FLOW_WINDOW + total_granted demo_parked"
  using credits_are_conserved [OF demo_notify_ok demo_parked_reachable] by (simp add: demo_parked_def)

text \<open>C27: no wake-up is lost. In every state that can arise, if the sender is parked although there are credits, or
  although the flow was closed and it waits with a timeout, and every \<open>grant\<close> and \<open>close\<close> call has returned,
  then the sender's own next steps lead out of the wait with the right answer; and after the timeout has
  expired it never answers that a closed flow has stalled.\<close>

theorem parked_sender_wakes_up:
  assumes "notify_ok N" "(credit_step N)\<^sup>*\<^sup>* (credits_new N) s"
  shows "(sender s = Parked stall \<and> (available s > 0 \<or> stall \<and> is_closed s) \<and> unsent s = 0
      \<longrightarrow> (\<exists>s'. (sender_step N)\<^sup>*\<^sup>* s s' \<and> available s' = available s
            \<and> sender s' = Waited (if available s > 0 then Granted else Closed)))
    \<and> (is_closed s \<and> sender_step N s s' \<longrightarrow> sender s' \<noteq> Waited Stalled)"
proof (intro conjI impI)
  assume p: "sender s = Parked stall \<and> (available s > 0 \<or> stall \<and> is_closed s) \<and> unsent s = 0"
  with credit_run_ok [OF assms] obtain n where "notified N (notify s) = Some n"
    by (auto simp: no_lost_wakeup_def waits_in_vain_def available_def is_closed_def)
  with p show "\<exists>s'. (sender_step N)\<^sup>*\<^sup>* s s' \<and> available s' = available s
      \<and> sender s' = Waited (if available s > 0 then Granted else Closed)"
    using unread_wakeup_is_read [of s stall N n] by (auto simp: available_def is_closed_def)
next
  assume "is_closed s \<and> sender_step N s s'"
  then show "sender s' \<noteq> Waited Stalled"
    by (auto simp: credit_ops Let_def elim!: sender_step.cases split: if_splits)
qed

theorem parked_sender_wakes_up_witness:
  "\<exists>s'. (sender_step demo_notify)\<^sup>*\<^sup>* demo_parked s' \<and> available s' = 5 \<and> sender s' = Waited Granted"
  using parked_sender_wakes_up [OF demo_notify_ok demo_parked_reachable, of True]
  by (simp add: demo_parked_def available_def)

end
