(* ===== verification/Packet.thy ===== *)
theory Packet
  imports Rvpn_Prelude
begin

text \<open>
  IP packets: the parser and builder of \<open>protocol/packet.rs\<close> and the Internet checksum they use. The carry
  folding loop is related to arithmetic modulo 65535 once, in \<open>unat_fold_carries\<close>; the address rewriting of
  the mobile client uses the same lemmas.
\<close>

unbundle bit_operations_syntax

section \<open>Definitions\<close>

datatype protocol = Icmp | Tcp | Udp | Icmpv6 | Other

fun protocol_from :: "u8 \<Rightarrow> protocol" where
  "protocol_from p =
     (if p = 1 then Icmp else if p = 6 then Tcp else if p = 17 then Udp else if p = 58 then Icmpv6 else Other)"

fun protocol_number :: "protocol \<Rightarrow> u8" where
  "protocol_number Icmp = 1"
| "protocol_number Tcp = 6"
| "protocol_number Udp = 17"
| "protocol_number Icmpv6 = 58"
| "protocol_number Other = 0"

record packet_info =
  src_ip :: ip_addr
  dst_ip :: ip_addr
  src_port :: "u16 option"
  dst_port :: "u16 option"
  protocol :: protocol
  total_len :: nat

text \<open>The two port reads of both parsers, at an offset of the packet.\<close>

definition ports_at :: "protocol \<Rightarrow> bytes \<Rightarrow> nat \<Rightarrow> ('e, u16 option \<times> u16 option) outcome" where
  "ports_at p packet off =
     (if p = Tcp \<or> p = Udp then
        if length packet \<ge> off + 4 then
          and_then (read_u16_be packet off) (\<lambda>src.
          and_then (read_u16_be packet (off + 2)) (\<lambda>dst. Ok (Some src, Some dst)))
        else Ok (None, None)
      else Ok (None, None))"

definition parse_ipv4 :: "bytes \<Rightarrow> ('e, packet_info option) outcome" where
  "parse_ipv4 packet =
     (if length packet < 20 then Ok None
      else and_then (idx packet 0) (\<lambda>b0.
        let header_len = unat ((b0 AND 0x0f) * 4) in
        and_then (read_u16_be packet 2) (\<lambda>total.
        and_then (idx packet 9) (\<lambda>b9.
        let proto = protocol_from b9 in
        and_then (read_u32_be packet 12) (\<lambda>src.
        and_then (read_u32_be packet 16) (\<lambda>dst.
        and_then (ports_at proto packet header_len) (\<lambda>(sp, dp).
        Ok (Some \<lparr>src_ip = V4 src, dst_ip = V4 dst, src_port = sp, dst_port = dp,
                  protocol = proto, total_len = unat total\<rparr>))))))))"

text \<open>\<open>parse_ipv6_addr\<close> reads eight big-endian segments and \<open>Ipv6Addr::new\<close> joins them.\<close>

definition parse_ipv6_addr :: "bytes \<Rightarrow> ('e, ipv6_addr) outcome" where
  "parse_ipv6_addr bs = and_then (idxs bs 0 16) (\<lambda>b. Ok (ipv6_from_octets b))"

definition parse_ipv6 :: "bytes \<Rightarrow> ('e, packet_info option) outcome" where
  "parse_ipv6 packet =
     (if length packet < 40 then Ok None
      else and_then (read_u16_be packet 4) (\<lambda>payload_len.
        and_then (idx packet 6) (\<lambda>next_header.
        let proto = protocol_from next_header in
        and_then (and_then (bslice packet 8 24) parse_ipv6_addr) (\<lambda>src.
        and_then (and_then (bslice packet 24 40) parse_ipv6_addr) (\<lambda>dst.
        and_then (ports_at proto packet 40) (\<lambda>(sp, dp).
        Ok (Some \<lparr>src_ip = V6 src, dst_ip = V6 dst, src_port = sp, dst_port = dp,
                  protocol = proto, total_len = 40 + unat payload_len\<rparr>)))))))"

definition parse_packet :: "bytes \<Rightarrow> ('e, packet_info option) outcome" where
  "parse_packet packet =
     (if packet = [] then Ok None
      else and_then (idx packet 0) (\<lambda>b0.
        let version = drop_bit 4 b0 AND 0x0f in
        if version = 4 then parse_ipv4 packet
        else if version = 6 then parse_ipv6 packet
        else Ok None))"

section \<open>The Internet checksum\<close>

text \<open>The loop over the 16-bit words of a header, and the loop that folds the carries back.\<close>

fun sum_words :: "u32 \<Rightarrow> bytes \<Rightarrow> u32" where
  "sum_words s (a # b # r) = sum_words (s + ucast (from_be_bytes [a, b] :: u16)) r"
| "sum_words s r = s"

lemma unat_low_16: "unat ((s :: u32) AND 0xffff) = unat s mod 65536"
proof -
  have "s AND 0xffff = take_bit 16 s"
    by (simp add: take_bit_eq_mask mask_numeral)
  then show ?thesis
    using unsigned_take_bit_eq [of 16 s, where 'a = nat] by (simp add: take_bit_eq_mod unat_mod)
qed

lemma unat_high_16: "unat (drop_bit 16 (s :: u32)) = unat s div 65536"
  by (simp add: drop_bit_eq_div unat_div)

lemma unat_split_16: "unat (s :: u32) = unat (s AND 0xffff) + 65536 * unat (drop_bit 16 s)"
  unfolding unat_low_16 unat_high_16 by simp

lemma unat_fold_step: "unat ((s AND 0xffff) + drop_bit 16 (s :: u32)) = unat (s AND 0xffff) + unat (drop_bit 16 s)"
proof -
  have "unat (s AND 0xffff) + unat (drop_bit 16 s) \<le> unat s"
    using unat_split_16 [of s] by simp
  then have "unat (s AND 0xffff) + unat (drop_bit 16 s) < 4294967296"
    using unat_word_bounds(2) [of s] by linarith
  then show ?thesis by (simp add: unat_word_ariths)
qed

function fold_carries :: "u32 \<Rightarrow> u32" where
  "fold_carries s = (if drop_bit 16 s \<noteq> 0 then fold_carries ((s AND 0xffff) + drop_bit 16 s) else s)"
  by pat_completeness auto
termination
proof (relation "measure unat")
  fix s :: u32
  assume "drop_bit 16 s \<noteq> 0"
  then have "0 < unat (drop_bit 16 s)" by (simp add: unat_gt_0)
  then show "((s AND 0xffff) + drop_bit 16 s, s) \<in> measure unat"
    using unat_split_16 [of s] unat_fold_step [of s] by simp
qed simp

declare fold_carries.simps [simp del]

definition calculate_ip_checksum :: "bytes \<Rightarrow> u16" where
  "calculate_ip_checksum header = ucast (NOT (fold_carries (sum_words 0 header)))"

text \<open>\<open>packet[off..off + n].copy_from_slice(v)\<close> for a \<open>v\<close> of length \<open>n\<close>.\<close>

definition put :: "bytes \<Rightarrow> nat \<Rightarrow> bytes \<Rightarrow> ('e, bytes) outcome" where
  "put packet off v =
     (if off + length v \<le> length packet then Ok (take off packet @ v @ drop (off + length v) packet) else Panic)"

definition create_ipv4_packet :: "ipv4_addr \<Rightarrow> ipv4_addr \<Rightarrow> protocol \<Rightarrow> bytes \<Rightarrow> ('e, bytes) outcome" where
  "create_ipv4_packet src dst proto body =
     (let header_len = 20;
          total = header_len + length body;
          packet = replicate total 0
      in and_then (put packet 0 [0x45]) (\<lambda>packet.
         and_then (put packet 1 [0]) (\<lambda>packet.
         and_then (put packet 2 (to_be_bytes 2 (of_nat total :: u16))) (\<lambda>packet.
         and_then (put packet 4 [0, 0]) (\<lambda>packet.
         and_then (put packet 6 [0, 0]) (\<lambda>packet.
         and_then (put packet 8 [64]) (\<lambda>packet.
         and_then (put packet 9 [protocol_number proto]) (\<lambda>packet.
         and_then (put packet 12 (ipv4_octets src)) (\<lambda>packet.
         and_then (put packet 16 (ipv4_octets dst)) (\<lambda>packet.
         and_then (put packet header_len body) (\<lambda>packet.
         and_then (bslice packet 0 header_len) (\<lambda>header.
         put packet 10 (to_be_bytes 2 (calculate_ip_checksum header))))))))))))))"

section \<open>Checksums modulo 65535\<close>

text \<open>
  \<open>word_sum\<close> is the sum of the 16-bit words of a byte sequence in the integers, an odd last byte padded with
  zero. A sequence with its checksum in place is valid when the sum, folded, is all ones, which is to say
  it is a positive multiple of 65535.
\<close>

fun word_sum :: "bytes \<Rightarrow> nat" where
  "word_sum (a # b # r) = 256 * unat a + unat b + word_sum r"
| "word_sum [a] = 256 * unat a"
| "word_sum [] = 0"

definition valid_sum :: "nat \<Rightarrow> bool" where
  "valid_sum n \<longleftrightarrow> 0 < n \<and> n mod 65535 = 0"

definition folded :: "nat \<Rightarrow> nat" where
  "folded n = (if n = 0 then 0 else (n - 1) mod 65535 + 1)"

lemma folded_small: "n < 65536 \<Longrightarrow> folded n = n"
  by (simp add: folded_def)

lemma folded_step: "folded (r + q) = folded (r + 65536 * q)"
proof (cases "r + q = 0")
  case True
  then show ?thesis by simp
next
  case False
  then have "r + 65536 * q - 1 = (r + q - 1) + q * 65535" by linarith
  then have "(r + 65536 * q - 1) mod 65535 = (r + q - 1) mod 65535" by (metis mod_mult_self1)
  then show ?thesis using False by (simp add: folded_def)
qed

lemma folded_bound: "folded n < 65536"
  using mod_less_divisor [of 65535 "n - 1"] by (simp add: folded_def)

lemma folded_mod: "folded n mod 65535 = n mod 65535"
proof (cases n)
  case 0
  then show ?thesis by (simp add: folded_def)
next
  case (Suc k)
  then show ?thesis by (simp add: folded_def mod_Suc_eq)
qed

lemma folded_decomp: "\<exists>k. n = folded n + 65535 * k"
proof (cases n)
  case 0
  then show ?thesis by (simp add: folded_def)
next
  case (Suc m)
  then have "n = folded n + 65535 * (m div 65535)" by (simp add: folded_def)
  then show ?thesis by blast
qed

lemma folded_pos: "0 < folded n \<longleftrightarrow> 0 < n"
  by (simp add: folded_def)

lemma valid_sum_iff_folded: "valid_sum n \<longleftrightarrow> folded n = 65535"
proof -
  have "folded n = 65535 \<longleftrightarrow> 0 < folded n \<and> folded n mod 65535 = 0"
    using folded_bound [of n] by (auto simp: mod_eq_0_iff_dvd dvd_def)
  then show ?thesis by (simp add: valid_sum_def folded_mod folded_pos)
qed

lemma unat_fold_carries: "unat (fold_carries s) = folded (unat s)"
proof (induction s rule: fold_carries.induct)
  case (1 s)
  show ?case
  proof (cases "drop_bit 16 s = 0")
    case True
    then have "unat s div 65536 = 0" using unat_high_16 [of s] by simp
    then have "unat s < 65536" by simp
    moreover from True have "fold_carries s = s" by (subst fold_carries.simps) simp
    ultimately show ?thesis by (simp add: folded_small)
  next
    case False
    then have "fold_carries s = fold_carries ((s AND 0xffff) + drop_bit 16 s)" by (subst fold_carries.simps) simp
    then have "unat (fold_carries s) = folded (unat (s AND 0xffff) + unat (drop_bit 16 s))"
      using 1 [OF False] by (simp only: unat_fold_step)
    also have "\<dots> = folded (unat s)"
      using folded_step [of "unat (s AND 0xffff)" "unat (drop_bit 16 s)"] unat_split_16 [of s] by metis
    finally show ?thesis .
  qed
qed

lemma word_sum_append: "even (length xs) \<Longrightarrow> word_sum (xs @ ys) = word_sum xs + word_sum ys"
  by (induction xs rule: word_sum.induct) simp_all

lemma word_sum_bound: "word_sum xs \<le> 65535 * length xs"
proof (induction xs rule: word_sum.induct)
  case (1 a b r)
  have "256 * unat a + unat b \<le> 131070" using unat_byte_less [of a] unat_byte_less [of b] by linarith
  with 1 show ?case by simp
next
  case (2 a)
  have "256 * unat a \<le> 65535" using unat_byte_less [of a] by linarith
  then show ?case by simp
qed simp

lemma unat_be_pair: "unat (from_be_bytes [a, b] :: u16) = 256 * unat a + unat b"
  by (subst unat_from_be) simp_all

lemma length_2_pair: "length xs = 2 \<Longrightarrow> \<exists>a b. xs = [a, b]"
  by (auto simp: numeral_2_eq_2 length_Suc_conv)

lemma word_sum_pair: "length xs = 2 \<Longrightarrow> word_sum xs = unat (from_be_bytes xs :: u16)"
  using length_2_pair [of xs] by (auto simp: unat_be_pair)

lemma word_sum_be_16: "word_sum (to_be_bytes 2 (w :: u16)) = unat w"
  by (simp add: word_sum_pair)

lemma word_sum_quad:
  assumes "length xs = 4"
  shows "word_sum xs = unat (from_be_bytes xs :: u32) div 65536 + unat (from_be_bytes xs :: u32) mod 65536"
proof -
  obtain a b c d where xs: "xs = [a, b, c, d]" using list_of_length_4 [OF assms] by metis
  define lo hi where "lo = unat c * 256 + unat d" and "hi = unat a * 256 + unat b"
  have "unat (from_be_bytes xs :: u32) = lo + 65536 * hi"
    unfolding xs lo_def hi_def by (subst unat_from_be) simp_all
  moreover have "lo < 65536"
    unfolding lo_def using unat_byte_less [of c] unat_byte_less [of d] by linarith
  moreover have "word_sum xs = hi + lo" by (simp add: xs lo_def hi_def)
  ultimately show ?thesis by simp
qed

lemma word_sum_be_32: "word_sum (to_be_bytes 4 (w :: u32)) = unat w div 65536 + unat w mod 65536"
  by (simp add: word_sum_quad)

lemma unat_ucast_16_32: "unat (ucast (w :: u16) :: u32) = unat w"
proof -
  have "unat w < 4294967296" using unat_word_bounds(1) [of w] by linarith
  then show ?thesis by (simp add: unsigned_ucast_eq take_bit_eq_mod)
qed

lemma unat_ucast_32_16: "unat (ucast (w :: u32) :: u16) = unat w mod 65536"
  by (simp add: unsigned_ucast_eq take_bit_eq_mod)

lemma unat_sum_words:
  "even (length h) \<Longrightarrow> unat s + word_sum h < 4294967296 \<Longrightarrow> unat (sum_words s h) = unat s + word_sum h"
proof (induction s h rule: sum_words.induct)
  case (1 s a b r)
  have "unat (s + ucast (from_be_bytes [a, b] :: u16)) = unat s + (256 * unat a + unat b)"
    using 1(3) by (simp add: unat_word_ariths unat_ucast_16_32 unat_be_pair)
  with 1 show ?case by simp
qed simp_all

lemma unat_not_16: "unat (NOT (x :: u16)) = 65535 - unat x"
proof -
  have "NOT x = - 1 - x" by (simp add: not_eq_complement)
  moreover have "unat (- 1 - x) = unat (- 1 :: u16) - unat x" by (rule unat_sub) simp
  ultimately show ?thesis by (simp add: unsigned_minus_1_eq_mask mask_eq_exp_minus_1)
qed

lemma unat_low_not: "unat w < 65536 \<Longrightarrow> unat (ucast (NOT (w :: u32)) :: u16) = 65535 - unat w"
proof -
  assume "unat w < 65536"
  then have "unat (ucast w :: u16) = unat w" by (simp add: unat_ucast_32_16)
  moreover have "(ucast (NOT w) :: u16) = NOT (ucast w)" by (rule bit_word_eqI) (auto simp: bit_simps)
  ultimately show ?thesis by (simp add: unat_not_16)
qed

lemma unat_calculate_ip_checksum:
  assumes "even (length h)" "length h \<le> 60"
  shows "unat (calculate_ip_checksum h) = 65535 - folded (word_sum h)"
proof -
  have "unat (sum_words 0 h) = word_sum h"
    using unat_sum_words [of h 0] word_sum_bound [of h] assms by simp
  then have "unat (fold_carries (sum_words 0 h)) = folded (word_sum h)"
    by (simp add: unat_fold_carries)
  then show ?thesis
    using folded_bound [of "word_sum h"] by (simp add: calculate_ip_checksum_def unat_low_not)
qed

lemma checksum_zero_iff:
  assumes "even (length h)" "length h \<le> 60"
  shows "calculate_ip_checksum h = 0 \<longleftrightarrow> valid_sum (word_sum h)"
proof -
  have "calculate_ip_checksum h = 0 \<longleftrightarrow> folded (word_sum h) \<ge> 65535"
    using unat_calculate_ip_checksum [OF assms] unat_eq_zero [of "calculate_ip_checksum h"] by auto
  then show ?thesis
    using folded_bound [of "word_sum h"] by (auto simp: valid_sum_iff_folded)
qed

text \<open>A field that held zero and is set to the checksum of the rest makes the whole valid.\<close>

lemma valid_sum_checksum:
  assumes "0 < n"
  shows "valid_sum (n + (65535 - folded n))"
proof -
  have "(n + (65535 - folded n)) mod 65535 = (folded n + (65535 - folded n)) mod 65535"
    by (metis folded_mod mod_add_left_eq)
  then show ?thesis
    using folded_bound [of n] assms by (simp add: valid_sum_def)
qed

lemma put_ok: "off + length v \<le> length p \<Longrightarrow> put p off v = Ok (take off p @ v @ drop (off + length v) p)"
  by (simp add: put_def)

definition ipv4_header :: "ipv4_addr \<Rightarrow> ipv4_addr \<Rightarrow> protocol \<Rightarrow> nat \<Rightarrow> u16 \<Rightarrow> bytes" where
  "ipv4_header src dst proto len csum =
     [0x45, 0] @ to_be_bytes 2 (of_nat len :: u16) @ [0, 0] @ [0, 0] @ [64, protocol_number proto]
       @ to_be_bytes 2 csum @ ipv4_octets src @ ipv4_octets dst"

lemma to_be_zero: "to_be_bytes 2 (0 :: u16) = [0, 0]"
  by (simp add: to_be_bytes_def to_le_bytes_def numeral_2_eq_2)

lemma create_ipv4_packet_layout:
  "create_ipv4_packet src dst proto body = Ok (ipv4_header src dst proto (20 + length body)
     (calculate_ip_checksum (ipv4_header src dst proto (20 + length body) 0)) @ body)"
proof -
  have l: "length (to_be_bytes 2 (w :: u16)) = Suc (Suc 0)" "length (ipv4_octets a) = Suc (Suc (Suc (Suc 0)))" for w a
    by simp_all
  show ?thesis
    by (simp add: create_ipv4_packet_def put_def ipv4_header_def bslice_def to_be_zero [unfolded numeral_2_eq_2] eval_nat_numeral l)
qed

lemma length_ipv4_header [simp]: "length (ipv4_header src dst proto len csum) = 20"
  by (simp add: ipv4_header_def)

lemma word_sum_ipv4_header:
  "word_sum (ipv4_header src dst proto len csum) = word_sum (ipv4_header src dst proto len 0) + unat csum"
  by (simp add: ipv4_header_def word_sum_append word_sum_be_16)

lemma ipv4_header_checksum:
  "calculate_ip_checksum (ipv4_header src dst proto len (calculate_ip_checksum (ipv4_header src dst proto len 0))) = 0"
proof -
  let ?n = "word_sum (ipv4_header src dst proto len 0)"
  have "0 < ?n" by (simp add: ipv4_header_def)
  then have "valid_sum (?n + (65535 - folded ?n))" by (rule valid_sum_checksum)
  then show ?thesis
    by (simp add: checksum_zero_iff unat_calculate_ip_checksum
        word_sum_ipv4_header [of _ _ _ _ "calculate_ip_checksum (ipv4_header src dst proto len 0)"])
qed

lemma protocol_from_number [simp]: "protocol_from (protocol_number p) = p"
  by (cases p) simp_all

lemma from_be_octets [simp]: "from_be_bytes (ipv4_octets a) = a"
  by (simp add: ipv4_octets_def)

declare protocol_from.simps [simp del]

lemma ipv4_header_reads:
  fixes src dst :: ipv4_addr and body :: bytes and proto :: protocol and len :: nat and csum :: u16
  defines "p \<equiv> ipv4_header src dst proto len csum @ body"
  shows "p ! 0 = 0x45" "p ! 9 = protocol_number proto" "length p = 20 + length body" "p \<noteq> []"
    and "read_u16_be p 2 = Ok (of_nat len)" "read_u32_be p 12 = Ok src" "read_u32_be p 16 = Ok dst"
    and "ports_at proto p 20 = (Ok (if proto \<in> {Tcp, Udp} \<and> 4 \<le> length body
           then (Some (from_be_bytes (take 2 body)), Some (from_be_bytes (take 2 (drop 2 body))))
           else (None, None)) :: ('e, _) outcome)"
  by (simp_all add: p_def ipv4_header_def nth_append ports_at_def)

lemma parse_ipv4_header:
  "parse_packet (ipv4_header src dst proto len csum @ body) = (Ok (Some \<lparr>src_ip = V4 src, dst_ip = V4 dst,
     src_port = (if proto \<in> {Tcp, Udp} \<and> 4 \<le> length body then Some (from_be_bytes (take 2 body)) else None),
     dst_port = (if proto \<in> {Tcp, Udp} \<and> 4 \<le> length body then Some (from_be_bytes (take 2 (drop 2 body))) else None),
     protocol = proto, total_len = len mod 65536\<rparr>) :: ('e, _) outcome)"
proof -
  define p where "p = ipv4_header src dst proto len csum @ body"
  note reads = ipv4_header_reads [where src = src and dst = dst and proto = proto and len = len and csum = csum and body = body, folded p_def]
  have "parse_packet p = (parse_ipv4 p :: ('e, _) outcome)"
    using reads(1,3,4) by (simp add: parse_packet_def)
  then show ?thesis
    unfolding p_def [symmetric] by (simp add: parse_ipv4_def reads(1-3) reads(5-8) del: read_be_ok)
qed

lemma parse_total:
  "\<exists>r. parse_packet data = Ok r"
  by (simp add: parse_packet_def parse_ipv4_def parse_ipv6_def parse_ipv6_addr_def ports_at_def Let_def)

section \<open>Properties\<close>

text \<open>A packet built from two addresses, a protocol and a payload carries a correct header checksum and is
  parsed back to the same addresses and protocol, with the ports taken from the payload of a TCP or UDP
  packet and the total length reduced to 16 bits. On arbitrary bytes the parser returns, without a panic.\<close>

lemma created_packet_parses:
  "(\<exists>pkt. create_ipv4_packet src dst proto body = (Ok pkt :: ('e, _) outcome)
     \<and> length pkt = 20 + length body \<and> drop 20 pkt = body \<and> calculate_ip_checksum (take 20 pkt) = 0
     \<and> parse_packet pkt = (Ok (Some \<lparr>src_ip = V4 src, dst_ip = V4 dst,
          src_port = (if proto \<in> {Tcp, Udp} \<and> 4 \<le> length body then Some (from_be_bytes (take 2 body)) else None),
          dst_port = (if proto \<in> {Tcp, Udp} \<and> 4 \<le> length body then Some (from_be_bytes (take 2 (drop 2 body))) else None),
          protocol = proto, total_len = (20 + length body) mod 65536\<rparr>) :: ('e, _) outcome))
   \<and> (\<exists>r. parse_packet data = (Ok r :: ('e, _) outcome))"
  by (simp add: create_ipv4_packet_layout ipv4_header_checksum parse_ipv4_header parse_total)

end
