(* ===== verification/Nat_Rewrite.thy ===== *)
theory Nat_Rewrite
  imports Packet
begin

text \<open>
  Address rewriting of the mobile client (\<open>rvpn-mobile/src/nat_rewrite.rs\<close>): a packet of a secondary session
  gets another source or destination address, and the IP and transport checksums are adjusted
  incrementally. The incremental update is shown to be the subtraction of the old address words and the
  addition of the new ones modulo 65535, from which everything else follows.
\<close>

section \<open>Definitions\<close>

datatype addr_slot = Source | Destination

fun slot_offset :: "addr_slot \<Rightarrow> nat" where
  "slot_offset Source = 12"
| "slot_offset Destination = 16"

definition rfc1624_update :: "u16 \<Rightarrow> u32 \<Rightarrow> u32 \<Rightarrow> u16" where
  "rfc1624_update old_csum old_word new_word =
     (let sum = ucast (NOT old_csum) :: u32;
          sum = sum + ucast (ucast (NOT (drop_bit 16 old_word)) :: u16);
          sum = sum + ucast (ucast (NOT (old_word AND 0xffff)) :: u16);
          sum = sum + ucast (ucast (drop_bit 16 new_word) :: u16);
          sum = sum + ucast (ucast (new_word AND 0xffff) :: u16)
      in ucast (NOT (fold_carries sum)))"

text \<open>The offset of the transport checksum, if the protocol has one.\<close>

definition csum_offset :: "u8 \<Rightarrow> nat \<Rightarrow> nat option" where
  "csum_offset proto ihl = (if proto = 6 then Some (ihl + 16) else if proto = 17 then Some (ihl + 6) else None)"

text \<open>The last part of \<open>rewrite_addr\<close>, from step 3 on.\<close>

definition update_transport :: "bytes \<Rightarrow> nat \<Rightarrow> u32 \<Rightarrow> u32 \<Rightarrow> ('e, bool \<times> bytes) outcome" where
  "update_transport packet ihl old new =
     and_then (read_u16_be packet 6) (\<lambda>frag_field.
     if frag_field AND 0x1fff \<noteq> 0 then Ok (True, packet)
     else and_then (idx packet 9) (\<lambda>proto.
       case csum_offset proto ihl of
         None \<Rightarrow> Ok (True, packet)
       | Some csum_off \<Rightarrow>
           if length packet < csum_off + 2 then Ok (True, packet)
           else and_then (read_u16_be packet csum_off) (\<lambda>t_csum.
             if proto = 17 \<and> t_csum = 0 then Ok (True, packet)
             else let t_csum = rfc1624_update t_csum old new;
                      t_csum = (if proto = 17 \<and> t_csum = 0 then 0xffff else t_csum)
                  in and_then (put packet csum_off (to_be_bytes 2 t_csum)) (\<lambda>packet. Ok (True, packet)))))"

definition rewrite_addr :: "bytes \<Rightarrow> ipv4_addr \<Rightarrow> addr_slot \<Rightarrow> ('e, bool \<times> bytes) outcome" where
  "rewrite_addr packet new_addr slot =
     (if length packet < 20 then Ok (False, packet)
      else and_then (idx packet 0) (\<lambda>b0.
        if drop_bit 4 b0 \<noteq> 4 then Ok (False, packet)
        else let ihl = unat (b0 AND 0x0f) * 4 in
          if ihl < 20 \<or> length packet < ihl then Ok (False, packet)
          else let off = slot_offset slot in
            and_then (read_u32_be packet off) (\<lambda>old.
            let new = new_addr in
            if old = new then Ok (True, packet)
            else
              and_then (put packet off (to_be_bytes 4 new)) (\<lambda>packet.
              and_then (read_u16_be packet 10) (\<lambda>ip_csum.
              and_then (put packet 10 (to_be_bytes 2 (rfc1624_update ip_csum old new))) (\<lambda>packet.
              update_transport packet ihl old new))))))"

definition rewrite_src_ip :: "bytes \<Rightarrow> ipv4_addr \<Rightarrow> ('e, bool \<times> bytes) outcome" where
  "rewrite_src_ip packet new_src = rewrite_addr packet new_src Source"

definition rewrite_dst_ip :: "bytes \<Rightarrow> ipv4_addr \<Rightarrow> ('e, bool \<times> bytes) outcome" where
  "rewrite_dst_ip packet new_dst = rewrite_addr packet new_dst Destination"

section \<open>The incremental update\<close>

definition addr_sum :: "u32 \<Rightarrow> nat" where
  "addr_sum w = unat w div 65536 + unat w mod 65536"

lemma addr_sum_bound: "addr_sum w \<le> 131070"
proof -
  have "unat w div 65536 \<le> 65535" using unat_word_bounds(2) [of w] by linarith
  moreover have "unat w mod 65536 \<le> 65535" by linarith
  ultimately show ?thesis by (simp add: addr_sum_def)
qed

lemma unat_complement_halves:
  "unat (ucast (NOT (drop_bit 16 (w :: u32))) :: u16) = 65535 - unat w div 65536"
  "unat (ucast (NOT ((w :: u32) AND 0xffff)) :: u16) = 65535 - unat w mod 65536"
  "unat (ucast (drop_bit 16 w) :: u16) = unat w div 65536"
  "unat (ucast (w AND 0xffff) :: u16) = unat w mod 65536"
proof -
  have "unat w div 65536 < 65536" using unat_word_bounds(2) [of w] by linarith
  then have hi: "unat (drop_bit 16 w) < 65536" "unat (drop_bit 16 w) = unat w div 65536" by (simp_all only: unat_high_16)
  have lo: "unat (w AND 0xffff) < 65536" "unat (w AND 0xffff) = unat w mod 65536" by (simp_all only: unat_low_16)
  show "unat (ucast (NOT (drop_bit 16 w)) :: u16) = 65535 - unat w div 65536"
    using unat_low_not [OF hi(1)] hi(2) by simp
  show "unat (ucast (NOT (w AND 0xffff)) :: u16) = 65535 - unat w mod 65536"
    using unat_low_not [OF lo(1)] lo(2) by (simp only:)
  show "unat (ucast (drop_bit 16 w) :: u16) = unat w div 65536"
    using unat_ucast_32_16 [of "drop_bit 16 w"] hi by simp
  show "unat (ucast (w AND 0xffff) :: u16) = unat w mod 65536"
    using unat_ucast_32_16 [of "w AND 0xffff"] lo by simp
qed

definition update_sum :: "u16 \<Rightarrow> u32 \<Rightarrow> u32 \<Rightarrow> nat" where
  "update_sum c old new = (65535 - unat c) + (131070 - addr_sum old) + addr_sum new"

lemma unat_u16_le [simp]: "unat (c :: u16) \<le> 65535"
  using unat_word_bounds(1) [of c] by linarith

lemma unat_add_u16: "unat s \<le> 4294901760 \<Longrightarrow> unat (s + ucast (a :: u16) :: u32) = unat s + unat a"
proof -
  assume "unat s \<le> 4294901760"
  then have "unat s + unat a < 4294967296" using unat_u16_le [of a] by linarith
  then show ?thesis by (simp add: unat_word_ariths unat_ucast_16_32)
qed

lemma complement_sums:
  "h \<le> 65535 \<Longrightarrow> l \<le> 65535 \<Longrightarrow> c + (65535 - h) + (65535 - l) + x + y = c + (131070 - (h + l)) + (x + y :: nat)"
  by linarith

lemma unat_rfc1624_update: "unat (rfc1624_update c old new) = 65535 - folded (update_sum c old new)"
proof -
  define a1 a2 a3 a4 :: u16
    where "a1 = ucast (NOT (drop_bit 16 old))" and "a2 = ucast (NOT (old AND 0xffff))"
      and "a3 = ucast (drop_bit 16 new)" and "a4 = ucast (new AND 0xffff)"
  define s :: u32 where "s = ucast (NOT c) + ucast a1 + ucast a2 + ucast a3 + ucast a4"
  have "unat s = unat (NOT c) + unat a1 + unat a2 + unat a3 + unat a4"
  proof -
    have 1: "unat (ucast (NOT c) :: u32) = unat (NOT c)" by (rule unat_ucast_16_32)
    then have 2: "unat (ucast (NOT c) + ucast a1 :: u32) = unat (NOT c) + unat a1"
      using unat_u16_le [of "NOT c"] by (simp only: unat_add_u16)
    then have 3: "unat (ucast (NOT c) + ucast a1 + ucast a2 :: u32) = unat (NOT c) + unat a1 + unat a2"
      using unat_u16_le [of "NOT c"] unat_u16_le [of a1] by (subst unat_add_u16) linarith+
    then have 4: "unat (ucast (NOT c) + ucast a1 + ucast a2 + ucast a3 :: u32) = unat (NOT c) + unat a1 + unat a2 + unat a3"
      using unat_u16_le [of "NOT c"] unat_u16_le [of a1] unat_u16_le [of a2] by (subst unat_add_u16) linarith+
    then show ?thesis
      unfolding s_def
      using unat_u16_le [of "NOT c"] unat_u16_le [of a1] unat_u16_le [of a2] unat_u16_le [of a3] by (subst unat_add_u16) linarith+
  qed
  also have "\<dots> = (65535 - unat c) + (65535 - unat old div 65536) + (65535 - unat old mod 65536)
      + unat new div 65536 + unat new mod 65536"
    unfolding a1_def a2_def a3_def a4_def unat_complement_halves unat_not_16 ..
  also have "\<dots> = update_sum c old new"
    unfolding update_sum_def addr_sum_def by (rule complement_sums) (use unat_word_bounds(2) [of old] in linarith)+
  finally have "unat (fold_carries s) = folded (update_sum c old new)"
    by (simp add: unat_fold_carries)
  then show ?thesis
    unfolding rfc1624_update_def Let_def a1_def [symmetric] a2_def [symmetric] a3_def [symmetric] a4_def [symmetric] s_def [symmetric]
    using folded_bound [of "update_sum c old new"] by (simp add: unat_low_not)
qed

lemma combine_sums:
  assumes "u = f + 65535 * k" "u + t = n + 65535 * 3" "g + f = (65535 :: nat)"
  shows "g + n + 65535 * 3 = t + 65535 * (k + 1)"
  using assms by simp

text \<open>The update, as an equation modulo 65535.\<close>

lemma rfc1624_update_mod:
  "(unat (rfc1624_update c old new) + addr_sum new) mod 65535 = (unat c + addr_sum old) mod 65535"
proof -
  let ?u = "update_sum c old new"
  obtain k where k: "?u = folded ?u + 65535 * k" using folded_decomp by blast
  have u: "?u + (unat c + addr_sum old) = addr_sum new + 65535 * 3"
    using addr_sum_bound [of old] unat_u16_le [of c] unfolding update_sum_def by linarith
  have f: "(65535 - folded ?u) + folded ?u = 65535" using folded_bound [of ?u] by linarith
  have "(unat (rfc1624_update c old new) + addr_sum new) + 65535 * 3 = (unat c + addr_sum old) + 65535 * (k + 1)"
    unfolding unat_rfc1624_update using combine_sums [OF k u f] .
  then show ?thesis by (metis mod_mult_self2)
qed

lemma mod_65535_eq:
  assumes "a mod 65535 = b mod 65535" "a \<le> (65535 :: nat)" "b \<le> 65535"
  shows "a = b \<or> a = 0 \<and> b = 65535 \<or> a = 65535 \<and> b = 0"
  using assms by (cases "a = 65535"; cases "b = 65535") auto

lemma u16_all_ones: "unat (c :: u16) = 65535 \<longleftrightarrow> c = 0xffff"
  using word_unat_eq_iff [of c "0xffff"] by simp

lemma rfc1624_update_back_mod:
  "unat (rfc1624_update (rfc1624_update c old new) new old) mod 65535 = unat c mod 65535"
proof -
  have "(unat (rfc1624_update (rfc1624_update c old new) new old) + addr_sum old) mod 65535
      = (unat c + addr_sum old) mod 65535"
    by (simp add: rfc1624_update_mod)
  then show ?thesis by (rule mod_add_cancel)
qed

lemma rfc1624_update_not_ones: "c \<noteq> 0xffff \<Longrightarrow> rfc1624_update c old new \<noteq> 0xffff"
proof -
  assume "c \<noteq> 0xffff"
  then have "unat c < 65535" using u16_all_ones [of c] unat_u16_le [of c] by linarith
  then have "0 < folded (update_sum c old new)" by (simp add: folded_pos update_sum_def)
  then have "unat (rfc1624_update c old new) \<noteq> 65535" by (simp add: unat_rfc1624_update)
  then show ?thesis by (simp add: u16_all_ones)
qed

lemma rfc1624_update_back: "c \<noteq> 0xffff \<Longrightarrow> rfc1624_update (rfc1624_update c old new) new old = c"
proof -
  assume c: "c \<noteq> 0xffff"
  let ?d = "rfc1624_update (rfc1624_update c old new) new old"
  from c have "?d \<noteq> 0xffff" by (intro rfc1624_update_not_ones)
  with c have "unat ?d \<noteq> 65535" "unat c \<noteq> 65535" by (simp_all add: u16_all_ones)
  with mod_65535_eq [OF rfc1624_update_back_mod [of c old new]] show ?thesis by (simp add: word_unat_eq_iff)
qed

text \<open>The UDP checksum as it is stored: a computed zero becomes all ones.\<close>

definition stored_csum :: "u8 \<Rightarrow> u16 \<Rightarrow> u16" where
  "stored_csum proto c = (if proto = 17 \<and> c = 0 then 0xffff else c)"

lemma stored_csum_mod: "unat (stored_csum proto c) mod 65535 = unat c mod 65535"
  by (simp add: stored_csum_def)

lemma udp_update_back:
  assumes "c \<noteq> 0"
  shows "stored_csum 17 (rfc1624_update (stored_csum 17 (rfc1624_update c old new)) new old) = c"
proof -
  let ?u = "stored_csum 17 (rfc1624_update c old new)"
  let ?d = "stored_csum 17 (rfc1624_update ?u new old)"
  have "(unat ?d + addr_sum old) mod 65535 = (unat (rfc1624_update ?u new old) + addr_sum old) mod 65535"
    by (metis stored_csum_mod mod_add_left_eq)
  also have "\<dots> = (unat ?u + addr_sum new) mod 65535" by (rule rfc1624_update_mod)
  also have "\<dots> = (unat (rfc1624_update c old new) + addr_sum new) mod 65535"
    by (metis stored_csum_mod mod_add_left_eq)
  also have "\<dots> = (unat c + addr_sum old) mod 65535" by (rule rfc1624_update_mod)
  finally have "unat ?d mod 65535 = unat c mod 65535" by (rule mod_add_cancel)
  moreover have "unat ?d \<noteq> 0" "unat c \<noteq> 0" using assms by (simp_all add: stored_csum_def unat_eq_zero)
  ultimately show ?thesis using mod_65535_eq [of "unat ?d" "unat c"] by (simp add: word_unat_eq_iff)
qed

section \<open>Segments of a packet\<close>

definition seg :: "bytes \<Rightarrow> nat \<Rightarrow> nat \<Rightarrow> bytes" where
  "seg p a n = take n (drop a p)"

definition overwrite :: "bytes \<Rightarrow> nat \<Rightarrow> bytes \<Rightarrow> bytes" where
  "overwrite p off v = take off p @ v @ drop (off + length v) p"

lemma length_overwrite [simp]: "off + length v \<le> length p \<Longrightarrow> length (overwrite p off v) = length p"
  by (simp add: overwrite_def)

lemma put_overwrite: "off + length v \<le> length p \<Longrightarrow> put p off v = Ok (overwrite p off v)"
  by (simp add: put_def overwrite_def)

lemma length_seg [simp]: "a + n \<le> length p \<Longrightarrow> length (seg p a n) = n"
  by (simp add: seg_def)

lemma seg_same: "off + length v \<le> length p \<Longrightarrow> seg (overwrite p off v) off (length v) = v"
  by (simp add: seg_def overwrite_def)

lemma seg_before: "a + n \<le> off \<Longrightarrow> off + length v \<le> length p \<Longrightarrow> seg (overwrite p off v) a n = seg p a n"
  by (auto simp: seg_def overwrite_def drop_take)

lemma seg_after: "off + length v \<le> a \<Longrightarrow> off + length v \<le> length p \<Longrightarrow> seg (overwrite p off v) a n = seg p a n"
  by (simp add: seg_def overwrite_def)

lemma nth_overwrite: "i < off \<Longrightarrow> off + length v \<le> length p \<Longrightarrow> overwrite p off v ! i = p ! i"
  by (simp add: overwrite_def nth_append)

lemma read_seg:
  "off + 2 \<le> length p \<Longrightarrow> read_u16_be p off = Ok (from_be_bytes (seg p off 2))"
  "off + 4 \<le> length p \<Longrightarrow> read_u32_be p off = Ok (from_be_bytes (seg p off 4))"
  by (simp_all add: seg_def)

lemma overwrite_overwrite: "length v = length w \<Longrightarrow> off + length v \<le> length p \<Longrightarrow> overwrite (overwrite p off v) off w = overwrite p off w"
  by (simp add: overwrite_def)

lemma overwrite_seg: "off + n \<le> length p \<Longrightarrow> overwrite p off (seg p off n) = p"
  by (simp add: overwrite_def seg_def) (metis append_take_drop_id drop_drop add.commute)

lemma overwrite_commute:
  "off + length v \<le> off' \<Longrightarrow> off' + length w \<le> length p \<Longrightarrow>
     overwrite (overwrite p off v) off' w = overwrite (overwrite p off' w) off v"
  by (simp add: overwrite_def drop_take)

lemma seg_split: "seg p a (m + n) = seg p a m @ seg p (a + m) n"
  by (simp add: seg_def take_add add.commute)

text \<open>Replacing words inside a range changes the sum of the range by the difference.\<close>

lemma word_sum_overwrite:
  assumes "even d" "even (length v)" "d + length v \<le> n" "a + n \<le> length p"
  shows "word_sum (seg (overwrite p (a + d) v) a n) + word_sum (seg p (a + d) (length v)) = word_sum (seg p a n) + word_sum v"
proof -
  obtain r where n: "n = d + (length v + r)" using assms(3) le_Suc_ex by (metis add.assoc)
  let ?q = "overwrite p (a + d) v"
  have "seg ?q a n = seg p a d @ v @ seg p (a + d + length v) r"
    using assms(4) by (simp add: n seg_split seg_before seg_same seg_after)
  moreover have "seg p a n = seg p a d @ seg p (a + d) (length v) @ seg p (a + d + length v) r"
    by (simp add: n seg_split)
  ultimately show ?thesis
    using assms n by (simp add: word_sum_append)
qed

section \<open>The result of a rewrite\<close>

definition ihl_of :: "bytes \<Rightarrow> nat" where
  "ihl_of p = unat (p ! 0 AND 0x0f) * 4"

definition usable_ipv4 :: "bytes \<Rightarrow> bool" where
  "usable_ipv4 p \<longleftrightarrow> 20 \<le> length p \<and> drop_bit 4 (p ! 0) = 4 \<and> 20 \<le> ihl_of p \<and> ihl_of p \<le> length p"

text \<open>The offset of the transport checksum that has to follow the addresses, if the packet has one.\<close>

definition active_csum :: "bytes \<Rightarrow> nat option" where
  "active_csum p =
     (if (from_be_bytes (seg p 6 2) :: u16) AND 0x1fff \<noteq> 0 then None
      else case csum_offset (p ! 9) (ihl_of p) of
        None \<Rightarrow> None
      | Some off \<Rightarrow> if length p < off + 2 \<or> p ! 9 = 17 \<and> (from_be_bytes (seg p off 2) :: u16) = 0 then None else Some off)"

definition with_transport :: "bytes \<Rightarrow> u32 \<Rightarrow> u32 \<Rightarrow> bytes" where
  "with_transport p old new =
     (case active_csum p of
        None \<Rightarrow> p
      | Some off \<Rightarrow> overwrite p off (to_be_bytes 2 (stored_csum (p ! 9) (rfc1624_update (from_be_bytes (seg p off 2)) old new))))"

definition with_header :: "bytes \<Rightarrow> nat \<Rightarrow> u32 \<Rightarrow> u32 \<Rightarrow> bytes" where
  "with_header p off old new =
     overwrite (overwrite p off (to_be_bytes 4 new)) 10 (to_be_bytes 2 (rfc1624_update (from_be_bytes (seg p 10 2)) old new))"

definition addr_at :: "bytes \<Rightarrow> addr_slot \<Rightarrow> u32" where
  "addr_at p slot = from_be_bytes (seg p (slot_offset slot) 4)"

lemma slot_offset_bounds: "12 \<le> slot_offset slot" "slot_offset slot + 4 \<le> 20" "even (slot_offset slot)"
  by (cases slot; simp)+

lemma update_transport_eq:
  assumes "20 \<le> length p"
  shows "update_transport p (ihl_of p) old new = Ok (True, with_transport p old new)"
proof (cases "(from_be_bytes (seg p 6 2) :: u16) AND 0x1fff \<noteq> 0")
  case True
  with assms show ?thesis
    by (simp add: update_transport_def with_transport_def active_csum_def read_seg del: read_be_ok)
next
  case False
  show ?thesis
  proof (cases "csum_offset (p ! 9) (ihl_of p)")
    case None
    with False assms show ?thesis
      by (simp add: update_transport_def with_transport_def active_csum_def read_seg del: read_be_ok)
  next
    case (Some off)
    show ?thesis
    proof (cases "length p < off + 2")
      case True
      with False Some assms show ?thesis
        by (simp add: update_transport_def with_transport_def active_csum_def read_seg del: read_be_ok)
    next
      case len: False
      with False Some assms show ?thesis
        by (simp add: update_transport_def with_transport_def active_csum_def read_seg stored_csum_def put_overwrite Let_def del: read_be_ok)
    qed
  qed
qed

lemma rewrite_addr_eq:
  "(rewrite_addr p new slot :: ('e, bool \<times> bytes) outcome) =
     (if \<not> usable_ipv4 p then Ok (False, p)
      else if addr_at p slot = new then Ok (True, p)
      else Ok (True, with_transport (with_header p (slot_offset slot) (addr_at p slot) new) (addr_at p slot) new))"
proof (cases "usable_ipv4 p")
  case True
  then have len: "20 \<le> length p" by (simp add: usable_ipv4_def)
  then have ne: "p \<noteq> []" by auto
  let ?off = "slot_offset slot"
  let ?p1 = "overwrite p ?off (to_be_bytes 4 new)"
  have off: "?off + 4 \<le> length p" "12 \<le> ?off" using slot_offset_bounds [of slot] len by linarith+
  have l1: "length ?p1 = length p" using off by simp
  have csum: "seg ?p1 10 2 = seg p 10 2" using off len by (intro seg_before) simp_all
  let ?q = "with_header p ?off (addr_at p slot) new"
  have lq: "length ?q = length p" using off len by (simp add: with_header_def)
  have "?q ! 0 = p ! 0" using off len by (simp add: with_header_def nth_overwrite)
  then have ihl: "ihl_of ?q = ihl_of p" by (simp add: ihl_of_def)
  have upd: "(update_transport ?q (ihl_of p) (addr_at p slot) new :: ('e, bool \<times> bytes) outcome)
      = Ok (True, with_transport ?q (addr_at p slot) new)"
    using update_transport_eq [of ?q] lq len ihl by simp
  have "(rewrite_addr p new slot :: ('e, bool \<times> bytes) outcome) = (if addr_at p slot = new then Ok (True, p)
      else update_transport ?q (ihl_of p) (addr_at p slot) new)"
    using True len off l1 csum ne
    by (simp add: rewrite_addr_def Let_def usable_ipv4_def ihl_of_def [symmetric] put_overwrite read_seg addr_at_def [symmetric]
        with_header_def del: read_be_ok)
  with True upd show ?thesis by simp
next
  case False
  show ?thesis
  proof (cases "length p < 20")
    case True
    with False show ?thesis by (simp add: rewrite_addr_def)
  next
    case len: False
    then have "p \<noteq> []" by auto
    with False len show ?thesis by (auto simp: rewrite_addr_def usable_ipv4_def ihl_of_def [symmetric] Let_def)
  qed
qed

lemma with_header_frame:
  assumes "20 \<le> length p" and q_def: "q = with_header p (slot_offset slot) old new"
  shows "length q = length p" "i < 10 \<Longrightarrow> q ! i = p ! i" "a + n \<le> 10 \<Longrightarrow> seg q a n = seg p a n"
    "20 \<le> a \<Longrightarrow> seg q a n = seg p a n" "seg q (slot_offset slot) 4 = to_be_bytes 4 new"
    "seg q 10 2 = to_be_bytes 2 (rfc1624_update (from_be_bytes (seg p 10 2)) old new)"
proof -
  have off: "slot_offset slot + 4 \<le> length p" "12 \<le> slot_offset slot" "slot_offset slot + 4 \<le> 20"
    using slot_offset_bounds [of slot] assms(1) by linarith+
  let ?p1 = "overwrite p (slot_offset slot) (to_be_bytes 4 new)"
  have l: "length ?p1 = length p" using off by simp
  with assms(1) show "length q = length p" by (simp add: q_def with_header_def)
  show "i < 10 \<Longrightarrow> q ! i = p ! i" "a + n \<le> 10 \<Longrightarrow> seg q a n = seg p a n" "20 \<le> a \<Longrightarrow> seg q a n = seg p a n"
    using off l assms(1) by (simp_all add: q_def with_header_def nth_overwrite seg_before seg_after)
  show "seg q (slot_offset slot) 4 = to_be_bytes 4 new"
    using off l assms(1) seg_same [of "slot_offset slot" "to_be_bytes 4 new" p]
    by (simp add: q_def with_header_def seg_after)
  show "seg q 10 2 = to_be_bytes 2 (rfc1624_update (from_be_bytes (seg p 10 2)) old new)"
    using l assms(1) seg_same [of 10 "to_be_bytes 2 (rfc1624_update (from_be_bytes (seg p 10 2)) old new)" ?p1]
    by (simp add: q_def with_header_def)
qed

lemma active_csum_Some:
  assumes "active_csum p = Some off"
  shows "csum_offset (p ! 9) (ihl_of p) = Some off" "off + 2 \<le> length p" "ihl_of p + 6 \<le> off"
    "even (off - ihl_of p)" "p ! 9 = 17 \<Longrightarrow> (from_be_bytes (seg p off 2) :: u16) \<noteq> 0" "p ! 9 = 6 \<or> p ! 9 = 17"
  using assms by (auto simp: active_csum_def csum_offset_def split: if_splits option.splits)

lemma active_csum_cong:
  assumes "length q = length p" "q ! 0 = p ! 0" "q ! 9 = p ! 9" "seg q 6 2 = seg p 6 2"
    and "\<And>off. csum_offset (p ! 9) (ihl_of p) = Some off \<Longrightarrow> off + 2 \<le> length p \<Longrightarrow> p ! 9 = 17 \<Longrightarrow>
        ((from_be_bytes (seg q off 2) :: u16) = 0 \<longleftrightarrow> (from_be_bytes (seg p off 2) :: u16) = 0)"
  shows "active_csum q = active_csum p"
proof -
  have "ihl_of q = ihl_of p" using assms(2) by (simp add: ihl_of_def)
  with assms(1,3,4) show ?thesis
    using assms(5) by (auto simp: active_csum_def split: option.split)
qed

lemma with_transport_frame:
  assumes "20 \<le> length p" "20 \<le> ihl_of p" and q_def: "q = with_transport p old new"
  shows "length q = length p" "i < 20 \<Longrightarrow> q ! i = p ! i" "a + n \<le> ihl_of p \<Longrightarrow> seg q a n = seg p a n"
    "active_csum p = Some off \<Longrightarrow>
       seg q off 2 = to_be_bytes 2 (stored_csum (p ! 9) (rfc1624_update (from_be_bytes (seg p off 2)) old new))"
    "active_csum q = active_csum p"
proof -
  show l: "length q = length p"
    using active_csum_Some(2) [of p] by (auto simp: q_def with_transport_def split: option.split)
  show n: "q ! i = p ! i" if "i < 20" for i
    using that assms(2) active_csum_Some(2,3) [of p]
    by (fastforce simp: q_def with_transport_def intro: nth_overwrite split: option.split)
  show s: "seg q a n = seg p a n" if "a + n \<le> ihl_of p" for a n
    using that active_csum_Some(2,3) [of p]
    by (fastforce simp: q_def with_transport_def intro: seg_before split: option.split)
  show c: "seg q off 2 = to_be_bytes 2 (stored_csum (p ! 9) (rfc1624_update (from_be_bytes (seg p off 2)) old new))"
    if "active_csum p = Some off" for off
    using that active_csum_Some(2) [OF that] seg_same [of off "to_be_bytes 2 _" p]
    by (simp add: q_def with_transport_def)
  show "active_csum q = active_csum p"
  proof (cases "active_csum p")
    case None
    then show ?thesis by (simp add: q_def with_transport_def)
  next
    case (Some off)
    show ?thesis
    proof (rule active_csum_cong [OF l])
      fix off'
      assume "csum_offset (p ! 9) (ihl_of p) = Some off'" "p ! 9 = 17"
      with Some c [OF Some] active_csum_Some(1,5) [OF Some]
      show "((from_be_bytes (seg q off' 2) :: u16) = 0) = ((from_be_bytes (seg p off' 2) :: u16) = 0)"
        by (simp add: stored_csum_def)
    qed (use n s assms(1,2) in simp_all)
  qed
qed

section \<open>Checksums of the result\<close>

definition total_length :: "bytes \<Rightarrow> nat" where
  "total_length p = unat (from_be_bytes (seg p 2 2) :: u16)"

text \<open>The sum a receiver forms over the pseudo-header and the segment of a TCP or UDP packet.\<close>

definition transport_sum :: "bytes \<Rightarrow> nat" where
  "transport_sum p = word_sum (seg p 12 8) + unat (p ! 9) + (total_length p - ihl_of p)
     + word_sum (seg p (ihl_of p) (total_length p - ihl_of p))"

definition transport_valid :: "bytes \<Rightarrow> bool" where
  "transport_valid p = (case active_csum p of
       None \<Rightarrow> True
     | Some off \<Rightarrow> off + 2 \<le> total_length p \<and> total_length p \<le> length p \<longrightarrow> valid_sum (transport_sum p))"

definition header_valid :: "bytes \<Rightarrow> bool" where
  "header_valid p \<longleftrightarrow> calculate_ip_checksum (take (ihl_of p) p) = 0"

lemma ihl_of_bounds: "ihl_of p \<le> 60" "even (ihl_of p)"
proof -
  have "p ! 0 AND 0x0f = take_bit 4 (p ! 0)" by (simp add: take_bit_eq_mask mask_numeral)
  then have "unat (p ! 0 AND 0x0f) < 16"
    using unsigned_take_bit_eq [of 4 "p ! 0", where 'a = nat] by (simp add: take_bit_eq_mod)
  then show "ihl_of p \<le> 60" "even (ihl_of p)" by (simp_all add: ihl_of_def)
qed

lemma header_valid_iff: "ihl_of p \<le> length p \<Longrightarrow> header_valid p \<longleftrightarrow> valid_sum (word_sum (seg p 0 (ihl_of p)))"
  unfolding header_valid_def seg_def drop_0 using ihl_of_bounds [of p] by (intro checksum_zero_iff) simp_all

lemma valid_sum_shift:
  assumes "valid_sum w" "w' + x = w + x'" "x' mod 65535 = x mod 65535" "0 < w'"
  shows "valid_sum w'"
proof -
  have "(w' + x) mod 65535 = (w + x) mod 65535" unfolding assms(2) using assms(3) by (rule mod_add_cong [OF refl])
  then have "w' mod 65535 = w mod 65535" by (rule mod_add_cancel)
  with assms(1,4) show ?thesis by (simp add: valid_sum_def)
qed

lemma word_sum_seg_addr:
  "slot_offset slot + 4 \<le> length p \<Longrightarrow> word_sum (seg p (slot_offset slot) 4) = addr_sum (addr_at p slot)"
  using word_sum_quad [of "seg p (slot_offset slot) 4"] by (simp add: addr_sum_def addr_at_def)

lemma word_sum_addr: "word_sum (to_be_bytes 4 (w :: u32)) = addr_sum w"
  by (simp add: word_sum_be_32 addr_sum_def)

lemma word_sum_seg_pair: "off + 2 \<le> length p \<Longrightarrow> word_sum (seg p off 2) = unat (from_be_bytes (seg p off 2) :: u16)"
  by (simp add: word_sum_pair)

lemma with_header_sum:
  assumes "usable_ipv4 p" and q: "q = with_header p (slot_offset slot) (addr_at p slot) new"
  defines "c \<equiv> from_be_bytes (seg p 10 2) :: u16"
  shows "word_sum (seg q 0 (ihl_of p)) + (unat c + addr_sum (addr_at p slot))
    = word_sum (seg p 0 (ihl_of p)) + (unat (rfc1624_update c (addr_at p slot) new) + addr_sum new)"
proof -
  let ?off = "slot_offset slot" and ?p1 = "overwrite p (slot_offset slot) (to_be_bytes 4 new)"
  let ?c' = "rfc1624_update c (addr_at p slot) new"
  have b: "20 \<le> ihl_of p" "ihl_of p \<le> length p" "20 \<le> length p" using assms(1) by (simp_all add: usable_ipv4_def)
  have o: "?off + 4 \<le> ihl_of p" "12 \<le> ?off" "?off + 4 \<le> length p" "even ?off"
    using slot_offset_bounds [of slot] b by linarith+
  have 1: "word_sum (seg ?p1 0 (ihl_of p)) + addr_sum (addr_at p slot) = word_sum (seg p 0 (ihl_of p)) + addr_sum new"
    using word_sum_overwrite [of ?off "to_be_bytes 4 new" "ihl_of p" 0 p] o b
    by (simp add: word_sum_seg_addr word_sum_addr)
  have "seg ?p1 10 2 = seg p 10 2" using o b by (intro seg_before) simp_all
  then have "word_sum (seg ?p1 10 2) = unat c" using b by (simp add: c_def word_sum_seg_pair)
  then have 2: "word_sum (seg q 0 (ihl_of p)) + unat c = word_sum (seg ?p1 0 (ihl_of p)) + unat ?c'"
    using word_sum_overwrite [of 10 "to_be_bytes 2 ?c'" "ihl_of p" 0 ?p1] o b
    by (simp add: q with_header_def c_def [symmetric] word_sum_be_16)
  from 1 2 show ?thesis by linarith
qed

lemma word_sum_pos: "0 < n \<Longrightarrow> xs ! 0 \<noteq> 0 \<Longrightarrow> n \<le> length xs \<Longrightarrow> 0 < word_sum (seg xs 0 n)"
  by (cases xs rule: word_sum.cases; cases n; cases "n - 1") (auto simp: seg_def unat_gt_0 take_Cons')

lemma with_header_pseudo:
  assumes "20 \<le> length p" and q: "q = with_header p (slot_offset slot) (addr_at p slot) new"
  shows "word_sum (seg q 12 8) + addr_sum (addr_at p slot) = word_sum (seg p 12 8) + addr_sum new"
proof -
  let ?p1 = "overwrite p (slot_offset slot) (to_be_bytes 4 new)"
  have o: "slot_offset slot + 4 \<le> length p" "slot_offset slot = 12 + (slot_offset slot - 12)"
    "even (slot_offset slot - 12)" "slot_offset slot - 12 + 4 \<le> 8"
    using assms(1) by (cases slot; simp)+
  have "seg q 12 8 = seg ?p1 12 8"
    using o(1) assms(1) by (simp add: q with_header_def seg_after)
  moreover have "word_sum (seg ?p1 12 8) + addr_sum (addr_at p slot) = word_sum (seg p 12 8) + addr_sum new"
    using word_sum_overwrite [of "slot_offset slot - 12" "to_be_bytes 4 new" 8 12 p] o assms(1)
    by (simp add: word_sum_seg_addr word_sum_addr)
  ultimately show ?thesis by simp
qed

lemma with_header_active:
  assumes "usable_ipv4 p" and q: "q = with_header p (slot_offset slot) old new"
  shows "active_csum q = active_csum p" "ihl_of q = ihl_of p" "usable_ipv4 q"
proof -
  have b: "20 \<le> ihl_of p" "20 \<le> length p" using assms(1) by (simp_all add: usable_ipv4_def)
  note f = with_header_frame [OF b(2) q]
  show i: "ihl_of q = ihl_of p" using f(2) [of 0] by (simp add: ihl_of_def)
  show "usable_ipv4 q" using assms(1) f(1) f(2) [of 0] i by (simp add: usable_ipv4_def)
  show "active_csum q = active_csum p"
  proof (rule active_csum_cong)
    fix off
    assume "csum_offset (p ! 9) (ihl_of p) = Some off"
    then have "20 \<le> off" using b(1) by (auto simp: csum_offset_def split: if_splits)
    then show "((from_be_bytes (seg q off 2) :: u16) = 0) = ((from_be_bytes (seg p off 2) :: u16) = 0)"
      using f(4) by simp
  qed (use f in simp_all)
qed

lemma transport_sum_shift:
  assumes p: "usable_ipv4 p" and q1: "q1 = with_header p (slot_offset slot) (addr_at p slot) new"
    and q: "q = with_transport q1 (addr_at p slot) new"
    and active: "active_csum p = Some off" "off + 2 \<le> total_length p" "total_length p \<le> length p"
  defines "t \<equiv> from_be_bytes (seg p off 2) :: u16"
  shows "transport_sum q + (unat t + addr_sum (addr_at p slot))
    = transport_sum p + (unat (stored_csum (p ! 9) (rfc1624_update t (addr_at p slot) new)) + addr_sum new)"
proof -
  have b: "20 \<le> ihl_of p" "20 \<le> length p" using p by (simp_all add: usable_ipv4_def)
  note f1 = with_header_frame [OF b(2) q1] and a1 = with_header_active [OF p q1]
  have l1: "20 \<le> length q1" "20 \<le> ihl_of q1" using b f1(1) a1(2) by simp_all
  note f2 = with_transport_frame [OF l1 q]
  note o = active_csum_Some [OF active(1)]
  have same: "ihl_of q = ihl_of p" "q ! 9 = p ! 9" "total_length q = total_length p" "q1 ! 9 = p ! 9"
    using f1(2,3) f2(2,3) a1(2) b by (simp_all add: ihl_of_def total_length_def)
  have pseudo: "word_sum (seg q 12 8) + addr_sum (addr_at p slot) = word_sum (seg p 12 8) + addr_sum new"
    using with_header_pseudo [OF b(2) q1] f2(3) [of 12 8] a1(2) b by simp
  let ?n = "total_length p - ihl_of p" and ?t' = "stored_csum (p ! 9) (rfc1624_update t (addr_at p slot) new)"
  have s1: "seg q1 a n = seg p a n" if "20 \<le> a" for a n using f1(4) that by simp
  have "off = ihl_of p + (off - ihl_of p)" "off - ihl_of p + 2 \<le> ?n" "ihl_of p + ?n \<le> length q1"
    using o(3) active(2,3) f1(1) by simp_all
  moreover have "q = overwrite q1 off (to_be_bytes 2 ?t')"
    using a1(1) active(1) s1 [of off 2] o(3) b same(4) by (simp add: q with_transport_def t_def)
  ultimately have "word_sum (seg q (ihl_of p) ?n) + word_sum (seg q1 off 2) = word_sum (seg q1 (ihl_of p) ?n) + unat ?t'"
    using word_sum_overwrite [of "off - ihl_of p" "to_be_bytes 2 ?t'" ?n "ihl_of p" q1] o(4) by (simp add: word_sum_be_16)
  moreover have "word_sum (seg q1 off 2) = unat t"
    using s1 [of off 2] o(2,3) b by (simp add: t_def word_sum_seg_pair)
  ultimately have "word_sum (seg q (ihl_of p) ?n) + unat t = word_sum (seg p (ihl_of p) ?n) + unat ?t'"
    using s1 [OF b(1)] by simp
  with pseudo show ?thesis by (simp add: transport_sum_def same)
qed

lemma rewrite_valid:
  assumes p: "usable_ipv4 p" and q1: "q1 = with_header p (slot_offset slot) (addr_at p slot) new"
    and q: "q = with_transport q1 (addr_at p slot) new"
  shows "length q = length p" "addr_at q slot = new" "header_valid p \<Longrightarrow> header_valid q"
    "transport_valid p \<Longrightarrow> transport_valid q"
proof -
  let ?old = "addr_at p slot"
  have b: "20 \<le> ihl_of p" "ihl_of p \<le> length p" "20 \<le> length p" using p by (simp_all add: usable_ipv4_def)
  note f1 = with_header_frame [OF b(3) q1] and a1 = with_header_active [OF p q1]
  have l1: "20 \<le> length q1" "20 \<le> ihl_of q1" using b f1(1) a1(2) by simp_all
  note f2 = with_transport_frame [OF l1 q]
  show len: "length q = length p" using f1(1) f2(1) by simp
  have "slot_offset slot + 4 \<le> ihl_of q1" using slot_offset_bounds [of slot] l1 by linarith
  then show "addr_at q slot = new" using f1(5) f2(3) by (simp add: addr_at_def)
  have i: "ihl_of q = ihl_of p" "q ! 0 = p ! 0" "q ! 9 = p ! 9" using f1(2) f2(2) by (simp_all add: ihl_of_def)
  have "p ! 0 \<noteq> 0" using p by (auto simp: usable_ipv4_def)
  then have pos: "0 < word_sum (seg q 0 (ihl_of p))" using word_sum_pos [of "ihl_of p" q] i len b by simp
  show "header_valid q" if "header_valid p"
  proof -
    have "valid_sum (word_sum (seg p 0 (ihl_of p)))" using that header_valid_iff b by simp
    moreover have "word_sum (seg q 0 (ihl_of p)) = word_sum (seg q1 0 (ihl_of p))" using f2(3) [of 0] a1(2) by simp
    ultimately have "valid_sum (word_sum (seg q 0 (ihl_of p)))"
      using with_header_sum [OF p q1] rfc1624_update_mod pos by (metis valid_sum_shift)
    then show ?thesis using header_valid_iff [of q] i len b by simp
  qed
  show "transport_valid q" if v: "transport_valid p"
  proof (cases "active_csum p")
    case None
    then show ?thesis using f2(5) a1(1) by (simp add: transport_valid_def)
  next
    case (Some off)
    let ?t = "from_be_bytes (seg p off 2) :: u16"
    have tl: "total_length q = total_length p" using f1(3) f2(3) [of 2 2] l1 by (simp add: total_length_def)
    have "0 < transport_sum q" using active_csum_Some(6) [OF Some] i by (auto simp: transport_sum_def)
    moreover have "(unat (stored_csum (p ! 9) (rfc1624_update ?t ?old new)) + addr_sum new) mod 65535 = (unat ?t + addr_sum ?old) mod 65535"
      using rfc1624_update_mod stored_csum_mod by (metis mod_add_left_eq)
    ultimately show ?thesis
      using v Some transport_sum_shift [OF p q1 q Some] f2(5) a1(1) tl len valid_sum_shift
      by (auto simp: transport_valid_def)
  qed
qed

section \<open>Rewriting back\<close>

lemma nth_overwrite_if:
  "off + length v \<le> length p \<Longrightarrow> i < length p \<Longrightarrow>
     overwrite p off v ! i = (if off \<le> i \<and> i < off + length v then v ! (i - off) else p ! i)"
  by (auto simp: overwrite_def nth_append)

lemma overwrite_undo:
  assumes "off + length n \<le> x" "10 + length c \<le> off" "x + length t \<le> length p"
  shows "overwrite (overwrite (overwrite (overwrite (overwrite p off n) 10 c) x t)
      off (seg p off (length n))) 10 (seg p 10 (length c)) = overwrite p x t"
proof (rule nth_equalityI)
  fix i
  assume "i < length (overwrite (overwrite (overwrite (overwrite (overwrite p off n) 10 c) x t)
      off (seg p off (length n))) 10 (seg p 10 (length c)))"
  then have "i < length p" using assms by simp
  with assms show "overwrite (overwrite (overwrite (overwrite (overwrite p off n) 10 c) x t)
      off (seg p off (length n))) 10 (seg p 10 (length c)) ! i = overwrite p x t ! i"
    by (auto simp: nth_overwrite_if seg_def)
qed (use assms in simp)

lemma seg_of_be_16: "off + 2 \<le> length p \<Longrightarrow> to_be_bytes 2 (from_be_bytes (seg p off 2) :: u16) = seg p off 2"
  unfolding seg_def by (rule to_be_from_be_take) simp_all

lemma seg_of_be_32: "off + 4 \<le> length p \<Longrightarrow> to_be_bytes 4 (from_be_bytes (seg p off 4) :: u32) = seg p off 4"
  unfolding seg_def by (rule to_be_from_be_take) simp_all

text \<open>A TCP checksum of all ones is the only one that is not restored.\<close>

definition restorable :: "bytes \<Rightarrow> bool" where
  "restorable p \<longleftrightarrow> (from_be_bytes (seg p 10 2) :: u16) \<noteq> 0xffff
     \<and> (case active_csum p of None \<Rightarrow> True | Some off \<Rightarrow> p ! 9 = 6 \<longrightarrow> (from_be_bytes (seg p off 2) :: u16) \<noteq> 0xffff)"

lemma stored_update_back:
  assumes "active_csum p = Some off" "restorable p"
  shows "stored_csum (p ! 9) (rfc1624_update (stored_csum (p ! 9) (rfc1624_update (from_be_bytes (seg p off 2)) old new)) new old)
    = from_be_bytes (seg p off 2)"
proof (cases "p ! 9 = 17")
  case True
  with active_csum_Some(5) [OF assms(1)] show ?thesis by (simp add: udp_update_back)
next
  case False
  with active_csum_Some(6) [OF assms(1)] assms have "(from_be_bytes (seg p off 2) :: u16) \<noteq> 0xffff"
    by (simp add: restorable_def)
  with False show ?thesis by (simp add: stored_csum_def rfc1624_update_back)
qed

lemma rewrite_back:
  assumes p: "usable_ipv4 p" "restorable p" and q1: "q1 = with_header p (slot_offset slot) (addr_at p slot) new"
    and q: "q = with_transport q1 (addr_at p slot) new"
  shows "with_transport (with_header q (slot_offset slot) new (addr_at p slot)) new (addr_at p slot) = p"
proof -
  let ?old = "addr_at p slot" and ?off = "slot_offset slot"
  define q2 where "q2 = with_header q ?off new ?old"
  have b: "20 \<le> ihl_of p" "20 \<le> length p" using p by (simp_all add: usable_ipv4_def)
  have o: "12 \<le> ?off" "?off + 4 \<le> 20" "?off + 4 \<le> length p" using slot_offset_bounds [of slot] b by linarith+
  note f1 = with_header_frame [OF b(2) q1] and a1 = with_header_active [OF p(1) q1]
  have l1: "20 \<le> length q1" "20 \<le> ihl_of q1" using b f1(1) a1(2) by simp_all
  note f2 = with_transport_frame [OF l1 q]
  let ?c = "from_be_bytes (seg p 10 2) :: u16"
  have "seg q 10 2 = to_be_bytes 2 (rfc1624_update ?c ?old new)" using f1(6) f2(3) [of 10 2] l1 by simp
  then have "rfc1624_update (from_be_bytes (seg q 10 2)) new ?old = ?c"
    using p(2) by (simp add: rfc1624_update_back restorable_def)
  then have q2: "q2 = overwrite (overwrite q ?off (seg p ?off 4)) 10 (seg p 10 2)"
    unfolding q2_def with_header_def using o b by (simp add: addr_at_def seg_of_be_16 seg_of_be_32)
  have uq: "usable_ipv4 q" using a1(3) f2(1) f2(2) [of 0] by (simp add: usable_ipv4_def ihl_of_def)
  have act: "active_csum q2 = active_csum p" using with_header_active(1) [OF uq q2_def] f2(5) a1(1) by simp
  show ?thesis
  proof (cases "active_csum p")
    case None
    then have "q = q1" using a1(1) by (simp add: q with_transport_def)
    then have "q2 = overwrite p (length p) []"
      using overwrite_undo [of ?off "to_be_bytes 4 new" "length p" "to_be_bytes 2 (rfc1624_update ?c ?old new)" "[]" p] o b q2
      by (simp add: q1 with_header_def overwrite_def)
    with None act show ?thesis by (simp add: q2_def [symmetric] with_transport_def overwrite_def)
  next
    case (Some x)
    let ?t = "from_be_bytes (seg p x 2) :: u16"
    let ?t' = "stored_csum (p ! 9) (rfc1624_update ?t ?old new)"
    note ao = active_csum_Some [OF Some]
    have s1: "seg q1 x 2 = seg p x 2" using f1(4) ao(3) b by simp
    then have q': "q = overwrite q1 x (to_be_bytes 2 ?t')" using a1(1) Some f1(2) by (simp add: q with_transport_def)
    then have e2: "q2 = overwrite p x (to_be_bytes 2 ?t')"
      using overwrite_undo [of ?off "to_be_bytes 4 new" x "to_be_bytes 2 (rfc1624_update ?c ?old new)" "to_be_bytes 2 ?t'" p]
        o b ao q2 by (simp add: q1 with_header_def)
    then have "seg q2 x 2 = to_be_bytes 2 ?t'" using seg_same [of x "to_be_bytes 2 ?t'" p] ao(2) by simp
    moreover have "q2 ! 9 = p ! 9" using e2 ao(2,3) b by (simp add: nth_overwrite)
    ultimately have "with_transport q2 new ?old = overwrite (overwrite p x (to_be_bytes 2 ?t')) x (to_be_bytes 2 ?t)"
      using act Some e2 stored_update_back [OF Some p(2)] by (simp add: with_transport_def)
    also have "\<dots> = p" using ao(2) by (simp add: overwrite_overwrite seg_of_be_16 overwrite_seg)
    finally show ?thesis by (simp add: q2_def)
  qed
qed

text \<open>A TCP packet from 10.200.0.2 port 12345 to 142.250.72.14 port 443 with correct checksums.\<close>

definition demo_tcp :: bytes where
  "demo_tcp = [69, 0, 0, 40, 0, 0, 0, 0, 64, 6, 152, 254, 10, 200, 0, 2, 
     142, 250, 72, 14, 48, 57, 1, 187, 0, 0, 0, 0, 0, 0, 0, 0, 80, 0, 0, 0, 156, 30, 0, 0]"

lemma demo_tcp_fields:
  "ihl_of demo_tcp = 20" "length demo_tcp = 40" "total_length demo_tcp = 40" "active_csum demo_tcp = Some 36"
  by (simp_all add: demo_tcp_def ihl_of_def total_length_def active_csum_def csum_offset_def seg_def
      from_be_bytes_def from_le_bytes_def)

lemma demo_tcp_valid:
  "usable_ipv4 demo_tcp" "header_valid demo_tcp" "transport_valid demo_tcp" "restorable demo_tcp"
proof -
  show "usable_ipv4 demo_tcp"
    by (simp add: usable_ipv4_def demo_tcp_fields) (simp add: demo_tcp_def)
  show "header_valid demo_tcp"
    by (simp add: header_valid_iff demo_tcp_fields) (simp add: demo_tcp_def seg_def valid_sum_def)
  show "transport_valid demo_tcp"
    by (simp add: transport_valid_def transport_sum_def demo_tcp_fields) (simp add: demo_tcp_def seg_def valid_sum_def)
  show "restorable demo_tcp"
    by (simp add: restorable_def demo_tcp_fields) (simp add: demo_tcp_def seg_def from_be_bytes_def from_le_bytes_def)
qed

section \<open>Properties\<close>

text \<open>C7: rewriting an address always returns. It accepts exactly the packets with an IPv4 header that fits, and
  leaves the others as they are. An accepted packet keeps its length and carries the new address; a
  correct header checksum stays correct, and so does a correct TCP or UDP checksum over the pseudo-header,
  a disabled UDP checksum staying disabled.\<close>

theorem rewrite_keeps_packet_valid:
  "\<exists>b q. rewrite_addr p new slot = (Ok (b, q) :: ('e, _) outcome) \<and> (b \<longleftrightarrow> usable_ipv4 p) \<and> (\<not> b \<longrightarrow> q = p)
     \<and> (b \<longrightarrow> length q = length p \<and> addr_at q slot = new
          \<and> (header_valid p \<longrightarrow> header_valid q) \<and> (transport_valid p \<longrightarrow> transport_valid q))"
proof (cases "usable_ipv4 p \<and> addr_at p slot \<noteq> new")
  case True
  with rewrite_valid [of p, OF _ refl refl] show ?thesis by (auto simp: rewrite_addr_eq)
next
  case False
  then show ?thesis by (auto simp: rewrite_addr_eq)
qed

theorem rewrite_keeps_packet_valid_witness:
  "\<exists>q. rewrite_addr demo_tcp 0x0AC80007 Source = (Ok (True, q) :: (unit, _) outcome)
     \<and> addr_at q Source = 0x0AC80007 \<and> header_valid q \<and> transport_valid q"
  using rewrite_keeps_packet_valid [of demo_tcp "0x0AC80007" Source, where 'e = unit] demo_tcp_valid by auto

text \<open>C19: rewriting an address and then rewriting it back to what it was restores the packet byte for byte,
  unless its IP or TCP checksum was written as all ones.\<close>

theorem rewrite_back_restores:
  assumes "rewrite_addr p new slot = (Ok (True, q) :: ('e, _) outcome)" "restorable p"
  shows "rewrite_addr q (addr_at p slot) slot = (Ok (True, p) :: ('e, _) outcome)"
proof (cases "addr_at p slot = new")
  case True
  with assms show ?thesis by (auto simp: rewrite_addr_eq split: if_splits)
next
  case False
  define q1 where "q1 = with_header p (slot_offset slot) (addr_at p slot) new"
  from assms(1) False have u: "usable_ipv4 p" and q: "q = with_transport q1 (addr_at p slot) new"
    by (auto simp: rewrite_addr_eq q1_def split: if_splits)
  note a1 = with_header_active [OF u q1_def]
  have "20 \<le> length q1" "20 \<le> ihl_of q1" using a1(3) by (simp_all add: usable_ipv4_def)
  note f2 = with_transport_frame [OF this q]
  have "usable_ipv4 q" using a1(3) f2(1) f2(2) [of 0] by (simp add: usable_ipv4_def ihl_of_def)
  with False rewrite_valid(2) [OF u q1_def q] rewrite_back [OF u assms(2) q1_def q] show ?thesis
    by (simp add: rewrite_addr_eq)
qed

theorem rewrite_back_restores_witness:
  "\<exists>q. rewrite_addr demo_tcp 0x0AC80007 Source = (Ok (True, q) :: (unit, _) outcome)
     \<and> rewrite_addr q (addr_at demo_tcp Source) Source = (Ok (True, demo_tcp) :: (unit, _) outcome)"
proof -
  obtain q where "rewrite_addr demo_tcp 0x0AC80007 Source = (Ok (True, q) :: (unit, _) outcome)"
    using demo_tcp_valid(1) rewrite_addr_eq [of demo_tcp "0x0AC80007" Source, where 'e = unit] by (cases "addr_at demo_tcp Source = 0x0AC80007") simp_all
  with rewrite_back_restores [OF this demo_tcp_valid(4)] show ?thesis by blast
qed

end
