(* ===== verification/Ip_Pool.thy ===== *)
theory Ip_Pool
  imports Rust_Strings "HOL-Library.Multiset"
begin

text \<open>
  The address pool of the server's TUN interface: \<open>IpPool\<close> of \<open>rvpn-server/src/tun_server.rs\<close>. The pool has two
  mutexes, one for the free addresses and one for the leases. The operations are first given on the
  pool as a whole, then split into the critical sections that the code runs under its mutexes; the
  steps of all threads interleave.

  Instants are numbers. A \<open>HashMap\<close> is an association list whose order stands for the unspecified order of
  iteration; the properties do not depend on it.
\<close>

section \<open>Operations\<close>

record lease_entry =
  lease_client :: chars
  granted_at :: nat
  expires_at :: nat

record ip_pool =
  lease_duration :: nat
  free_ips :: "ip_addr list"
  leases :: "(ip_addr \<times> lease_entry) list"

datatype pool_error = InvalidCidr | InvalidIp chars | InvalidPrefix chars | PrefixTooLong u8 | PrefixBelow24

definition parse_cidr :: "chars \<Rightarrow> (pool_error, ipv4_addr \<times> u8) outcome" where
  "parse_cidr cidr =
     (let parts = split_on 47 cidr in
      if length parts \<noteq> 2 then Err InvalidCidr
      else and_then (idx parts 0) (\<lambda>p0.
           and_then (ok_or (InvalidIp p0) (parse_ipv4_addr p0)) (\<lambda>ip.
           and_then (idx parts 1) (\<lambda>p1.
           and_then (ok_or (InvalidPrefix p1) (parse_u8 p1)) (\<lambda>prefix.
           if prefix > 32 then Err (PrefixTooLong prefix) else Ok (ip, prefix))))))"

definition pool_address :: "ipv4_addr \<Rightarrow> nat \<Rightarrow> ip_addr" where
  "pool_address gateway_ip i =
     (let o4 = ipv4_octets gateway_ip in V4 (ipv4_new (o4 ! 0) (o4 ! 1) (o4 ! 2) (o4 ! 3 + of_nat i)))"

text \<open>
  For a prefix of 32 the subtraction of two from the number of hosts wraps, and the loop that follows
  exhausts the memory; this is the panic.
\<close>

definition pool_new :: "chars \<Rightarrow> nat \<Rightarrow> (pool_error, ip_pool) outcome" where
  "pool_new network duration =
     and_then (parse_cidr network) (\<lambda>(gateway_ip, prefix).
     if prefix < 24 then Err PrefixBelow24
     else let host_bits = 32 - unat prefix;
              total_hosts = unat (push_bit host_bits 1 :: u32);
              start_offset = 2
          in if total_hosts < 2 then Panic
             else Ok \<lparr>lease_duration = duration,
                      free_ips = rev (map (pool_address gateway_ip) [start_offset..<total_hosts - 2]),
                      leases = []\<rparr>)"

definition pool_allocate :: "nat \<Rightarrow> chars \<Rightarrow> ip_pool \<Rightarrow> ip_addr option \<times> ip_pool" where
  "pool_allocate now client_id p =
     (case find (\<lambda>(ip, e). lease_client e = client_id) (leases p) of
        Some (ip, e) \<Rightarrow>
          (Some ip, p\<lparr>leases := map (\<lambda>(k, e). (k, if k = ip then e\<lparr>expires_at := now + lease_duration p\<rparr> else e)) (leases p)\<rparr>)
      | None \<Rightarrow>
          (if free_ips p = [] then (None, p)
           else let ip = last (free_ips p)
                in (Some ip, p\<lparr>free_ips := butlast (free_ips p),
                       leases := (ip, \<lparr>lease_client = client_id, granted_at = now, expires_at = now + lease_duration p\<rparr>)
                         # filter (\<lambda>(k, _). k \<noteq> ip) (leases p)\<rparr>)))"

text \<open>\<open>release\<close> removes the lease under one mutex, drops it, and returns the address under the other.\<close>

definition release_take :: "ip_addr \<Rightarrow> ip_pool \<Rightarrow> bool \<times> ip_pool" where
  "release_take ip p =
     (case map_of (leases p) ip of
        Some entry \<Rightarrow> (True, p\<lparr>leases := filter (\<lambda>(k, _). k \<noteq> ip) (leases p)\<rparr>)
      | None \<Rightarrow> (False, p))"

definition release_put :: "ip_addr \<Rightarrow> ip_pool \<Rightarrow> ip_pool" where
  "release_put ip p = p\<lparr>free_ips := free_ips p @ [ip]\<rparr>"

definition pool_release :: "ip_addr \<Rightarrow> ip_pool \<Rightarrow> bool \<times> ip_pool" where
  "pool_release ip p = (case release_take ip p of (True, p') \<Rightarrow> (True, release_put ip p') | (False, p') \<Rightarrow> (False, p'))"

text \<open>The first half of \<open>reclaim_expired\<close> scans the leases, the second moves the expired ones.\<close>

definition reclaim_scan :: "nat \<Rightarrow> (ip_addr \<Rightarrow> bool) \<Rightarrow> ip_pool \<Rightarrow> ip_addr list \<times> ip_pool" where
  "reclaim_scan now is_active p =
     (map fst (filter (\<lambda>(ip, e). \<not> is_active ip \<and> expires_at e \<le> now) (leases p)),
      p\<lparr>leases := map (\<lambda>(ip, e). (ip, if is_active ip \<and> expires_at e \<le> now
                                      then e\<lparr>expires_at := now + lease_duration p\<rparr> else e)) (leases p)\<rparr>)"

definition reclaim_one :: "ip_pool \<Rightarrow> ip_addr \<Rightarrow> ip_pool" where
  "reclaim_one p ip =
     (case map_of (leases p) ip of
        Some entry \<Rightarrow> p\<lparr>leases := filter (\<lambda>(k, _). k \<noteq> ip) (leases p), free_ips := free_ips p @ [ip]\<rparr>
      | None \<Rightarrow> p)"

definition reclaim_expired :: "nat \<Rightarrow> (ip_addr \<Rightarrow> bool) \<Rightarrow> ip_pool \<Rightarrow> nat \<times> ip_pool" where
  "reclaim_expired now is_active p =
     (let (reclaimed, p) = reclaim_scan now is_active p
      in if reclaimed = [] then (0, p) else (length reclaimed, foldl reclaim_one p reclaimed))"

definition available_count :: "ip_pool \<Rightarrow> nat" where
  "available_count p = length (free_ips p)"

definition leased_count :: "ip_pool \<Rightarrow> nat" where
  "leased_count p = length (leases p)"

section \<open>Threads and mutexes\<close>

text \<open>
  Where a thread stands: outside the pool; in \<open>allocate\<close>, before the first and before the second mutex; back
  from it; in \<open>release\<close>, before each of its two critical sections; in \<open>reclaim_expired\<close>, before the first mutex
  and, with the leases locked and the addresses to reclaim at hand, before the second.
\<close>

datatype pool_pc =
    Outside
  | AllocateFirst chars
  | AllocateSecond chars
  | Allocated chars "ip_addr option"
  | ReleaseFirst ip_addr
  | ReleaseSecond ip_addr
  | ReclaimFirst "ip_addr \<Rightarrow> bool"
  | ReclaimSecond "ip_addr list"

record pool_system =
  pool :: ip_pool
  free_owner :: "nat option"
  lease_owner :: "nat option"
  pool_pcs :: "nat \<Rightarrow> pool_pc"

definition pool_start :: "ip_pool \<Rightarrow> pool_system" where
  "pool_start p = \<lparr>pool = p, free_owner = None, lease_owner = None, pool_pcs = (\<lambda>_. Outside)\<rparr>"

definition at_pc :: "nat \<Rightarrow> pool_pc \<Rightarrow> pool_system \<Rightarrow> pool_system" where
  "at_pc t pc s = s\<lparr>pool_pcs := (pool_pcs s)(t := pc)\<rparr>"

inductive pool_step :: "pool_system \<Rightarrow> pool_system \<Rightarrow> bool" where
  call_allocate: "pool_pcs s t = Outside \<Longrightarrow> pool_step s (at_pc t (AllocateFirst c) s)"
| lock_free: "pool_pcs s t = AllocateFirst c \<Longrightarrow> free_owner s = None \<Longrightarrow>
     pool_step s (at_pc t (AllocateSecond c) (s\<lparr>free_owner := Some t\<rparr>))"
| do_allocate: "pool_pcs s t = AllocateSecond c \<Longrightarrow> lease_owner s = None \<Longrightarrow> pool_allocate now c (pool s) = (r, p) \<Longrightarrow>
     pool_step s (at_pc t (Allocated c r) (s\<lparr>pool := p, free_owner := None\<rparr>))"
| return_allocate: "pool_pcs s t = Allocated c r \<Longrightarrow> pool_step s (at_pc t Outside s)"
| call_release: "pool_pcs s t = Outside \<Longrightarrow> pool_step s (at_pc t (ReleaseFirst ip) s)"
| do_release: "pool_pcs s t = ReleaseFirst ip \<Longrightarrow> lease_owner s = None \<Longrightarrow> release_take ip (pool s) = (ok, p) \<Longrightarrow>
     pool_step s (at_pc t (if ok then ReleaseSecond ip else Outside) (s\<lparr>pool := p\<rparr>))"
| do_return: "pool_pcs s t = ReleaseSecond ip \<Longrightarrow> free_owner s = None \<Longrightarrow>
     pool_step s (at_pc t Outside (s\<lparr>pool := release_put ip (pool s)\<rparr>))"
| call_reclaim: "pool_pcs s t = Outside \<Longrightarrow> pool_step s (at_pc t (ReclaimFirst active) s)"
| scan_none: "pool_pcs s t = ReclaimFirst active \<Longrightarrow> lease_owner s = None \<Longrightarrow> reclaim_scan now active (pool s) = ([], p) \<Longrightarrow>
     pool_step s (at_pc t Outside (s\<lparr>pool := p\<rparr>))"
| scan_some: "pool_pcs s t = ReclaimFirst active \<Longrightarrow> lease_owner s = None \<Longrightarrow> reclaim_scan now active (pool s) = (ips, p) \<Longrightarrow>
     ips \<noteq> [] \<Longrightarrow> pool_step s (at_pc t (ReclaimSecond ips) (s\<lparr>pool := p, lease_owner := Some t\<rparr>))"
| do_reclaim: "pool_pcs s t = ReclaimSecond ips \<Longrightarrow> free_owner s = None \<Longrightarrow>
     pool_step s (at_pc t Outside (s\<lparr>pool := foldl reclaim_one (pool s) ips, lease_owner := None\<rparr>))"

section \<open>The invariant\<close>

text \<open>
  Every address is in one place: free, leased, or in the hands of a thread that is releasing it. No
  client has two leases. The threads that release are finitely many, so the addresses in their hands
  are given as a multiset that the ghost argument \<open>m\<close> names.
\<close>

definition lease_ips :: "ip_pool \<Rightarrow> ip_addr list" where
  "lease_ips p = map fst (leases p)"

definition lease_clients :: "ip_pool \<Rightarrow> chars list" where
  "lease_clients p = map (lease_client \<circ> snd) (leases p)"

definition in_hand :: "pool_pc \<Rightarrow> ip_addr multiset" where
  "in_hand pc = (case pc of ReleaseSecond ip \<Rightarrow> {#ip#} | _ \<Rightarrow> {#})"

definition held :: "(nat \<Rightarrow> pool_pc) \<Rightarrow> nat set" where
  "held f = {t. in_hand (f t) \<noteq> {#}}"

definition hands :: "(nat \<Rightarrow> pool_pc) \<Rightarrow> ip_addr multiset" where
  "hands f = (\<Sum>t\<in>held f. in_hand (f t))"

definition all_ips :: "pool_system \<Rightarrow> ip_addr multiset" where
  "all_ips s = mset (free_ips (pool s)) + mset (lease_ips (pool s)) + hands (pool_pcs s)"

definition pool_inv :: "ip_addr list \<Rightarrow> pool_system \<Rightarrow> bool" where
  "pool_inv ips s \<longleftrightarrow> finite (held (pool_pcs s)) \<and> all_ips s = mset ips \<and> distinct (lease_clients (pool s))"

lemma hands_superset: "finite A \<Longrightarrow> held f \<subseteq> A \<Longrightarrow> hands f = (\<Sum>t\<in>A. in_hand (f t))"
  unfolding hands_def by (rule sum.mono_neutral_left) (auto simp: held_def)

lemma held_upd: "held (f(t := pc)) \<subseteq> insert t (held f)"
  by (auto simp: held_def)

lemma hands_upd:
  assumes "finite (held f)"
  shows "hands (f(t := pc)) + in_hand (f t) = hands f + in_hand pc"
proof -
  let ?A = "insert t (held f)"
  have "hands (f(t := pc)) = (\<Sum>u\<in>?A. in_hand ((f(t := pc)) u))"
    using assms held_upd by (intro hands_superset) auto
  also have "\<dots> = in_hand pc + (\<Sum>u\<in>?A - {t}. in_hand (f u))"
    using assms by (subst sum.remove [of _ t]) (auto intro!: sum.cong)
  finally have "hands (f(t := pc)) = in_hand pc + (\<Sum>u\<in>?A - {t}. in_hand (f u))" .
  moreover have "hands f = in_hand (f t) + (\<Sum>u\<in>?A - {t}. in_hand (f u))"
    using assms by (subst hands_superset [of ?A f]) (auto simp: sum.remove [of ?A t])
  ultimately show ?thesis by (simp add: ac_simps)
qed

lemma finite_held_upd: "finite (held f) \<Longrightarrow> finite (held (f(t := pc)))"
  using held_upd finite_subset by (metis finite_insert)

lemma mset_remove_key:
  "distinct (map fst xs) \<Longrightarrow> map_of xs k = Some v \<Longrightarrow>
     mset (map fst xs) = add_mset k (mset (map fst (filter (\<lambda>(k', _). k' \<noteq> k) xs)))"
proof (induction xs)
  case Nil
  then show ?case by simp
next
  case (Cons x xs)
  show ?case
  proof (cases "fst x = k")
    case True
    with Cons.prems(1) have "k \<notin> fst ` set xs" by auto
    then have "filter (\<lambda>(k', _). k' \<noteq> k) xs = xs" by (force simp: filter_id_conv)
    with True show ?thesis by (cases x) simp
  next
    case False
    with Cons show ?thesis by (cases x) auto
  qed
qed

lemma distinct_iff_count: "distinct xs \<longleftrightarrow> (\<forall>a. count (mset xs) a \<le> 1)"
proof (induction xs)
  case Nil
  then show ?case by simp
next
  case (Cons x xs)
  have "x \<notin> set xs \<longleftrightarrow> count (mset xs) x = 0" by (simp flip: not_in_iff)
  with Cons show ?case by (auto simp: le_Suc_eq)
qed

lemma distinct_sub_mset: "mset xs \<subseteq># mset ys \<Longrightarrow> distinct ys \<Longrightarrow> distinct xs"
  unfolding distinct_iff_count by (meson mset_subset_eq_count order_trans)

lemma distinct_leases:
  assumes "all_ips s = mset ips" "distinct ips"
  shows "distinct (free_ips (pool s) @ lease_ips (pool s))"
proof -
  have "mset (free_ips (pool s) @ lease_ips (pool s)) \<subseteq># mset ips"
    using assms(1) by (metis all_ips_def mset_append mset_subset_eq_add_left)
  then show ?thesis using assms(2) by (rule distinct_sub_mset)
qed

section \<open>What the operations do\<close>

lemma allocate_ips:
  assumes "pool_allocate now c p = (r, p')" "distinct (free_ips p @ lease_ips p)"
  shows "mset (free_ips p') + mset (lease_ips p') = mset (free_ips p) + mset (lease_ips p)"
    and "distinct (lease_clients p) \<Longrightarrow> distinct (lease_clients p')"
proof (atomize (full), cases "find (\<lambda>(ip, e). lease_client e = c) (leases p)")
  case (Some x)
  then have "lease_clients p' = lease_clients p" "lease_ips p' = lease_ips p" "free_ips p' = free_ips p"
    using assms(1) by (auto simp: pool_allocate_def lease_clients_def lease_ips_def case_prod_beta split: prod.splits)
  then show "mset (free_ips p') + mset (lease_ips p') = mset (free_ips p) + mset (lease_ips p)
      \<and> (distinct (lease_clients p) \<longrightarrow> distinct (lease_clients p'))"
    by simp
next
  case None
  show "mset (free_ips p') + mset (lease_ips p') = mset (free_ips p) + mset (lease_ips p)
      \<and> (distinct (lease_clients p) \<longrightarrow> distinct (lease_clients p'))"
  proof (cases "free_ips p = []")
    case True
    with None assms(1) show ?thesis by (simp add: pool_allocate_def)
  next
    case False
    let ?ip = "last (free_ips p)"
    have f: "free_ips p = butlast (free_ips p) @ [?ip]" using False by simp
    then have "?ip \<notin> set (lease_ips p)" using assms(2) by (metis Un_iff disjoint_iff distinct_append list.set_intros(1) set_append)
    then have keep: "filter (\<lambda>(k, _). k \<noteq> ?ip) (leases p) = leases p"
      by (force simp: filter_id_conv lease_ips_def)
    have "c \<notin> set (lease_clients p)" using None by (force simp: find_None_iff lease_clients_def)
    moreover have "p' = p\<lparr>free_ips := butlast (free_ips p),
        leases := (?ip, \<lparr>lease_client = c, granted_at = now, expires_at = now + lease_duration p\<rparr>) # leases p\<rparr>"
      using None False assms(1) keep by (simp add: pool_allocate_def Let_def)
    moreover have "mset (free_ips p) = add_mset ?ip (mset (butlast (free_ips p)))" by (subst f) simp
    ultimately show ?thesis by (simp add: lease_ips_def lease_clients_def)
  qed
qed

lemma release_take_ips:
  assumes "release_take ip p = (ok, p')" "distinct (lease_ips p)"
  shows "mset (lease_ips p) = mset (lease_ips p') + (if ok then {#ip#} else {#})" "free_ips p' = free_ips p"
    and "distinct (lease_clients p) \<Longrightarrow> distinct (lease_clients p')"
  using assms mset_remove_key [of "leases p" ip]
  by (auto simp: release_take_def lease_ips_def lease_clients_def distinct_map_filter split: option.splits)

lemma reclaim_scan_ips:
  "reclaim_scan now active p = (ips, p') \<Longrightarrow>
     free_ips p' = free_ips p \<and> lease_ips p' = lease_ips p \<and> lease_clients p' = lease_clients p"
  by (auto simp: reclaim_scan_def lease_ips_def lease_clients_def case_prod_beta)

lemma reclaim_one_ips:
  assumes "distinct (lease_ips p)"
  shows "mset (free_ips (reclaim_one p ip)) + mset (lease_ips (reclaim_one p ip)) = mset (free_ips p) + mset (lease_ips p)"
    and "distinct (lease_clients p) \<Longrightarrow> distinct (lease_clients (reclaim_one p ip))"
    and "distinct (lease_ips (reclaim_one p ip))"
  using assms mset_remove_key [of "leases p" ip]
  by (auto simp: reclaim_one_def lease_ips_def lease_clients_def distinct_map_filter split: option.splits)

lemma reclaim_all_ips:
  "distinct (lease_ips p) \<Longrightarrow>
     mset (free_ips (foldl reclaim_one p ips)) + mset (lease_ips (foldl reclaim_one p ips)) = mset (free_ips p) + mset (lease_ips p)
     \<and> (distinct (lease_clients p) \<longrightarrow> distinct (lease_clients (foldl reclaim_one p ips)))"
proof (induction ips arbitrary: p)
  case Nil
  then show ?case by simp
next
  case (Cons ip ips)
  with reclaim_one_ips [of p ip] Cons.IH [of "reclaim_one p ip"] show ?case by simp
qed

lemma pool_inv_at_pc:
  assumes "pool_inv ips s" "mset (free_ips p) + mset (lease_ips p) + in_hand pc
      = mset (free_ips (pool s)) + mset (lease_ips (pool s)) + in_hand (pool_pcs s t)"
    and "distinct (lease_clients p)"
  shows "pool_inv ips (at_pc t pc (s\<lparr>pool := p\<rparr>))"
proof -
  have fin: "finite (held (pool_pcs s))" using assms(1) by (simp add: pool_inv_def)
  have "(mset (free_ips p) + mset (lease_ips p) + hands ((pool_pcs s)(t := pc))) + in_hand (pool_pcs s t)
      = all_ips s + in_hand (pool_pcs s t)"
    using hands_upd [OF fin, of t pc] assms(2) unfolding all_ips_def by (metis (no_types, lifting) add.assoc add.commute)
  then have "mset (free_ips p) + mset (lease_ips p) + hands ((pool_pcs s)(t := pc)) = all_ips s" by simp
  with assms(1,3) fin show ?thesis by (simp add: pool_inv_def all_ips_def at_pc_def finite_held_upd)
qed

lemma pool_inv_owners [simp]:
  "pool_inv ips (at_pc t pc (s\<lparr>free_owner := a\<rparr>)) = pool_inv ips (at_pc t pc s)"
  "pool_inv ips (at_pc t pc (s\<lparr>lease_owner := a\<rparr>)) = pool_inv ips (at_pc t pc s)"
  by (simp_all add: pool_inv_def all_ips_def at_pc_def)

lemma pool_step_inv:
  assumes "pool_step s s'" "pool_inv ips s" "distinct ips"
  shows "pool_inv ips s'"
proof -
  have d: "distinct (free_ips (pool s) @ lease_ips (pool s))" "distinct (lease_clients (pool s))"
    using assms(2,3) distinct_leases by (auto simp: pool_inv_def)
  note keep = pool_inv_at_pc [OF assms(2)]
  have stay: "pool_inv ips (at_pc t pc s)" if "in_hand (pool_pcs s t) = {#}" "in_hand pc = {#}" for t pc
    using keep [of "pool s" pc t] that d by simp
  show ?thesis
    using assms(1)
  proof (cases rule: pool_step.cases)
    case (do_allocate t c now r p)
    with keep [of p "Allocated c r" t] allocate_ips [OF do_allocate(4) d(1)] d show ?thesis
      by (simp add: in_hand_def)
  next
    case (do_release t ip ok p)
    have "distinct (lease_ips (pool s))" using d by simp
    with do_release keep [of p "if ok then ReleaseSecond ip else Outside" t]
      release_take_ips [OF do_release(4)] d show ?thesis
      by (cases ok) (simp_all add: in_hand_def)
  next
    case (do_return t ip)
    with keep [of "release_put ip (pool s)" Outside t] d show ?thesis
      by (simp add: in_hand_def release_put_def lease_ips_def lease_clients_def)
  next
    case (scan_none t active now p)
    with keep [of p Outside t] reclaim_scan_ips [OF scan_none(4)] d show ?thesis
      by (simp add: in_hand_def)
  next
    case (scan_some t active now xs p)
    with keep [of p "ReclaimSecond xs" t] reclaim_scan_ips [OF scan_some(4)] d show ?thesis
      by (simp add: in_hand_def)
  next
    case (do_reclaim t xs)
    have "distinct (lease_ips (pool s))" using d by simp
    with do_reclaim keep [of "foldl reclaim_one (pool s) xs" Outside t] reclaim_all_ips [of "pool s" xs] d
    show ?thesis by (simp add: in_hand_def)
  qed (simp_all add: stay in_hand_def)
qed

lemma pool_run_inv:
  assumes "pool_step\<^sup>*\<^sup>* (pool_start p) s" "distinct (free_ips p)" "leases p = []"
  shows "pool_inv (free_ips p) s"
  using assms(1)
proof (induction rule: rtranclp_induct)
  case base
  with assms(3) show ?case
    by (simp add: pool_inv_def pool_start_def all_ips_def lease_ips_def lease_clients_def hands_def held_def in_hand_def)
next
  case (step s s')
  with pool_step_inv assms(2) show ?case by blast
qed

definition lease_of :: "ip_pool \<Rightarrow> ip_addr \<Rightarrow> chars option" where
  "lease_of p ip = map_option lease_client (map_of (leases p) ip)"

lemma map_of_update:
  "map_of (map (\<lambda>(k, e). (k, g k e)) xs) k = map_option (g k) (map_of xs k)"
  by (induction xs) auto

lemma allocate_result:
  assumes "pool_allocate now c p = (r, p')" "distinct (lease_ips p)" "distinct (lease_clients p)"
  shows "case r of
      Some ip \<Rightarrow> lease_of p' ip = Some c \<and> (\<forall>ip'. lease_of p ip' = Some c \<longrightarrow> ip' = ip)
    | None \<Rightarrow> free_ips p = [] \<and> (\<forall>ip. lease_of p ip \<noteq> Some c) \<and> p' = p"
proof (cases "find (\<lambda>(ip, e). lease_client e = c) (leases p)")
  case (Some x)
  obtain ip e where x: "x = (ip, e)" by fastforce
  from Some x have mem: "(ip, e) \<in> set (leases p)" "lease_client e = c" by (auto simp: find_Some_iff) (metis nth_mem)
  then have m: "map_of (leases p) ip = Some e" using assms(2) by (simp add: lease_ips_def)
  have "ip' = ip" if "lease_of p ip' = Some c" for ip'
  proof -
    from that obtain e' where "(ip', e') \<in> set (leases p)" "lease_client e' = c"
      by (auto simp: lease_of_def dest: map_of_SomeD)
    with mem assms(3) have "(ip', e') = (ip, e)"
      unfolding lease_clients_def distinct_map by (intro inj_onD [of "lease_client \<circ> snd" "set (leases p)"]) simp_all
    then show ?thesis by simp
  qed
  moreover have "r = Some ip" "lease_of p' ip = Some c"
    using Some x assms(1) m mem(2) by (auto simp: pool_allocate_def lease_of_def map_of_update)
  ultimately show ?thesis by simp
next
  case None
  then have n: "lease_of p ip \<noteq> Some c" for ip
    by (auto simp: lease_of_def find_None_iff dest!: map_of_SomeD)
  show ?thesis
  proof (cases "free_ips p = []")
    case True
    with None assms(1) n show ?thesis by (auto simp: pool_allocate_def)
  next
    case False
    with None assms(1) have "r = Some (last (free_ips p))" "lease_of p' (last (free_ips p)) = Some c"
      by (auto simp: pool_allocate_def Let_def lease_of_def)
    with n show ?thesis by simp
  qed
qed

section \<open>The addresses of a new pool\<close>

lemma ipv4_new_unat: "unat (ipv4_new a b c d) = 256 * (65536 * unat a + 256 * unat b + unat c) + unat d"
  unfolding ipv4_new_def by (subst unat_from_be) simp_all

lemma pool_address_unat:
  "\<exists>a. pool_address gw i = V4 a \<and> unat a = 256 * (unat gw div 256) + (unat gw mod 256 + i) mod 256"
proof -
  let ?o = "ipv4_octets gw"
  define h where "h = 65536 * unat (?o ! 0) + 256 * unat (?o ! 1) + unat (?o ! 2)"
  have "unat gw = 256 * h + unat (?o ! 3)"
    unfolding h_def using ipv4_new_unat [of "?o ! 0" "?o ! 1" "?o ! 2" "?o ! 3"] by simp
  then have g: "h = unat gw div 256" "unat (?o ! 3) = unat gw mod 256" by simp_all
  have "unat (?o ! 3 + of_nat i) = (unat gw mod 256 + i) mod 256"
    by (simp add: unat_word_ariths g(2) mod_simps)
  moreover have "unat (ipv4_new (?o ! 0) (?o ! 1) (?o ! 2) d) = 256 * h + unat d" for d
    unfolding h_def by (rule ipv4_new_unat)
  ultimately show ?thesis
    unfolding pool_address_def Let_def using g(1) by simp
qed

lemma pool_address_inj:
  assumes "pool_address gw i = pool_address gw j" "i < 256" "j < 256"
  shows "i = j"
proof -
  from assms(1) have "(unat gw mod 256 + i) mod 256 = (unat gw mod 256 + j) mod 256"
    using pool_address_unat [of gw i] pool_address_unat [of gw j] by auto
  then have "i mod 256 = j mod 256" by (metis add.commute mod_add_cancel)
  with assms(2,3) show ?thesis by simp
qed

lemma pool_new_Ok:
  assumes "pool_new network d = Ok p"
  shows "\<exists>gw prefix. parse_cidr network = Ok (gw, prefix) \<and> 24 \<le> unat prefix \<and> unat prefix < 32 \<and> leases p = []
    \<and> free_ips p = rev (map (pool_address gw) [2..<2 ^ (32 - unat prefix) - 2])"
proof -
  from assms obtain gw prefix where c: "parse_cidr network = Ok (gw, prefix)"
    by (auto simp: pool_new_def and_then_Ok_iff)
  let ?b = "32 - unat prefix"
  have hb: "24 \<le> unat prefix" using assms c by (auto simp: pool_new_def word_less_nat_alt split: if_splits)
  have "(push_bit ?b 1 :: u32) = of_nat (2 ^ ?b)" by (simp add: push_bit_eq_mult)
  moreover have "(2 :: nat) ^ ?b < 2 ^ 32" using hb by (intro power_strict_increasing) simp_all
  ultimately have h: "unat (push_bit ?b 1 :: u32) = 2 ^ ?b" by (simp only: unat_of_nat_widths) simp
  have "unat prefix < 32"
  proof (rule ccontr)
    assume "\<not> unat prefix < 32"
    then have "?b = 0" by simp
    with assms c hb show False by (simp add: pool_new_def word_less_nat_alt)
  qed
  moreover have "leases p = []" "free_ips p = rev (map (pool_address gw) [2..<2 ^ ?b - 2])"
    using assms c hb unfolding pool_new_def c and_then.simps prod.case Let_def h
    by (auto simp: word_less_nat_alt split: if_splits)
  ultimately show ?thesis using c hb by blast
qed

lemma pool_new_distinct:
  assumes "pool_new network d = Ok p"
  shows "distinct (free_ips p)" "leases p = []"
proof -
  obtain gw prefix where n: "24 \<le> unat prefix" "leases p = []"
    "free_ips p = rev (map (pool_address gw) [2..<2 ^ (32 - unat (prefix :: u8)) - 2])"
    using pool_new_Ok [OF assms] by blast
  have "2 ^ (32 - unat prefix) \<le> (2 :: nat) ^ 8" using n(1) by (intro power_increasing) simp_all
  then have "inj_on (pool_address gw) {2..<2 ^ (32 - unat prefix) - 2}"
    by (intro inj_onI) (rule pool_address_inj, auto)
  with n show "distinct (free_ips p)" "leases p = []" by (simp_all add: distinct_map)
qed

section \<open>The two mutexes\<close>

text \<open>A thread in the middle of \<open>allocate\<close> and another in the middle of \<open>reclaim_expired\<close> wait for each other.\<close>

definition stuck :: "nat \<Rightarrow> chars \<Rightarrow> nat \<Rightarrow> ip_addr list \<Rightarrow> ip_pool \<Rightarrow> pool_system \<Rightarrow> bool" where
  "stuck t c u ips p s \<longleftrightarrow> pool s = p \<and> free_owner s = Some t \<and> lease_owner s = Some u
     \<and> pool_pcs s t = AllocateSecond c \<and> pool_pcs s u = ReclaimSecond ips"

lemma stuck_step: "pool_step s s' \<Longrightarrow> stuck t c u ips p s \<Longrightarrow> stuck t c u ips p s'"
  by (auto simp: stuck_def at_pc_def elim!: pool_step.cases)

lemma stuck_run: "pool_step\<^sup>*\<^sup>* s s' \<Longrightarrow> stuck t c u ips p s \<Longrightarrow> stuck t c u ips p s'"
  by (induction rule: rtranclp_induct) (auto intro: stuck_step)

lemma reach_stuck:
  assumes "reclaim_scan now active p = (ips, p')" "ips \<noteq> []" "t \<noteq> u"
  shows "\<exists>s. pool_step\<^sup>*\<^sup>* (pool_start p) s \<and> stuck t c u ips p' s"
proof -
  let ?s0 = "pool_start p"
  let ?s1 = "at_pc t (AllocateFirst c) ?s0"
  let ?s2 = "at_pc t (AllocateSecond c) (?s1\<lparr>free_owner := Some t\<rparr>)"
  let ?s3 = "at_pc u (ReclaimFirst active) ?s2"
  let ?s4 = "at_pc u (ReclaimSecond ips) (?s3\<lparr>pool := p', lease_owner := Some u\<rparr>)"
  have "pool_step ?s0 ?s1" by (rule call_allocate) (simp add: pool_start_def)
  moreover have "pool_step ?s1 ?s2" by (rule lock_free) (simp_all add: pool_start_def at_pc_def)
  moreover have "pool_step ?s2 ?s3" using assms(3) by (intro call_reclaim) (simp add: pool_start_def at_pc_def)
  moreover have "pool_step ?s3 ?s4"
    using assms by (intro scan_some [of _ _ active now]) (simp_all add: pool_start_def at_pc_def)
  ultimately have "pool_step\<^sup>*\<^sup>* ?s0 ?s4" by (meson rtranclp.rtrancl_into_rtrancl rtranclp.rtrancl_refl)
  moreover have "stuck t c u ips p' ?s4" using assms(3) by (simp add: stuck_def at_pc_def)
  ultimately show ?thesis by blast
qed

section \<open>The subnet\<close>

lemma pool_address_subnet:
  assumes "b \<le> 8" "unat gw mod 2 ^ b = 1" "i + 1 < 2 ^ b"
  shows "\<exists>a. pool_address gw i = V4 a \<and> unat a = unat gw + i
    \<and> unat a div 2 ^ b = unat gw div 2 ^ b \<and> unat a mod 2 ^ b = i + 1"
proof -
  let ?g = "unat gw" and ?n = "2 ^ b :: nat"
  define k where "k = ?g mod 256 div ?n"
  define m where "m = (2 :: nat) ^ (8 - b)"
  have m: "256 = ?n * m" using assms(1) by (simp add: m_def flip: power_add)
  then have "?n dvd 256" by (metis dvd_triv_left)
  then have "?g mod 256 mod ?n = 1" using assms(2) by (simp add: mod_mod_cancel)
  then have r: "?g mod 256 = ?n * k + 1" unfolding k_def by (metis mult_div_mod_eq)
  have "?n * k < ?n * m" using r m by (metis add_lessD1 mod_less_divisor zero_less_numeral)
  then have "?n * (k + 1) \<le> 256" unfolding m by (intro mult_le_mono2) simp
  then have small: "?g mod 256 + i < 256" using r assms(3) by (simp add: algebra_simps)
  obtain a where a: "pool_address gw i = V4 a" "unat a = 256 * (?g div 256) + (?g mod 256 + i) mod 256"
    using pool_address_unat by blast
  then have sum: "unat a = ?g + i" using small by (simp add: algebra_simps)
  have "?g = ?n * (?g div ?n) + 1" using assms(2) by (metis mult_div_mod_eq)
  then have "?g + i = ?n * (?g div ?n) + (i + 1)" by linarith
  then have "(?g + i) div ?n = ?g div ?n" "(?g + i) mod ?n = i + 1" using assms(3) by (metis div_mult_self4 div_less add_0_right less_nat_zero_code mod_less mod_mult_self4 neq0_conv)+
  with a(1) sum show ?thesis by simp
qed

definition subnet_hosts :: "ipv4_addr \<Rightarrow> nat \<Rightarrow> ip_addr set" where
  "subnet_hosts gw b = {V4 a | a. unat a div 2 ^ b = unat gw div 2 ^ b \<and> 3 \<le> unat a mod 2 ^ b \<and> unat a mod 2 ^ b + 1 < 2 ^ b}"

lemma pool_addresses_subnet:
  assumes "b \<le> 8" "unat gw mod 2 ^ b = 1"
  shows "pool_address gw ` {2..<2 ^ b - 2} = subnet_hosts gw b"
proof (intro subset_antisym subsetI)
  fix x
  assume "x \<in> pool_address gw ` {2..<2 ^ b - 2}"
  then obtain i where "x = pool_address gw i" "2 \<le> i" "i + 2 < 2 ^ b" by auto
  with pool_address_subnet [OF assms, of i] show "x \<in> subnet_hosts gw b" by (auto simp: subnet_hosts_def)
next
  fix x
  assume "x \<in> subnet_hosts gw b"
  then obtain a where x: "x = V4 a" and d: "unat a div 2 ^ b = unat gw div 2 ^ b"
    and h: "3 \<le> unat a mod 2 ^ b" "unat a mod 2 ^ b + 1 < 2 ^ b" by (auto simp: subnet_hosts_def)
  let ?i = "unat a mod 2 ^ b - 1"
  have i: "?i \<in> {2..<2 ^ b - 2}" "?i + 1 < 2 ^ b" using h by auto
  obtain a' where a': "pool_address gw ?i = V4 a'" "unat a' div 2 ^ b = unat gw div 2 ^ b" "unat a' mod 2 ^ b = ?i + 1"
    using pool_address_subnet [OF assms i(2)] by blast
  then have "unat a' = unat a" using d h by (metis add.commute le_add_diff_inverse mult_div_mod_eq one_le_numeral order_trans)
  then have "a' = a" by (simp add: word_unat_eq_iff)
  with a'(1) i(1) x show "x \<in> pool_address gw ` {2..<2 ^ b - 2}" by (metis image_eqI)
qed

text \<open>The configuration of the tests, a pool at work, and a pool with an expired lease.\<close>

definition demo_network :: chars where
  "demo_network = codes ''10.200.0.1/24''"

lemma demo_network_cidr: "parse_cidr demo_network = Ok (0x0AC80001, 24)"
  by (simp add: demo_network_def codes_def parse_cidr_def parse_ipv4_addr_def parse_octet_def parse_u8_def
      ipv4_new_def from_be_bytes_def from_le_bytes_def of_char_def)

lemma demo_pool_new: "\<exists>p. pool_new demo_network 3600 = Ok p \<and> free_ips p \<noteq> []"
  by (simp add: pool_new_def demo_network_cidr push_bit_eq_mult)

definition demo_expired :: ip_pool where
  "demo_expired = \<lparr>lease_duration = 3600, free_ips = [V4 0x0AC80004],
     leases = [(V4 0x0AC80003, \<lparr>lease_client = codes ''alice'', granted_at = 0, expires_at = 3600\<rparr>)]\<rparr>"

lemma allocation_run:
  assumes "pool_allocate now c p = (r, p')"
  shows "\<exists>s. pool_step\<^sup>*\<^sup>* (pool_start p) s \<and> pool s = p' \<and> pool_pcs s t = Allocated c r"
proof -
  let ?s0 = "pool_start p"
  let ?s1 = "at_pc t (AllocateFirst c) ?s0"
  let ?s2 = "at_pc t (AllocateSecond c) (?s1\<lparr>free_owner := Some t\<rparr>)"
  let ?s3 = "at_pc t (Allocated c r) (?s2\<lparr>pool := p', free_owner := None\<rparr>)"
  have "pool_step ?s0 ?s1" by (rule call_allocate) (simp add: pool_start_def)
  moreover have "pool_step ?s1 ?s2" by (rule lock_free) (simp_all add: pool_start_def at_pc_def)
  moreover have "pool_step ?s2 ?s3" using assms by (intro do_allocate [where now = now]) (simp_all add: pool_start_def at_pc_def)
  ultimately have "pool_step\<^sup>*\<^sup>* ?s0 ?s3" by (meson rtranclp.rtrancl_into_rtrancl rtranclp.rtrancl_refl)
  then show ?thesis by (intro exI [of _ ?s3]) (simp add: at_pc_def)
qed

section \<open>Properties\<close>

text \<open>C3: leases are exclusive under every interleaving of allocations, releases and reclaims on a new pool:
  every address of the pool is free, leased or in the hands of one releasing thread, exactly once; no
  address has two leases and no client two addresses. An allocation returns an address leased to that
  client, the one it already had if any, and fails only when no address is free.\<close>

theorem leases_are_exclusive:
  assumes "pool_new network d = Ok p" "pool_step\<^sup>*\<^sup>* (pool_start p) s"
  shows "mset (free_ips (pool s)) + mset (lease_ips (pool s)) + hands (pool_pcs s) = mset (free_ips p)
    \<and> distinct (free_ips (pool s) @ lease_ips (pool s)) \<and> distinct (lease_clients (pool s))
    \<and> (case fst (pool_allocate now c (pool s)) of
         Some ip \<Rightarrow> lease_of (snd (pool_allocate now c (pool s))) ip = Some c
            \<and> (\<forall>ip'. lease_of (pool s) ip' = Some c \<longrightarrow> ip' = ip)
       | None \<Rightarrow> free_ips (pool s) = [] \<and> (\<forall>ip. lease_of (pool s) ip \<noteq> Some c))"
proof -
  have "pool_inv (free_ips p) s" using pool_run_inv [OF assms(2)] pool_new_distinct [OF assms(1)] by blast
  then have i: "all_ips s = mset (free_ips p)" "distinct (lease_clients (pool s))" by (simp_all add: pool_inv_def)
  have "distinct (free_ips (pool s) @ lease_ips (pool s))"
    using distinct_leases [OF i(1)] pool_new_distinct [OF assms(1)] by simp
  with i allocate_result [of now c "pool s" "fst (pool_allocate now c (pool s))" "snd (pool_allocate now c (pool s))"]
  show ?thesis by (auto simp: all_ips_def split: option.splits)
qed

theorem leases_are_exclusive_witness:
  "\<exists>p s ip. pool_new demo_network 3600 = Ok p \<and> pool_step\<^sup>*\<^sup>* (pool_start p) s
     \<and> pool_pcs s 0 = Allocated (codes ''alice'') (Some ip) \<and> distinct (free_ips (pool s) @ lease_ips (pool s))
     \<and> mset (free_ips (pool s)) + mset (lease_ips (pool s)) + hands (pool_pcs s) = mset (free_ips p)"
proof -
  obtain p where p: "pool_new demo_network 3600 = Ok p" "free_ips p \<noteq> []" using demo_pool_new by blast
  obtain r p' where a: "pool_allocate 0 (codes ''alice'') p = (r, p')" by fastforce
  then obtain ip where "r = Some ip"
    using p pool_new_distinct(2) [OF p(1)] by (auto simp: pool_allocate_def Let_def)
  moreover obtain s where "pool_step\<^sup>*\<^sup>* (pool_start p) s" "pool_pcs s 0 = Allocated (codes ''alice'') r"
    using allocation_run [OF a] by blast
  ultimately show ?thesis using leases_are_exclusive [OF p(1)] p(1) by blast
qed

text \<open>C33: the pool can deadlock for good. \<open>allocate\<close> takes the mutex of the free addresses and then that of the
  leases, \<open>reclaim_expired\<close> takes them in the other order. From any pool in which a lease of an inactive
  client has expired, two threads reach a state from which, whatever anybody does, both stay where they
  are and the pool never changes again: no client gets an address from then on.\<close>

theorem allocate_and_reclaim_deadlock:
  assumes "reclaim_scan now active p = (ips, p')" "ips \<noteq> []" "t \<noteq> u"
  shows "\<exists>s. pool_step\<^sup>*\<^sup>* (pool_start p) s \<and> (\<forall>s'. pool_step\<^sup>*\<^sup>* s s' \<longrightarrow>
     pool s' = p' \<and> pool_pcs s' t = AllocateSecond c \<and> pool_pcs s' u = ReclaimSecond ips)"
  using reach_stuck [OF assms, of c] stuck_run by (metis stuck_def)

theorem allocate_and_reclaim_deadlock_witness:
  "\<exists>s. pool_step\<^sup>*\<^sup>* (pool_start demo_expired) s \<and> (\<forall>s'. pool_step\<^sup>*\<^sup>* s s' \<longrightarrow>
     pool s' = demo_expired \<and> pool_pcs s' 0 = AllocateSecond (codes ''bob'') \<and> pool_pcs s' 1 = ReclaimSecond [V4 0x0AC80003])"
proof -
  have "reclaim_scan 4000 (\<lambda>_. False) demo_expired = ([V4 0x0AC80003], demo_expired)"
    by (simp add: reclaim_scan_def demo_expired_def)
  from allocate_and_reclaim_deadlock [OF this, of 0 1 "codes ''bob''"] show ?thesis by simp
qed

text \<open>When the gateway is the first host of its network, the free addresses of a new pool are exactly the
  hosts of the network from number 3 to the last one before the broadcast address, each once.\<close>

lemma pool_stays_in_subnet:
  assumes "pool_new network d = Ok p" "parse_cidr network = Ok (gw, prefix)" "unat gw mod 2 ^ (32 - unat prefix) = 1"
  shows "set (free_ips p) = subnet_hosts gw (32 - unat prefix) \<and> distinct (free_ips p) \<and> leases p = []"
proof -
  from pool_new_Ok [OF assms(1)] assms(2) have n: "24 \<le> unat prefix"
    "free_ips p = rev (map (pool_address gw) [2..<2 ^ (32 - unat prefix) - 2])" by auto
  then have "set (free_ips p) = pool_address gw ` {2..<2 ^ (32 - unat prefix) - 2}" by simp
  with pool_addresses_subnet [of "32 - unat prefix" gw] n(1) assms(3) pool_new_distinct [OF assms(1)] show ?thesis by simp
qed

end
