(* ===== verification/Tun_Server.thy ===== *)
theory Tun_Server
  imports Ip_Pool
begin

text \<open>
  The session registry of the server's TUN interface: \<open>TunServer\<close> of \<open>rvpn-server/src/tun_server.rs\<close>. It maps a
  client's tunnel address to the channel of its connection. A channel is named by a number, and two
  senders are of the same channel when their numbers are equal. The device itself, the logging and the
  shutdown signal are not modelled; the outcome of a \<open>try_send\<close> is an argument.
\<close>

section \<open>Operations\<close>

record tun_server =
  client_senders :: "ip_addr \<rightharpoonup> nat"
  tun_pool :: ip_pool

datatype try_send = Sent | QueueFull | ChannelClosed

definition tun_new :: "chars \<Rightarrow> (pool_error, tun_server) outcome" where
  "tun_new tun_ip = and_then (pool_new tun_ip 3600) (\<lambda>p. Ok \<lparr>client_senders = Map.empty, tun_pool = p\<rparr>)"

definition register_client :: "ip_addr \<Rightarrow> nat \<Rightarrow> tun_server \<Rightarrow> tun_server" where
  "register_client client_ip sender ts = ts\<lparr>client_senders := (client_senders ts)(client_ip \<mapsto> sender)\<rparr>"

definition unregister_client :: "ip_addr \<Rightarrow> chars \<Rightarrow> nat \<Rightarrow> tun_server \<Rightarrow> tun_server" where
  "unregister_client client_ip client_id sender ts =
     (let pool_client_id = lease_of (tun_pool ts) client_ip in
      if pool_client_id \<noteq> None \<and> pool_client_id \<noteq> Some client_id then ts
      else case client_senders ts client_ip of
        Some existing \<Rightarrow>
          (if existing = sender then ts\<lparr>client_senders := (client_senders ts)(client_ip := None)\<rparr> else ts)
      | None \<Rightarrow> ts)"

definition reclaim_expired_leases :: "nat \<Rightarrow> tun_server \<Rightarrow> nat \<times> tun_server" where
  "reclaim_expired_leases now ts =
     (let (count, p) = reclaim_expired now (\<lambda>ip. client_senders ts ip \<noteq> None) (tun_pool ts)
      in (count, ts\<lparr>tun_pool := p\<rparr>))"

definition allocate_ip :: "nat \<Rightarrow> chars \<Rightarrow> tun_server \<Rightarrow> ip_addr option \<times> tun_server" where
  "allocate_ip now client_id ts =
     (let (_, ts) = reclaim_expired_leases now ts;
          (r, p) = pool_allocate now client_id (tun_pool ts)
      in (r, ts\<lparr>tun_pool := p\<rparr>))"

definition release_ip :: "ip_addr \<Rightarrow> tun_server \<Rightarrow> bool \<times> tun_server" where
  "release_ip ip ts = (let (released, p) = pool_release ip (tun_pool ts) in (released, ts\<lparr>tun_pool := p\<rparr>))"

section \<open>The read loop\<close>

definition parse_destination_ip :: "bytes \<Rightarrow> ('e, ip_addr option) outcome" where
  "parse_destination_ip packet =
     (if length packet < 20 then Ok None
      else and_then (idx packet 0) (\<lambda>b0.
        if drop_bit 4 b0 = 4 then
          and_then (idx packet 16) (\<lambda>a. and_then (idx packet 17) (\<lambda>b.
          and_then (idx packet 18) (\<lambda>c. and_then (idx packet 19) (\<lambda>d. Ok (Some (V4 (ipv4_new a b c d)))))))
        else Ok None))"

text \<open>
  For a packet read from the device the loop looks up the sender under the read lock and drops the lock;
  after \<open>try_send\<close> it takes the write lock if the channel was closed. Other tasks run in between.
\<close>

definition downlink_lookup :: "bytes \<Rightarrow> tun_server \<Rightarrow> ('e, (ip_addr \<times> nat) option) outcome" where
  "downlink_lookup packet ts =
     and_then (parse_destination_ip packet) (\<lambda>dst.
     case dst of
       Some dst_ip \<Rightarrow> (case client_senders ts dst_ip of Some sender \<Rightarrow> Ok (Some (dst_ip, sender)) | None \<Rightarrow> Ok None)
     | None \<Rightarrow> Ok None)"

definition downlink_finish :: "ip_addr \<Rightarrow> try_send \<Rightarrow> tun_server \<Rightarrow> tun_server" where
  "downlink_finish dst_ip r ts =
     (case r of
        Sent \<Rightarrow> ts
      | QueueFull \<Rightarrow> ts
      | ChannelClosed \<Rightarrow> ts\<lparr>client_senders := (client_senders ts)(dst_ip := None)\<rparr>)"

section \<open>Leases of active sessions\<close>

lemma map_of_filter_key: "k \<noteq> k' \<Longrightarrow> map_of (filter (\<lambda>(x, _). x \<noteq> k') xs) k = map_of xs k"
  by (induction xs) auto

lemma reclaim_one_lease: "ip \<noteq> ip' \<Longrightarrow> lease_of (reclaim_one p ip) ip' = lease_of p ip'"
  by (auto simp: reclaim_one_def lease_of_def map_of_filter_key split: option.split)

lemma reclaim_all_lease: "ip' \<notin> set ips \<Longrightarrow> lease_of (foldl reclaim_one p ips) ip' = lease_of p ip'"
  by (induction ips arbitrary: p) (auto simp: reclaim_one_lease)

lemma lease_of_extend:
  assumes "\<And>k e. lease_client (g k e) = lease_client e"
  shows "lease_of (p\<lparr>leases := map (\<lambda>(k, e). (k, g k e)) (leases p)\<rparr>) ip = lease_of p ip"
  using assms by (cases "map_of (leases p) ip") (simp_all add: lease_of_def map_of_update)

lemma reclaim_scan_lease:
  assumes "reclaim_scan now active p = (ips, p')"
  shows "lease_of p' ip = lease_of p ip" "active ip \<Longrightarrow> ip \<notin> set ips"
  using assms lease_of_extend [of "\<lambda>ip e. if active ip \<and> expires_at e \<le> now then e\<lparr>expires_at := now + lease_duration p\<rparr> else e" p ip]
  by (auto simp: reclaim_scan_def)

lemma reclaim_expired_lease:
  assumes "reclaim_expired now active p = (n, p')" "active ip"
  shows "lease_of p' ip = lease_of p ip"
proof -
  obtain ips p1 where s: "reclaim_scan now active p = (ips, p1)" by fastforce
  with assms(1) have "p' = foldl reclaim_one p1 ips" by (auto simp: reclaim_expired_def split: if_splits)
  with reclaim_scan_lease [OF s, of ip] assms(2) show ?thesis by (simp add: reclaim_all_lease)
qed

lemma allocate_lease:
  assumes "pool_allocate now c p = (r, p')" "lease_of p ip = Some c'" "ip \<notin> set (free_ips p)"
  shows "lease_of p' ip = Some c'"
proof (cases "find (\<lambda>(ip, e). lease_client e = c) (leases p)")
  case (Some x)
  then obtain k where "p' = p\<lparr>leases := map (\<lambda>(i, e). (i, if i = k then e\<lparr>expires_at := now + lease_duration p\<rparr> else e)) (leases p)\<rparr>"
    using assms(1) by (auto simp: pool_allocate_def split: prod.splits)
  with assms(2) show ?thesis
    using lease_of_extend [of "\<lambda>i e. if i = k then e\<lparr>expires_at := now + lease_duration p\<rparr> else e" p ip] by simp
next
  case None
  show ?thesis
  proof (cases "free_ips p = []")
    case True
    with None assms show ?thesis by (simp add: pool_allocate_def)
  next
    case False
    then have "last (free_ips p) \<noteq> ip" using assms(3) last_in_set by metis
    with None False assms show ?thesis by (auto simp: pool_allocate_def lease_of_def Let_def map_of_filter_key)
  qed
qed

section \<open>Reachable states\<close>

inductive tun_reachable :: "chars \<Rightarrow> tun_server \<Rightarrow> bool" for net where
  start: "tun_new net = Ok ts \<Longrightarrow> tun_reachable net ts"
| register: "tun_reachable net ts \<Longrightarrow> tun_reachable net (register_client ip x ts)"
| unregister: "tun_reachable net ts \<Longrightarrow> tun_reachable net (unregister_client ip c x ts)"
| allocate: "tun_reachable net ts \<Longrightarrow> tun_reachable net (snd (allocate_ip now c ts))"
| reclaim: "tun_reachable net ts \<Longrightarrow> tun_reachable net (snd (reclaim_expired_leases now ts))"
| release: "tun_reachable net ts \<Longrightarrow> tun_reachable net (snd (release_ip ip ts))"
| downlink: "tun_reachable net ts \<Longrightarrow> tun_reachable net (downlink_finish ip r ts)"

definition pool_ok :: "ip_pool \<Rightarrow> bool" where
  "pool_ok p \<longleftrightarrow> distinct (free_ips p @ lease_ips p) \<and> distinct (lease_clients p)"

lemma pool_ok_same_ips:
  assumes "pool_ok p" "mset (free_ips p') + mset (lease_ips p') = mset (free_ips p) + mset (lease_ips p)" "distinct (lease_clients p')"
  shows "pool_ok p'"
  using assms distinct_sub_mset [of "free_ips p' @ lease_ips p'" "free_ips p @ lease_ips p"] by (simp add: pool_ok_def)

lemma pool_ok_allocate: "pool_ok p \<Longrightarrow> pool_allocate now c p = (r, p') \<Longrightarrow> pool_ok p'"
  using allocate_ips [of now c p r p'] by - (rule pool_ok_same_ips [of p p'], simp_all add: pool_ok_def)

lemma pool_ok_reclaim:
  assumes "pool_ok p" "reclaim_expired now active p = (n, p')"
  shows "pool_ok p'"
proof -
  obtain ips p1 where s: "reclaim_scan now active p = (ips, p1)" by fastforce
  with assms(2) have "p' = foldl reclaim_one p1 ips" by (auto simp: reclaim_expired_def split: if_splits)
  with assms(1) reclaim_scan_ips [OF s] reclaim_all_ips [of p1 ips] show ?thesis
    by - (rule pool_ok_same_ips [of p], auto simp: pool_ok_def)
qed

lemma pool_ok_release:
  assumes "pool_ok p" "pool_release ip p = (r, p')"
  shows "pool_ok p'"
proof -
  obtain ok p1 where t: "release_take ip p = (ok, p1)" by fastforce
  have "distinct (lease_ips p)" using assms(1) by (simp add: pool_ok_def)
  note rt = release_take_ips [OF t this]
  from t assms(2) have "p' = (if ok then release_put ip p1 else p1)" by (auto simp: pool_release_def split: bool.splits)
  with rt assms(1) show ?thesis
    by - (rule pool_ok_same_ips [of p], auto simp: pool_ok_def release_put_def lease_ips_def lease_clients_def)
qed

lemma tun_reachable_pool_ok: "tun_reachable net ts \<Longrightarrow> pool_ok (tun_pool ts)"
proof (induction rule: tun_reachable.induct)
  case (start ts)
  then show ?case
    using pool_new_distinct [of net 3600]
    by (auto simp: tun_new_def and_then_Ok_iff pool_ok_def lease_ips_def lease_clients_def)
next
  case (allocate ts now c)
  then show ?case
    by (auto simp: allocate_ip_def reclaim_expired_leases_def split: prod.splits intro: pool_ok_allocate pool_ok_reclaim)
next
  case (reclaim ts now)
  then show ?case by (auto simp: reclaim_expired_leases_def split: prod.splits intro: pool_ok_reclaim)
next
  case (release ts ip)
  then show ?case by (auto simp: release_ip_def split: prod.splits intro: pool_ok_release)
qed (simp_all add: register_client_def unregister_client_def downlink_finish_def Let_def split: option.split try_send.split)

lemma reclaim_free_ips:
  assumes "pool_ok p'" "lease_of p' ip = Some c"
  shows "ip \<notin> set (free_ips p')"
proof -
  from assms(2) have "ip \<in> set (lease_ips p')" by (auto simp: lease_of_def lease_ips_def dest!: map_of_SomeD intro!: image_eqI)
  with assms(1) show ?thesis by (auto simp: pool_ok_def)
qed

lemma demo_registration:
  "\<exists>ts ip. tun_reachable demo_network ts \<and> lease_of (tun_pool ts) ip = Some (codes ''alice'') \<and> client_senders ts ip = Some 7"
proof -
  obtain p where p: "pool_new demo_network 3600 = Ok p" "free_ips p \<noteq> []" using demo_pool_new by blast
  define ts where "ts = \<lparr>client_senders = Map.empty, tun_pool = p\<rparr>"
  have r0: "tun_reachable demo_network ts" by (rule start) (simp add: tun_new_def p(1) ts_def)
  have "leases p = []" using pool_new_distinct [OF p(1)] by simp
  then have "tun_pool (snd (allocate_ip 0 (codes ''alice'') ts)) = snd (pool_allocate 0 (codes ''alice'') p)"
    and a: "fst (pool_allocate 0 (codes ''alice'') p) = Some (last (free_ips p))"
    "lease_of (snd (pool_allocate 0 (codes ''alice'') p)) (last (free_ips p)) = Some (codes ''alice'')"
    using p(2) by (simp_all add: allocate_ip_def reclaim_expired_leases_def reclaim_expired_def reclaim_scan_def ts_def
        pool_allocate_def lease_of_def Let_def split: prod.split)
  then have "lease_of (tun_pool (snd (allocate_ip 0 (codes ''alice'') ts))) (last (free_ips p)) = Some (codes ''alice'')" by simp
  with register [OF allocate [OF r0, of 0 "codes ''alice''"], of "last (free_ips p)" 7] show ?thesis
    by (intro exI [of _ "register_client (last (free_ips p)) 7 (snd (allocate_ip 0 (codes ''alice'') ts))"] exI [of _ "last (free_ips p)"])
       (simp add: register_client_def)
qed

section \<open>Properties\<close>

text \<open>C13: a session that is registered keeps its address. In every state the server can reach, if an address is
  leased to a client and has a registered channel, then an allocation for anybody, with the reclaim that
  precedes it, leaves the lease with its client and is given that address only if it is for that client;
  and no unregistration for another channel removes the registration.\<close>

theorem registered_session_keeps_lease:
  assumes "tun_reachable net ts" "lease_of (tun_pool ts) ip = Some c" "client_senders ts ip = Some x"
  shows "lease_of (tun_pool (snd (allocate_ip now c' ts))) ip = Some c
    \<and> (fst (allocate_ip now c' ts) = Some ip \<longrightarrow> c' = c)
    \<and> (y \<noteq> x \<longrightarrow> client_senders (unregister_client ip' c'' y ts) ip = Some x)"
proof -
  obtain n p1 where r: "reclaim_expired now (\<lambda>ip. client_senders ts ip \<noteq> None) (tun_pool ts) = (n, p1)" by fastforce
  obtain q p2 where a: "pool_allocate now c' p1 = (q, p2)" by fastforce
  have e: "fst (allocate_ip now c' ts) = q" "tun_pool (snd (allocate_ip now c' ts)) = p2"
    by (simp_all add: allocate_ip_def reclaim_expired_leases_def r a del: not_None_eq)
  have ok: "pool_ok p1" using pool_ok_reclaim [OF tun_reachable_pool_ok [OF assms(1)] r] .
  have l1: "lease_of p1 ip = Some c" using reclaim_expired_lease [OF r, of ip] assms(2,3) by simp
  then have l2: "lease_of p2 ip = Some c" using allocate_lease [OF a] reclaim_free_ips [OF ok] by blast
  have "distinct (lease_ips p1)" "distinct (lease_clients p1)" using ok by (simp_all add: pool_ok_def)
  with allocate_result [OF a] have "q = Some ip \<longrightarrow> lease_of p2 ip = Some c'" by (auto split: option.splits)
  with l2 e have "fst (allocate_ip now c' ts) = Some ip \<longrightarrow> c' = c" by simp
  moreover have "y \<noteq> x \<longrightarrow> client_senders (unregister_client ip' c'' y ts) ip = Some x"
    using assms(3) by (auto simp: unregister_client_def Let_def split: option.split)
  ultimately show ?thesis using l2 e by simp
qed

theorem registered_session_keeps_lease_witness:
  "\<exists>ts ip. tun_reachable demo_network ts \<and> client_senders ts ip = Some 7
     \<and> lease_of (tun_pool (snd (allocate_ip 9999 (codes ''bob'') ts))) ip = Some (codes ''alice'')
     \<and> client_senders (unregister_client ip (codes ''alice'') 6 ts) ip = Some 7"
proof -
  obtain ts ip where "tun_reachable demo_network ts" "lease_of (tun_pool ts) ip = Some (codes ''alice'')" "client_senders ts ip = Some 7"
    using demo_registration by blast
  with registered_session_keeps_lease [of demo_network ts ip "codes ''alice''" 7 9999 "codes ''bob''" 6 ip "codes ''alice''"]
  show ?thesis by auto
qed

end
