(* ===== verification/Tunnel.thy ===== *)
theory Tunnel
  imports Ratchet_Correct Ratchet_Wire Padding Multiplex Nat_Rewrite
begin

text \<open>
  One message of the tunnel through all its layers, at both ends: frames are concatenated, padded once,
  encrypted once by the Double Ratchet and serialised. The sending ends are \<open>encrypt_data_batch\<close> and the keepalives of
  the iOS client (\<open>rvpn-mobile/src/server_session.rs\<close>) and of the Android client (\<open>android_server_session.rs\<close>), and
  \<open>encrypt_frame\<close> and \<open>encrypt_data_batch\<close> of the server (\<open>rvpn-server/src/handler.rs\<close>). The receiving ends are
  \<open>decrypt_frame\<close> and \<open>decrypt_and_parse_frame\<close> of the server and the receive loops of the two clients.

  The session of a client and a server is the step relation \<open>tunnel_step\<close>; its invariant puts the tunnel on top of
  the channel contract that the Double Ratchet satisfies.
\<close>

section \<open>Errors and constants\<close>

datatype tunnel_error =
    EmptyBatch
  | FrameFailed multiplex_error
  | PadFailed padding_error
  | EncryptFailed crypt_error
  | SerializeFailed bincode_error
  | DeserializeFailed bincode_error
  | RefParseFailed parse_error
  | UnknownPayloadType u8
  | DecryptFailed crypt_error
  | UnpadFailed padding_error
  | EmptyPlaintext
  | NoFrames

fun map_err :: "('e \<Rightarrow> 'f) \<Rightarrow> ('e, 'a) outcome \<Rightarrow> ('f, 'a) outcome" where
  "map_err g (Ok a) = Ok a"
| "map_err g (Err e) = Err (g e)"
| "map_err g Panic = Panic"

definition PAYLOAD_DATA :: u8 where
  "PAYLOAD_DATA = 0x01"

definition PAYLOAD_ADMIN :: u8 where
  "PAYLOAD_ADMIN = 0x02"

definition TUN_DATA_FLOW_ID :: u32 where
  "TUN_DATA_FLOW_ID = 1"

section \<open>Sealing\<close>

text \<open>
  The tail of every sender: encrypt the padded plaintext with a payload type as associated data and serialise. The iOS client
  encrypts into a buffer that it reuses (\<open>seal_to\<close>), the other ends into a new one (\<open>seal\<close>).
\<close>

definition seal :: "crypto_crates \<Rightarrow> bincode_crate \<Rightarrow> 'c double_ratchet \<Rightarrow> bytes \<Rightarrow> u8 \<Rightarrow> bytes
    \<Rightarrow> (tunnel_error, bytes) outcome \<times> 'c double_ratchet" where
  "seal P B s rnd aad padded =
     (case dr_encrypt P s rnd padded [aad] of
        (Ok m, s') \<Rightarrow> (map_err SerializeFailed (ratchet_message_to_bytes B m), s')
      | (Err e, s') \<Rightarrow> (Err (EncryptFailed e), s')
      | (Panic, s') \<Rightarrow> (Panic, s'))"

definition seal_to :: "crypto_crates \<Rightarrow> bincode_crate \<Rightarrow> 'c double_ratchet \<Rightarrow> bytes \<Rightarrow> bytes \<Rightarrow> bytes
    \<Rightarrow> (tunnel_error, bytes) outcome \<times> 'c double_ratchet" where
  "seal_to P B s rnd padded ciphertext_buf =
     (case dr_encrypt_to P s rnd padded [PAYLOAD_DATA] ciphertext_buf of
        (Ok (n, h), s', ct) \<Rightarrow>
          (map_err SerializeFailed (ratchet_message_to_bytes B \<lparr>header = h, nonce = n, ciphertext = ct\<rparr>), s')
      | (Err e, s', ct) \<Rightarrow> (Err (EncryptFailed e), s')
      | (Panic, s', ct) \<Rightarrow> (Panic, s'))"

section \<open>The iOS client sends\<close>

definition ios_plaintext :: "bytes list \<Rightarrow> bytes" where
  "ios_plaintext packets =
     concat (map (\<lambda>packet. to_be_bytes 4 (1 :: u32) @ to_be_bytes 2 (of_nat (length packet) :: u16) @ packet) packets)"

definition ios_pad :: "(nat \<Rightarrow> bytes) \<Rightarrow> bytes \<Rightarrow> bytes" where
  "ios_pad fill plaintext =
     (let data_len = length plaintext;
          target_size = div_ceil (data_len + 2) 1024 * 1024;
          max_data_len = target_size - 2;
          padding_len = max_data_len - data_len
      in plaintext @ (if padding_len > 0 then fill padding_len else []) @ to_be_bytes 2 (of_nat padding_len :: u16))"

definition ios_encrypt_data_batch :: "crypto_crates \<Rightarrow> bincode_crate \<Rightarrow> 'c double_ratchet \<Rightarrow> bytes
    \<Rightarrow> (nat \<Rightarrow> bytes) \<Rightarrow> bytes list \<Rightarrow> bytes \<Rightarrow> (tunnel_error, bytes) outcome \<times> 'c double_ratchet" where
  "ios_encrypt_data_batch P B s rnd fill packets ciphertext_buf =
     (if packets = [] then (Err EmptyBatch, s)
      else seal_to P B s rnd (ios_pad fill (ios_plaintext packets)) ciphertext_buf)"

definition build_keepalive_to :: "crypto_crates \<Rightarrow> bincode_crate \<Rightarrow> control_crate \<Rightarrow> 'c double_ratchet \<Rightarrow> bytes
    \<Rightarrow> (nat \<Rightarrow> bytes) \<Rightarrow> u64 \<Rightarrow> bytes \<Rightarrow> (tunnel_error, bytes) outcome \<times> 'c double_ratchet" where
  "build_keepalive_to P B C s rnd fill now ciphertext_buf =
     st_then (map_err FrameFailed (new_control C (Ping now)), s) (\<lambda>f s.
     let frame_buf = to_be_bytes 4 (flow_id f) @ to_be_bytes 2 (of_nat (length (payload f)) :: u16) @ payload f in
     st_then (map_err PadFailed (pad_packet fill frame_buf), s) (\<lambda>padded s.
     seal_to P B s rnd padded ciphertext_buf))"

section \<open>The Android client sends\<close>

fun android_plaintext :: "bytes_crate \<Rightarrow> bytes list \<Rightarrow> bytes \<Rightarrow> (multiplex_error, bytes) outcome" where
  "android_plaintext R [] plaintext = Ok plaintext"
| "android_plaintext R (packet # packets) plaintext =
     (case frame_encode_to R (new_data 1 packet) plaintext of
        (Ok _, plaintext) \<Rightarrow> android_plaintext R packets plaintext
      | (Err e, _) \<Rightarrow> Err e
      | (Panic, _) \<Rightarrow> Panic)"

definition android_encrypt_data_batch :: "crypto_crates \<Rightarrow> bincode_crate \<Rightarrow> bytes_crate \<Rightarrow> 'c double_ratchet \<Rightarrow> bytes
    \<Rightarrow> (nat \<Rightarrow> bytes) \<Rightarrow> bytes list \<Rightarrow> (tunnel_error, bytes) outcome \<times> 'c double_ratchet" where
  "android_encrypt_data_batch P B R s rnd fill packets =
     (if packets = [] then (Err EmptyBatch, s)
      else st_then (map_err FrameFailed (android_plaintext R packets []), s) (\<lambda>plaintext s.
           st_then (map_err PadFailed (pad_packet fill plaintext), s) (\<lambda>padded s.
           seal P B s rnd PAYLOAD_DATA padded)))"

definition build_keepalive_packet :: "crypto_crates \<Rightarrow> bincode_crate \<Rightarrow> bytes_crate \<Rightarrow> control_crate
    \<Rightarrow> 'c double_ratchet \<Rightarrow> bytes \<Rightarrow> (nat \<Rightarrow> bytes) \<Rightarrow> u64 \<Rightarrow> (tunnel_error, bytes) outcome \<times> 'c double_ratchet" where
  "build_keepalive_packet P B R C s rnd fill now =
     st_then (map_err FrameFailed (new_control C (Ping now)), s) (\<lambda>f s.
     st_then (map_err FrameFailed (frame_encode R f), s) (\<lambda>frame_bytes s.
     st_then (map_err PadFailed (pad_packet fill frame_bytes), s) (\<lambda>padded s.
     seal P B s rnd PAYLOAD_DATA padded)))"

section \<open>The server sends\<close>

definition append_tun_frame :: "bytes \<Rightarrow> bytes \<Rightarrow> bytes" where
  "append_tun_frame buf packet =
     buf @ to_be_bytes 4 TUN_DATA_FLOW_ID @ to_be_bytes 2 (of_nat (length packet) :: u16) @ packet"

definition server_encrypt_data_batch :: "crypto_crates \<Rightarrow> bincode_crate \<Rightarrow> 'c double_ratchet \<Rightarrow> bytes
    \<Rightarrow> (nat \<Rightarrow> bytes) \<Rightarrow> bytes \<Rightarrow> (tunnel_error, bytes) outcome \<times> 'c double_ratchet" where
  "server_encrypt_data_batch P B s rnd fill plaintext =
     st_then (map_err PadFailed (pad_packet fill plaintext), s) (\<lambda>padded s. seal P B s rnd PAYLOAD_DATA padded)"

definition encrypt_frame :: "crypto_crates \<Rightarrow> bincode_crate \<Rightarrow> 'c double_ratchet \<Rightarrow> bytes
    \<Rightarrow> (nat \<Rightarrow> bytes) \<Rightarrow> bytes \<Rightarrow> (tunnel_error, bytes) outcome \<times> 'c double_ratchet" where
  "encrypt_frame P B s rnd fill data =
     st_then (map_err PadFailed (pad_packet fill data), s) (\<lambda>padded s. seal P B s rnd PAYLOAD_DATA padded)"

text \<open>
  \<open>run_ws_sender\<close> sends one data or control frame per message, a control frame under the payload type \<open>Admin\<close>.
  An error of any step ends the sender task.
\<close>

datatype mux_message = MuxData u32 bytes | MuxControl control_message

definition ws_sender_plaintext :: "bytes_crate \<Rightarrow> control_crate \<Rightarrow> mux_message \<Rightarrow> (multiplex_error, bytes \<times> u8) outcome" where
  "ws_sender_plaintext R C msg =
     (case msg of
        MuxData fid data \<Rightarrow>
          Ok (to_be_bytes 4 fid @ to_be_bytes 2 (of_nat (length data) :: u16) @ data, PAYLOAD_DATA)
      | MuxControl control \<Rightarrow>
          and_then (new_control C control) (\<lambda>f.
          and_then (frame_encode R f) (\<lambda>encoded. Ok (encoded, PAYLOAD_ADMIN))))"

definition ws_sender_encrypt :: "crypto_crates \<Rightarrow> bincode_crate \<Rightarrow> bytes_crate \<Rightarrow> control_crate \<Rightarrow> 'c double_ratchet \<Rightarrow> bytes
    \<Rightarrow> (nat \<Rightarrow> bytes) \<Rightarrow> mux_message \<Rightarrow> (tunnel_error, bytes) outcome \<times> 'c double_ratchet" where
  "ws_sender_encrypt P B R C s rnd fill msg =
     st_then (map_err FrameFailed (ws_sender_plaintext R C msg), s) (\<lambda>(plaintext, aad) s.
     st_then (map_err PadFailed (pad_packet fill plaintext), s) (\<lambda>padded s.
     seal P B s rnd aad padded))"

section \<open>The server receives\<close>

text \<open>
  The server turns the payload type of the header into the associated data, and knows the types \<open>0x00\<close> to
  \<open>0x0C\<close>. \<open>decrypt_frame\<close> returns the plaintext as it is; its callers on the desktop path unpad it.
\<close>

definition known_payload_type :: "u8 \<Rightarrow> bool" where
  "known_payload_type t = (t \<in> set [0x00, 0x01, 0x02, 0x03, 0x04, 0x05, 0x06, 0x07, 0x08, 0x09, 0x0A, 0x0B, 0x0C])"

definition decrypt_frame :: "crypto_crates \<Rightarrow> 'c lru_crate \<Rightarrow> bincode_crate \<Rightarrow> 'c double_ratchet \<Rightarrow> bytes \<Rightarrow> bytes
    \<Rightarrow> (tunnel_error, bytes) outcome \<times> 'c double_ratchet" where
  "decrypt_frame P L B s fresh data =
     st_then (map_err DeserializeFailed (ratchet_message_from_bytes B data), s) (\<lambda>m s.
     if \<not> known_payload_type (payload_type (header m)) then (Err (UnknownPayloadType (payload_type (header m))), s)
     else case dr_decrypt P L s fresh m of (r, s') \<Rightarrow> (map_err DecryptFailed r, s'))"

definition decrypt_and_parse_frame :: "crypto_crates \<Rightarrow> 'c lru_crate \<Rightarrow> bincode_crate \<Rightarrow> bytes_crate
    \<Rightarrow> 'c double_ratchet \<Rightarrow> bytes \<Rightarrow> bytes \<Rightarrow> (tunnel_error, (u32 \<times> bytes \<times> u8) list) outcome \<times> 'c double_ratchet" where
  "decrypt_and_parse_frame P L B R s fresh data =
     st_then (map_err DeserializeFailed (ratchet_message_from_bytes B data), s) (\<lambda>m s.
     let aad_byte = payload_type (header m) in
     if \<not> known_payload_type aad_byte then (Err (UnknownPayloadType aad_byte), s)
     else st_then (case dr_decrypt P L s fresh m of (r, s') \<Rightarrow> (map_err DecryptFailed r, s')) (\<lambda>decrypted s.
     st_then (map_err UnpadFailed (unpad_packet decrypted), s) (\<lambda>plaintext s.
     if plaintext = [] then (Err EmptyPlaintext, s)
     else st_then (parse_frames R plaintext, s) (\<lambda>(fs, consumed) s.
     if fs = [] then (Err NoFrames, s)
     else (Ok (map (\<lambda>f. (flow_id f, payload f, aad_byte)) fs), s)))))"

section \<open>The clients receive\<close>

text \<open>
  The iOS client walks over the frames itself and appends each data packet, behind its length in little
  endian, to the batch for the operating system. A session that is not the default one rewrites the
  destination of each packet to the address of the primary session, or drops it if that is not known yet.
\<close>

definition rx_append :: "bool \<Rightarrow> ipv4_addr option \<Rightarrow> bytes \<Rightarrow> bytes \<Rightarrow> bool \<Rightarrow> ('e, bytes \<times> bool) outcome" where
  "rx_append is_default primary packet batch_buf has_data =
     (let prefix_at = length batch_buf;
          batch_buf = batch_buf @ to_le_bytes 2 (of_nat (length packet) :: u16) @ packet
      in if is_default then Ok (batch_buf, True)
         else case primary of
           Some ip \<Rightarrow>
             and_then (bslice batch_buf (prefix_at + 2) (length batch_buf)) (\<lambda>pkt.
             and_then (rewrite_dst_ip pkt ip) (\<lambda>(_, pkt).
             Ok (take (prefix_at + 2) batch_buf @ pkt, True)))
         | None \<Rightarrow> Ok (take prefix_at batch_buf, has_data))"

function rx_frames :: "bytes_crate \<Rightarrow> bool \<Rightarrow> ipv4_addr option \<Rightarrow> bytes \<Rightarrow> nat \<Rightarrow> bytes \<Rightarrow> bool
    \<Rightarrow> ('e, bytes \<times> bool) outcome" where
  "rx_frames R is_default primary unpadded pos batch_buf has_data =
     (if pos + 6 \<le> length unpadded then
        and_then (idxs unpadded pos 4) (\<lambda>id_bytes.
        and_then (idxs unpadded (pos + 4) 2) (\<lambda>len_bytes.
        let fid = from_be_bytes id_bytes :: u32;
            payload_len = unat (from_be_bytes len_bytes :: u16)
        in if pos + 6 + payload_len > length unpadded then Ok (batch_buf, has_data)
           else if fid = 0 then
             (case frame_decode R (drop pos unpadded) of
                Panic \<Rightarrow> Panic
              | _ \<Rightarrow> rx_frames R is_default primary unpadded (pos + (6 + payload_len)) batch_buf has_data)
           else
             and_then (bslice unpadded (pos + 6) (pos + 6 + payload_len)) (\<lambda>packet.
             and_then (rx_append is_default primary packet batch_buf has_data) (\<lambda>(batch_buf, has_data).
             rx_frames R is_default primary unpadded (pos + (6 + payload_len)) batch_buf has_data))))
      else Ok (batch_buf, has_data))"
  by pat_completeness auto

termination rx_frames
  by (relation "measure (\<lambda>(R, d, pr, unpadded, pos, batch_buf, has_data). length unpadded - pos)") auto

declare rx_frames.simps [simp del]

definition ios_receive :: "crypto_crates \<Rightarrow> 'c lru_crate \<Rightarrow> bytes_crate \<Rightarrow> bool \<Rightarrow> ipv4_addr option
    \<Rightarrow> 'c double_ratchet \<Rightarrow> bytes \<Rightarrow> bytes \<Rightarrow> bytes \<Rightarrow> (tunnel_error, bytes option) outcome \<times> 'c double_ratchet" where
  "ios_receive P L R is_default primary s fresh data plaintext_buf =
     st_then (map_err RefParseFailed (ratchet_message_ref_from_bytes data), s) (\<lambda>m s.
     case dr_decrypt_to_ref P L s fresh m plaintext_buf of
       (Ok len, s', out) \<Rightarrow>
         (and_then (bslice out 0 len) (\<lambda>plaintext.
          and_then (map_err UnpadFailed (unpad_packet_slice plaintext)) (\<lambda>unpadded.
          and_then (rx_frames R is_default primary unpadded 0 [] False) (\<lambda>(batch_buf, has_data).
          Ok (if has_data then Some batch_buf else None)))), s')
     | (Err e, s', out) \<Rightarrow> (Err (DecryptFailed e), s')
     | (Panic, s', out) \<Rightarrow> (Panic, s'))"

text \<open>The Android client hands over packet by packet.\<close>

fun android_packets :: "bool \<Rightarrow> ipv4_addr option \<Rightarrow> frame list \<Rightarrow> ('e, bytes list) outcome" where
  "android_packets is_default primary [] = Ok []"
| "android_packets is_default primary (f # fs) =
     (if flow_id f = 0 then android_packets is_default primary fs
      else if is_default then
        and_then (android_packets is_default primary fs) (\<lambda>ps. Ok (payload f # ps))
      else case primary of
        Some ip \<Rightarrow>
          and_then (rewrite_dst_ip (payload f) ip) (\<lambda>(_, packet).
          and_then (android_packets is_default primary fs) (\<lambda>ps. Ok (packet # ps)))
      | None \<Rightarrow> android_packets is_default primary fs)"

definition android_receive :: "crypto_crates \<Rightarrow> 'c lru_crate \<Rightarrow> bincode_crate \<Rightarrow> bytes_crate \<Rightarrow> bool \<Rightarrow> ipv4_addr option
    \<Rightarrow> 'c double_ratchet \<Rightarrow> bytes \<Rightarrow> bytes \<Rightarrow> (tunnel_error, bytes list) outcome \<times> 'c double_ratchet" where
  "android_receive P L B R is_default primary s fresh data =
     st_then (map_err DeserializeFailed (ratchet_message_from_bytes B data), s) (\<lambda>m s.
     st_then (case dr_decrypt P L s fresh m of (r, s') \<Rightarrow> (map_err DecryptFailed r, s')) (\<lambda>decrypted s.
     (and_then (map_err UnpadFailed (unpad_packet decrypted)) (\<lambda>unpadded.
      and_then (parse_frames R unpadded) (\<lambda>(fs, consumed).
      android_packets is_default primary fs)), s)))"

section \<open>The frames of a message\<close>

abbreviation wires :: "frame list \<Rightarrow> bytes" where
  "wires fs \<equiv> concat (map wire fs)"

abbreviation sendable :: "frame list \<Rightarrow> bool" where
  "sendable fs \<equiv> fs \<noteq> [] \<and> list_all (\<lambda>f. length (payload f) \<le> 65535) fs"

text \<open>A padded plaintext carries a list of frames.\<close>

definition carries :: "bytes \<Rightarrow> frame list \<Rightarrow> bool" where
  "carries p fs \<longleftrightarrow> unpad_packet p = Ok (wires fs) \<and> sendable fs"

lemma wires_not_Nil: "fs \<noteq> [] \<Longrightarrow> wires fs \<noteq> []"
  by (cases fs) (auto dest!: arg_cong [of "wire _" "[]" length] simp: frame_size_def)

lemma drains_wires:
  assumes "list_all (\<lambda>f. length (payload f) \<le> 65535) fs"
  shows "drains first_frame (wires fs) fs []"
  using assms by (simp add: drains_frames_iff first_frame_def)

lemma parse_wires:
  assumes "bytes_ok R" "list_all (\<lambda>f. length (payload f) \<le> 65535) fs"
  shows "parse_frames R (wires fs) = (Ok (fs, length (wires fs)) :: ('e, _) outcome)"
  using drains_wires [OF assms(2)] by (auto simp: parse_frames_drains [OF assms(1)])

lemma ios_plaintext_wires: "ios_plaintext ps = wires (map (new_data 1) ps)"
  by (induction ps) (simp_all add: ios_plaintext_def wire_def new_data_def)

lemma tun_frames_wires: "foldl append_tun_frame buf ps = buf @ wires (map (new_data 1) ps)"
  by (induction ps arbitrary: buf) (simp_all add: append_tun_frame_def wire_def new_data_def TUN_DATA_FLOW_ID_def)

lemma android_plaintext_wires:
  assumes "bytes_ok R" "list_all (\<lambda>p. length p \<le> 65535) ps"
  shows "android_plaintext R ps buf = Ok (buf @ wires (map (new_data 1) ps))"
  using assms(2)
  by (induction ps arbitrary: buf) (simp_all add: frame_encode_to_wire [OF assms(1)] new_data_def)

lemma ios_pad_small:
  assumes "d \<noteq> []" "length d \<le> 16382"
  shows "pad_packet fill d = Ok (ios_pad fill d)"
proof -
  have "div_ceil (length d + 2) 1024 * 1024 \<le> 16384"
    using padded_size_eq(1,3) [OF assms(2)] assms(2) div_ceil_bounds(3) [of 1024 "length d + 2"]
    by (simp add: PADDING_BLOCK_SIZE_def)
  moreover have "length d + 2 \<le> div_ceil (length d + 2) 1024 * 1024"
    by (rule div_ceil_bounds) simp
  ultimately have m: "min (div_ceil (length d + 2) 1024 * 1024) (16 * 1024) = div_ceil (length d + 2) 1024 * 1024"
    "\<not> div_ceil (length d + 2) 1024 * 1024 - 2 < length d"
    by simp_all
  show ?thesis
    by (simp only: pad_packet_def ios_pad_def Let_def PADDING_BLOCK_SIZE_def MAX_PADDED_SIZE_def m assms(1) if_False)
qed

lemma ios_pad_unpads:
  assumes "fills fill"
  shows "unpad_packet (ios_pad fill d) = Ok d" "length (ios_pad fill d) \<le> length d + 1025"
proof -
  define n where "n = div_ceil (length d + 2) 1024 * 1024 - 2 - length d"
  define p where "p = (if n > 0 then fill n else [])"
  have b: "length d + 2 \<le> div_ceil (length d + 2) 1024 * 1024" "div_ceil (length d + 2) 1024 * 1024 < length d + 2 + 1024"
    by (rule div_ceil_bounds, simp)+
  have l: "length p = n" "n < 1024" using assms b by (simp_all add: p_def n_def)
  have e: "ios_pad fill d = d @ p @ to_be_bytes 2 (of_nat (length p) :: u16)"
    by (simp only: ios_pad_def Let_def n_def [symmetric] p_def [symmetric] l(1))
  show "unpad_packet (ios_pad fill d) = Ok d" using unpad_packet_append [of p d] l unfolding e by simp
  show "length (ios_pad fill d) \<le> length d + 1025" using l unfolding e by simp
qed

lemma pad_packet_unpads:
  assumes "fills fill" "length d \<le> 16382"
  obtains p where "pad_packet fill d = Ok p" "unpad_packet p = Ok d" "length p + TAG_SIZE \<le> MAX_MESSAGE_SIZE"
proof -
  obtain q where q: "length q < 65536" "pad_packet fill d = Ok (d @ q @ to_be_bytes 2 (of_nat (length q) :: u16))"
    "length d + length q + 2 = padded_size (length d)"
    by (rule pad_packet_small [OF assms])
  show thesis
    by (rule that [OF q(2)])
       (use q(1) assms(2) in \<open>simp_all add: unpad_packet_append TAG_SIZE_def MAX_MESSAGE_SIZE_def\<close>)
qed

section \<open>Sealed messages\<close>

lemma message_fields [simp]: "\<lparr>header = header m, nonce = nonce m, ciphertext = ciphertext m\<rparr> = m"
  for m :: ratchet_message
  by (cases m) simp

lemma seal_to_eq: "aead_ok (chacha P) \<Longrightarrow> seal_to P B s rnd p buf = seal P B s rnd PAYLOAD_DATA p"
  by (simp add: seal_to_def seal_def dr_encrypt_to_eq split: prod.split outcome.split)

text \<open>
  The messages under way from one end to the other: \<open>q\<close> lists the bytes on the wire, each with its parcel, the
  payload type and the frames it carries. The ratchet messages behind them form a flow of the Double Ratchet.
\<close>

type_synonym parcel = "u8 \<times> frame list"

fun sealed :: "bytes \<times> parcel \<Rightarrow> ratchet_message \<times> bytes \<Rightarrow> bool" where
  "sealed (w, t, fs) (m, p) \<longleftrightarrow> w = bincode_layout m \<and> wf_ratchet_message m \<and> length (ciphertext m) \<le> MAX_MESSAGE_SIZE
     \<and> payload_type (header m) = t \<and> known_payload_type t \<and> carries p fs"

definition tunnel_flow :: "crypto_crates \<Rightarrow> 'c lru_crate \<Rightarrow> 'c double_ratchet \<Rightarrow> (bytes \<times> parcel) list
    \<Rightarrow> 'c double_ratchet \<Rightarrow> bool" where
  "tunnel_flow P L a q b \<longleftrightarrow> (\<exists>ms. dr_flow P L a ms b \<and> list_all2 sealed q ms)"

lemma tunnel_flow_start: "dr_flow P L a [] b \<Longrightarrow> tunnel_flow P L a [] b"
  by (simp add: tunnel_flow_def)

lemma dr_encrypt_fields:
  assumes "dr_encrypt P s rnd p ad = (Ok m, s')"
  shows "nonce m = rnd" "payload_type (header m) = first_or_zero ad"
    "dh_public (header m) = map_option public_key (dr_dh_pair s)"
  using assms
  by (auto simp: dr_encrypt_def Let_def case_prod_unfold split: option.splits outcome.splits)

text \<open>What the senders hand to \<open>seal\<close>.\<close>

definition sealable :: "bytes \<Rightarrow> u8 \<Rightarrow> bytes \<Rightarrow> frame list \<Rightarrow> bool" where
  "sealable rnd t p fs \<longleftrightarrow> length rnd = 12 \<and> known_payload_type t \<and> carries p fs \<and> length p + TAG_SIZE \<le> MAX_MESSAGE_SIZE"

lemma seal_flow:
  assumes "bincode_ok B" "tunnel_flow P L a q b" "sealable rnd t p fs"
  obtains w a' where "seal P B a rnd t p = (Ok w, a')" "tunnel_flow P L a' (q @ [(w, t, fs)]) b"
    "\<And>q'. tunnel_flow P L b q' a \<Longrightarrow> tunnel_flow P L b q' a'"
proof -
  obtain ms where ms: "dr_flow P L a ms b" "list_all2 sealed q ms"
    using assms(2) unfolding tunnel_flow_def by blast
  have "dr_usable (rnd, [t]) p" using assms(3) by (simp add: dr_usable_def sealable_def)
  from double_ratchet.send_flow [OF ms(1) this] obtain m a' where
    m: "dr_encrypt P a rnd p [t] = (Ok m, a')" "dr_flow P L a' (ms @ [(m, p)]) b"
    by auto
  have "length (ciphertext m) \<le> MAX_MESSAGE_SIZE"
    using m(2) by (auto simp: dr_flow_def messages_under_way_snoc)
  moreover have "wf_ratchet_message m"
    using dr_encrypt_fields [OF m(1)] ms(1) assms(3)
    by (auto simp: wf_ratchet_message_def wf_header_def NONCE_SIZE_def dr_flow_def sealable_def)
  ultimately have w: "wf_ratchet_message m" "length (ciphertext m) < 2 ^ 63" "length (ciphertext m) \<le> MAX_MESSAGE_SIZE"
    by (simp_all add: MAX_MESSAGE_SIZE_def)
  show thesis
  proof (rule that)
    show "seal P B a rnd t p = (Ok (bincode_layout m), a')"
      using m(1) w assms(1) by (simp add: seal_def ratchet_message_to_bytes_def bincode_ok_def)
    show "tunnel_flow P L a' (q @ [(bincode_layout m, t, fs)]) b"
      unfolding tunnel_flow_def using ms(2) m(2) w dr_encrypt_fields(2) [OF m(1)] assms(3)
      by (intro exI [of _ "ms @ [(m, p)]"]) (simp add: list_all2_appendI first_or_zero_def sealable_def)
    show "tunnel_flow P L b q' a'" if "tunnel_flow P L b q' a" for q'
      using that double_ratchet.send_keeps_incoming [of P L b _ a "(rnd, [t])" p m a'] m(1)
      unfolding tunnel_flow_def by auto
  qed
qed

text \<open>
  The receiving half: the bytes parse to a ratchet message that opens to the frames, and \<open>opened\<close> is the
  state the receiver is left in.
\<close>

definition opened :: "crypto_crates \<Rightarrow> 'c lru_crate \<Rightarrow> 'c double_ratchet \<Rightarrow> bytes \<Rightarrow> bytes \<Rightarrow> 'c double_ratchet" where
  "opened P L b fresh w =
     (case ratchet_message_ref_from_bytes w of Ok m \<Rightarrow> snd (dr_decrypt P L b fresh m) | _ \<Rightarrow> b)"

lemma open_flow:
  assumes "tunnel_flow P L a ((w, t, fs) # q) b"
  obtains m p where "w = bincode_layout m" "wf_ratchet_message m" "length (ciphertext m) < 2 ^ 63"
    "payload_type (header m) = t" "known_payload_type t" "carries p fs"
    "dr_decrypt P L b fresh m = (Ok p, opened P L b fresh w)"
proof -
  obtain m p ms where m: "dr_flow P L a ((m, p) # ms) b" "w = bincode_layout m" "wf_ratchet_message m"
    "length (ciphertext m) \<le> MAX_MESSAGE_SIZE" "payload_type (header m) = t" "known_payload_type t" "carries p fs"
    using assms unfolding tunnel_flow_def by (auto simp: list_all2_Cons1)
  then have l: "length (ciphertext m) < 2 ^ 63" by (simp add: MAX_MESSAGE_SIZE_def)
  have "dr_decrypt P L b fresh m = (Ok p, opened P L b fresh w)"
    using double_ratchet.recv_flow [OF m(1), of fresh] ref_from_bytes_layout [OF m(3) l, of "[]"]
    by (auto simp: opened_def m(2))
  with m l show thesis by (intro that)
qed

lemma opened_flow:
  assumes "tunnel_flow P L a ((w, x) # q) b"
  shows "tunnel_flow P L a q (opened P L b fresh w)"
    and "tunnel_flow P L b q' a \<Longrightarrow> tunnel_flow P L (opened P L b fresh w) q' a"
proof -
  obtain m p ms where m: "dr_flow P L a ((m, p) # ms) b" "sealed (w, x) (m, p)" "list_all2 sealed q ms"
    using assms unfolding tunnel_flow_def by (auto simp: list_all2_Cons1)
  have "ratchet_message_ref_from_bytes w = Ok m"
    using m(2) ref_from_bytes_layout [of m "[]"] by (cases x) (auto simp: MAX_MESSAGE_SIZE_def)
  then obtain b' where d: "dr_decrypt P L b fresh m = (Ok p, b')" "dr_flow P L a ms b'" "opened P L b fresh w = b'"
    using double_ratchet.recv_flow [OF m(1), of fresh] by (auto simp: opened_def)
  show "tunnel_flow P L a q (opened P L b fresh w)" using d(2,3) m(3) unfolding tunnel_flow_def by blast
  show "tunnel_flow P L (opened P L b fresh w) q' a" if "tunnel_flow P L b q' a"
    using that double_ratchet.recv_keeps_outgoing [OF m(1) _ d(1)] unfolding tunnel_flow_def d(3) by blast
qed

section \<open>The senders seal frames\<close>

lemma pad_sealable:
  assumes "pad_packet fill (wires fs) = Ok p" "fills fill" "fs \<noteq> []" "length rnd = 12" "known_payload_type t"
  shows "sealable rnd t p fs"
proof -
  have l: "length (wires fs) \<le> 16382" using assms(1) pad_packet_large [of "wires fs" fill] by fastforce
  have "length (wire f) \<le> length (wires fs)" if "f \<in> set fs" for f
    using that by (induction fs) auto
  then have "list_all (\<lambda>f. length (payload f) \<le> 65535) fs"
    using l by (fastforce simp: list_all_iff frame_size_def)
  moreover obtain q where "pad_packet fill (wires fs) = Ok q" "unpad_packet q = Ok (wires fs)"
    "length q + TAG_SIZE \<le> MAX_MESSAGE_SIZE"
    by (rule pad_packet_unpads [OF assms(2) l])
  ultimately show ?thesis
    using assms by (simp add: sealable_def carries_def)
qed

lemma map_err_Ok [simp]: "map_err g r = Ok a \<longleftrightarrow> r = Ok a"
  by (cases r) simp_all

lemma known_data [simp]: "known_payload_type PAYLOAD_DATA" "known_payload_type PAYLOAD_ADMIN"
  by (simp_all add: known_payload_type_def PAYLOAD_DATA_def PAYLOAD_ADMIN_def)

text \<open>
  The sends of a client and of a server. \<open>rnd\<close> and \<open>fill\<close> are the nonce and the padding drawn. The iOS client
  checks neither the length of a packet nor that of a batch; the bounds on them are those of a \<open>u16\<close>
  length and of the largest message a receiver takes.
\<close>

definition ios_batch_fits :: "bytes list \<Rightarrow> bool" where
  "ios_batch_fits packets \<longleftrightarrow> list_all (\<lambda>p. length p \<le> 65535) packets
     \<and> length (ios_plaintext packets) + 1041 \<le> MAX_MESSAGE_SIZE"

inductive client_sends :: "crypto_crates \<Rightarrow> bincode_crate \<Rightarrow> bytes_crate \<Rightarrow> control_crate \<Rightarrow> 'c double_ratchet
    \<Rightarrow> parcel \<Rightarrow> bytes \<Rightarrow> 'c double_ratchet \<Rightarrow> bool" for P B R C s where
  ios_batch: "length rnd = 12 \<Longrightarrow> fills fill \<Longrightarrow> ios_batch_fits packets \<Longrightarrow>
     ios_encrypt_data_batch P B s rnd fill packets buf = (Ok w, s') \<Longrightarrow>
     client_sends P B R C s (PAYLOAD_DATA, map (new_data 1) packets) w s'"
| ios_ping: "length rnd = 12 \<Longrightarrow> fills fill \<Longrightarrow> new_control C (Ping now) = Ok f \<Longrightarrow>
     build_keepalive_to P B C s rnd fill now buf = (Ok w, s') \<Longrightarrow>
     client_sends P B R C s (PAYLOAD_DATA, [f]) w s'"
| android_batch: "length rnd = 12 \<Longrightarrow> fills fill \<Longrightarrow>
     android_encrypt_data_batch P B R s rnd fill packets = (Ok w, s') \<Longrightarrow>
     client_sends P B R C s (PAYLOAD_DATA, map (new_data 1) packets) w s'"
| android_ping: "length rnd = 12 \<Longrightarrow> fills fill \<Longrightarrow> new_control C (Ping now) = Ok f \<Longrightarrow>
     build_keepalive_packet P B R C s rnd fill now = (Ok w, s') \<Longrightarrow>
     client_sends P B R C s (PAYLOAD_DATA, [f]) w s'"

inductive server_sends :: "crypto_crates \<Rightarrow> bincode_crate \<Rightarrow> bytes_crate \<Rightarrow> control_crate \<Rightarrow> 'c double_ratchet
    \<Rightarrow> parcel \<Rightarrow> bytes \<Rightarrow> 'c double_ratchet \<Rightarrow> bool" for P B R C s where
  tun_batch: "length rnd = 12 \<Longrightarrow> fills fill \<Longrightarrow> packets \<noteq> [] \<Longrightarrow>
     server_encrypt_data_batch P B s rnd fill (foldl append_tun_frame [] packets) = (Ok w, s') \<Longrightarrow>
     server_sends P B R C s (PAYLOAD_DATA, map (new_data 1) packets) w s'"
| mux_data: "length rnd = 12 \<Longrightarrow> fills fill \<Longrightarrow>
     ws_sender_encrypt P B R C s rnd fill (MuxData fid data) = (Ok w, s') \<Longrightarrow>
     server_sends P B R C s (PAYLOAD_DATA, [new_data fid data]) w s'"
| mux_control: "length rnd = 12 \<Longrightarrow> fills fill \<Longrightarrow> new_control C control = Ok f \<Longrightarrow>
     ws_sender_encrypt P B R C s rnd fill (MuxControl control) = (Ok w, s') \<Longrightarrow>
     server_sends P B R C s (PAYLOAD_ADMIN, [f]) w s'"

lemma android_plaintext_Ok:
  assumes "bytes_ok R" "android_plaintext R ps buf = Ok d"
  shows "d = buf @ wires (map (new_data 1) ps)"
  using assms(2)
proof (induction ps arbitrary: buf)
  case (Cons p ps)
  then show ?case
    using Cons.IH [of "buf @ wire (new_data 1 p)"] by (simp add: frame_encode_to_wire [OF assms(1)] split: if_splits)
qed simp

lemma wires_single: "to_be_bytes 4 (flow_id f) @ to_be_bytes 2 (of_nat (length (payload f)) :: u16) @ payload f = wires [f]"
  by (simp add: wire_def)

lemma ios_batch_sealable:
  assumes "ios_batch_fits packets" "packets \<noteq> []" "fills fill" "length rnd = 12"
  shows "sealable rnd PAYLOAD_DATA (ios_pad fill (ios_plaintext packets)) (map (new_data 1) packets)"
  using ios_pad_unpads [OF assms(3), of "ios_plaintext packets"] assms
  by (auto simp: sealable_def carries_def ios_batch_fits_def TAG_SIZE_def list_all_iff new_data_def ios_plaintext_wires)

lemma client_sends_sealed:
  assumes "client_sends P B R C s (t, fs) w s'" "aead_ok (chacha P)" "bytes_ok R"
  obtains rnd p where "sealable rnd t p fs" "seal P B s rnd t p = (Ok w, s')"
  using assms(1)
proof cases
  case (ios_batch rnd fill packets buf)
  have ne: "packets \<noteq> []" using ios_batch(6) by (auto simp: ios_encrypt_data_batch_def)
  have "sealable rnd t (ios_pad fill (ios_plaintext packets)) fs"
    using ios_batch_sealable [OF ios_batch(5) ne ios_batch(4,3)] ios_batch(1,2) by simp
  moreover have "seal P B s rnd t (ios_pad fill (ios_plaintext packets)) = (Ok w, s')"
    using ios_batch(1,6) ne by (simp add: ios_encrypt_data_batch_def seal_to_eq [OF assms(2)])
  ultimately show thesis by (rule that)
next
  case (ios_ping rnd fill now f buf)
  then obtain p where p: "pad_packet fill (wires [f]) = Ok p" "seal P B s rnd t p = (Ok w, s')"
    by (auto simp: build_keepalive_to_def st_then_Ok_iff wires_single seal_to_eq [OF assms(2)])
  show thesis using p ios_ping by (intro that [OF pad_sealable]) simp_all
next
  case (android_batch rnd fill packets)
  then obtain d p where p: "android_plaintext R packets [] = Ok d" "packets \<noteq> []"
    "pad_packet fill d = Ok p" "seal P B s rnd t p = (Ok w, s')"
    by (auto simp: android_encrypt_data_batch_def st_then_Ok_iff split: if_splits)
  have "d = wires fs" using android_plaintext_Ok [OF assms(3) p(1)] android_batch(2) by simp
  with p android_batch show thesis
    by (intro that [OF pad_sealable]) simp_all
next
  case (android_ping rnd fill now f)
  then obtain p where p: "pad_packet fill (wires [f]) = Ok p" "seal P B s rnd t p = (Ok w, s')"
    by (auto simp: build_keepalive_packet_def st_then_Ok_iff frame_encode_wire [OF assms(3)] split: if_splits)
  with android_ping show thesis by (intro that [OF pad_sealable]) simp_all
qed

lemma server_sends_sealed:
  assumes "server_sends P B R C s (t, fs) w s'" "bytes_ok R"
  obtains rnd p where "sealable rnd t p fs" "seal P B s rnd t p = (Ok w, s')"
  using assms(1)
proof cases
  case (tun_batch rnd fill packets)
  then obtain p where p: "pad_packet fill (wires fs) = Ok p" "seal P B s rnd t p = (Ok w, s')"
    by (auto simp: server_encrypt_data_batch_def st_then_Ok_iff tun_frames_wires)
  with tun_batch show thesis by (intro that [OF pad_sealable]) simp_all
next
  case (mux_data rnd fill fid data)
  then obtain p where p: "pad_packet fill (wires fs) = Ok p" "seal P B s rnd t p = (Ok w, s')"
    by (auto simp: ws_sender_encrypt_def ws_sender_plaintext_def st_then_Ok_iff wire_def new_data_def)
  with mux_data show thesis by (intro that [OF pad_sealable]) simp_all
next
  case (mux_control rnd fill control f)
  then obtain p where p: "pad_packet fill (wires fs) = Ok p" "seal P B s rnd t p = (Ok w, s')"
    by (auto simp: ws_sender_encrypt_def ws_sender_plaintext_def st_then_Ok_iff frame_encode_wire [OF assms(2)] split: if_splits)
  with mux_control show thesis by (intro that [OF pad_sealable]) simp_all
qed

section \<open>The receivers find the frames\<close>

lemma from_bytes_layout:
  assumes "bincode_ok B" "wf_ratchet_message m" "length (ciphertext m) < 2 ^ 63"
  shows "ratchet_message_from_bytes B (bincode_layout m) = Ok m"
  using assms bincode_ok_def [of B] by (auto simp: ratchet_message_from_bytes_def dest!: spec [of _ m] spec [of _ "[]"])

lemma decrypt_and_parse_flow:
  assumes "bincode_ok B" "bytes_ok R" "tunnel_flow P L a ((w, t, fs) # q) b"
  shows "decrypt_and_parse_frame P L B R b fresh w = (Ok (map (\<lambda>f. (flow_id f, payload f, t)) fs), opened P L b fresh w)"
proof -
  obtain m p where m: "w = bincode_layout m" "wf_ratchet_message m" "length (ciphertext m) < 2 ^ 63"
    "payload_type (header m) = t" "known_payload_type t" "carries p fs"
    "dr_decrypt P L b fresh m = (Ok p, opened P L b fresh w)"
    by (rule open_flow [OF assms(3)])
  have c: "unpad_packet p = Ok (wires fs)" "sendable fs" using m(6) by (simp_all add: carries_def)
  then show ?thesis
    using wires_not_Nil [of fs] m(4,5)
    by (simp add: decrypt_and_parse_frame_def m(7) from_bytes_layout [OF assms(1) m(2,3), folded m(1)] Let_def
        parse_wires [OF assms(2)] del: concat_eq_Nil_conv)
qed

text \<open>What a client hands to the operating system for a list of frames.\<close>

definition rewritten :: "bytes \<Rightarrow> ipv4_addr \<Rightarrow> bytes" where
  "rewritten p ip = (case rewrite_dst_ip p ip :: (unit, _) outcome of Ok (_, q) \<Rightarrow> q | _ \<Rightarrow> p)"

definition visible :: "bool \<Rightarrow> ipv4_addr option \<Rightarrow> frame list \<Rightarrow> bytes list" where
  "visible is_default primary fs =
     (let ps = map payload (filter (\<lambda>f. flow_id f \<noteq> 0) fs)
      in if is_default then ps else case primary of None \<Rightarrow> [] | Some ip \<Rightarrow> map (\<lambda>p. rewritten p ip) ps)"

definition le_batch :: "bytes list \<Rightarrow> bytes" where
  "le_batch ps = concat (map (\<lambda>p. to_le_bytes 2 (of_nat (length p) :: u16) @ p) ps)"

lemma rewrite_then [simp]: "and_then (rewrite_dst_ip p ip) (\<lambda>(ok, q). g q) = g (rewritten p ip)"
  by (simp add: rewrite_dst_ip_def rewrite_addr_eq rewritten_def)

lemma length_rewritten [simp]: "length (rewritten p ip) = length p"
proof (cases "usable_ipv4 p")
  case True
  then have l: "20 \<le> length p" "20 \<le> ihl_of p" by (auto simp: usable_ipv4_def)
  let ?q = "with_header p (slot_offset Destination) (addr_at p Destination) ip"
  have q: "length ?q = length p" "ihl_of ?q = ihl_of p"
    using with_header_frame(1) [OF l(1) refl, where slot = Destination]
      with_header_frame(2) [OF l(1) refl, of 0, where slot = Destination] by (simp_all add: ihl_of_def)
  show ?thesis
    using with_transport_frame(1) [OF _ _ refl, of ?q] l q
    by (simp add: rewritten_def rewrite_dst_ip_def rewrite_addr_eq True)
qed (simp add: rewritten_def rewrite_dst_ip_def rewrite_addr_eq)

lemma rx_append_eq:
  "rx_append d primary p buf h = (Ok (buf @ le_batch (visible d primary [\<lparr>flow_id = 1, payload = p\<rparr>]),
     h \<or> visible d primary [\<lparr>flow_id = 1, payload = p\<rparr>] \<noteq> []) :: ('e, _) outcome)"
  by (cases primary) (simp_all add: rx_append_def visible_def le_batch_def Let_def)

lemma android_packets_eq: "android_packets d primary fs = Ok (visible d primary fs)"
  by (induction fs) (auto simp: visible_def Let_def split: option.splits)

lemma visible_Nil [simp]: "visible d primary [] = []"
  by (simp add: visible_def split: option.split)

lemma visible_Cons: "visible d primary (f # fs) =
    (if flow_id f = 0 then [] else visible d primary [\<lparr>flow_id = 1, payload = payload f\<rparr>]) @ visible d primary fs"
  by (simp add: visible_def Let_def split: option.split)

lemma le_batch_append [simp]: "le_batch (ps @ qs) = le_batch ps @ le_batch qs" "le_batch [] = []"
  by (simp_all add: le_batch_def)

lemma rx_frames_stop:
  assumes "first_frame (drop pos data) = None" "pos \<le> length data"
  shows "rx_frames R d primary data pos buf h = (Ok (buf, h) :: ('e, _) outcome)"
proof (cases "pos + 6 \<le> length data")
  case True
  define n where "n = unat (from_be_bytes (take 2 (drop (pos + 4) data)) :: u16)"
  have "unat (from_be_bytes (take 2 (drop 4 (drop pos data))) :: u16) = n"
    by (simp only: n_def drop_drop add.commute [of 4 pos])
  then have "length data < pos + 6 + n"
    using assms True by (simp add: first_frame_def Let_def split: if_splits)
  then show ?thesis
    using True by (subst rx_frames.simps) (simp add: Let_def n_def)
next
  case False
  then show ?thesis by (subst rx_frames.simps) simp
qed

lemma rx_frames_next:
  assumes "bytes_ok R" "drop pos data = wire f @ r" "length (payload f) \<le> 65535" "pos \<le> length data"
  shows "rx_frames R d primary data pos buf h = (rx_frames R d primary data (pos + frame_size f)
      (buf @ le_batch (visible d primary [f])) (h \<or> visible d primary [f] \<noteq> []) :: ('e, _) outcome)"
proof -
  have l: "length data = pos + frame_size f + length r"
    using arg_cong [OF assms(2), of length] assms(4) by simp
  have "take 4 (drop pos data) = to_be_bytes 4 (flow_id f)"
    by (simp add: assms(2) wire_def)
  moreover have "take 2 (drop (pos + 4) data) = to_be_bytes 2 (of_nat (length (payload f)) :: u16)"
    by (simp add: assms(2) wire_def add.commute [of pos] flip: drop_drop)
  moreover have "take (length (payload f)) (drop (pos + 6) data) = payload f"
    by (simp add: assms(2) wire_def add.commute [of pos] flip: drop_drop)
  moreover have "frame_decode R (drop pos data) = Ok f"
    using first_frame_wire [OF assms(3), of r] by (simp add: frame_decode_first [OF assms(1)] assms(2))
  ultimately show ?thesis
    using l assms(3)
    by (subst rx_frames.simps) (simp add: Let_def frame_size_def rx_append_eq visible_Cons [of d primary f "[]"])
qed

lemma rx_frames_drains:
  assumes "bytes_ok R" "drains first_frame b fs r" "b = drop pos data" "pos \<le> length data"
  shows "rx_frames R d primary data pos buf h =
    (Ok (buf @ le_batch (visible d primary fs), h \<or> visible d primary fs \<noteq> []) :: ('e, _) outcome)"
  using assms(2-4)
proof (induction arbitrary: pos buf h rule: drains.induct)
  case (stop b)
  then show ?case by (simp add: rx_frames_stop)
next
  case (more b f r fs r')
  then have w: "drop pos data = wire f @ r" "length (payload f) \<le> 65535" by (simp_all add: first_frame_Some_iff)
  have l: "pos + frame_size f \<le> length data"
    using arg_cong [OF w(1), of length] more.prems(2) by simp
  have "r = drop (frame_size f) (drop pos data)" by (simp add: w(1))
  then have "r = drop (pos + frame_size f) data" by (simp add: add.commute)
  from more.IH [OF this l] show ?case
    using rx_frames_next [OF assms(1) w more.prems(2), of d primary buf h, where 'e = 'e]
    by (auto simp: visible_Cons [of d primary f fs] visible_Cons [of d primary f "[]"])
qed

lemma ios_receive_flow:
  assumes "bytes_ok R" "tunnel_flow P L a ((w, t, fs) # q) b"
  shows "ios_receive P L R d primary b fresh w buf =
    (Ok (if visible d primary fs = [] then None else Some (le_batch (visible d primary fs))), opened P L b fresh w)"
proof -
  obtain m p where m: "w = bincode_layout m" "wf_ratchet_message m" "length (ciphertext m) < 2 ^ 63"
    "carries p fs" "dr_decrypt P L b fresh m = (Ok p, opened P L b fresh w)"
    by (rule open_flow [OF assms(2)])
  have "aead_ok (chacha P)" "lru_ok L"
    using assms(2) by (auto simp: tunnel_flow_def dr_flow_def crypto_ok_aead)
  from dr_decrypt_to_ref_agrees [OF this, of b fresh m buf]
  have o: "dr_decrypt_to_ref P L b fresh m buf = (Ok (length p), opened P L b fresh w, p)" by (simp add: m(5))
  have c: "unpad_packet_slice p = Ok (wires fs)" "drains first_frame (wires fs) fs []"
    using m(4) drains_wires by (simp_all add: carries_def unpad_packet_slice_def unpad_packet_def)
  show ?thesis
    using ref_from_bytes_layout [OF m(2,3), of "[]"]
      rx_frames_drains [OF assms(1) c(2), of 0 "wires fs" d primary "[]" False, where 'e = tunnel_error]
    by (simp add: ios_receive_def m(1) [symmetric] o c(1))
qed

lemma android_receive_flow:
  assumes "bincode_ok B" "bytes_ok R" "tunnel_flow P L a ((w, t, fs) # q) b"
  shows "android_receive P L B R d primary b fresh w = (Ok (visible d primary fs), opened P L b fresh w)"
proof -
  obtain m p where m: "w = bincode_layout m" "wf_ratchet_message m" "length (ciphertext m) < 2 ^ 63"
    "carries p fs" "dr_decrypt P L b fresh m = (Ok p, opened P L b fresh w)"
    by (rule open_flow [OF assms(3)])
  show ?thesis
    using m(4)
    by (simp add: android_receive_def m(5) from_bytes_layout [OF assms(1) m(2,3), folded m(1)] carries_def
        parse_wires [OF assms(2)] android_packets_eq)
qed

section \<open>A tunnel session\<close>

text \<open>
  The two ends of a session and the WebSocket between them, one stream per direction. Client and server
  send whenever they want, and each takes the next message of its stream whenever it wants. \<open>sent_up\<close>
  and \<open>sent_down\<close> log what was sent, \<open>got_up\<close> what the server parsed, \<open>got_down\<close> what the client handed to the operating
  system. A client is an iOS or an Android client for the whole session, and knows the address of the
  primary session or not.
\<close>

datatype platform = Ios | Android

datatype delivery = IosBatch "bytes option" | AndroidPackets "bytes list"

record 'c tunnel =
  client :: "'c double_ratchet"
  server :: "'c double_ratchet"
  uplink :: "bytes list"
  downlink :: "bytes list"
  sent_up :: "parcel list"
  sent_down :: "parcel list"
  got_up :: "(tunnel_error, (u32 \<times> bytes \<times> u8) list) outcome list"
  got_down :: "(tunnel_error, delivery) outcome list"

record client_role =
  platform :: platform
  is_default :: bool
  primary_ip :: "ipv4_addr option"

definition client_receive :: "crypto_crates \<Rightarrow> 'c lru_crate \<Rightarrow> bincode_crate \<Rightarrow> bytes_crate \<Rightarrow> client_role
    \<Rightarrow> 'c double_ratchet \<Rightarrow> bytes \<Rightarrow> bytes \<Rightarrow> bytes \<Rightarrow> (tunnel_error, delivery) outcome \<times> 'c double_ratchet" where
  "client_receive P L B R role s fresh data buf =
     (case platform role of
        Ios \<Rightarrow> st_then (ios_receive P L R (is_default role) (primary_ip role) s fresh data buf) (\<lambda>b s. (Ok (IosBatch b), s))
      | Android \<Rightarrow> st_then (android_receive P L B R (is_default role) (primary_ip role) s fresh data) (\<lambda>ps s. (Ok (AndroidPackets ps), s)))"

definition tunnel_start :: "'c double_ratchet \<Rightarrow> 'c double_ratchet \<Rightarrow> 'c tunnel" where
  "tunnel_start a b = \<lparr>client = a, server = b, uplink = [], downlink = [], sent_up = [], sent_down = [],
     got_up = [], got_down = []\<rparr>"

inductive tunnel_step :: "crypto_crates \<Rightarrow> 'c lru_crate \<Rightarrow> bincode_crate \<Rightarrow> bytes_crate \<Rightarrow> control_crate \<Rightarrow> client_role
    \<Rightarrow> 'c tunnel \<Rightarrow> 'c tunnel \<Rightarrow> bool" for P L B R C role where
  client_send: "client_sends P B R C (client s) x w a \<Longrightarrow>
     tunnel_step P L B R C role s (s\<lparr>client := a, uplink := uplink s @ [w], sent_up := sent_up s @ [x]\<rparr>)"
| server_send: "server_sends P B R C (server s) x w b \<Longrightarrow>
     tunnel_step P L B R C role s (s\<lparr>server := b, downlink := downlink s @ [w], sent_down := sent_down s @ [x]\<rparr>)"
| server_recv: "uplink s = w # q \<Longrightarrow> decrypt_and_parse_frame P L B R (server s) fresh w = (r, b) \<Longrightarrow>
     tunnel_step P L B R C role s (s\<lparr>server := b, uplink := q, got_up := got_up s @ [r]\<rparr>)"
| client_recv: "downlink s = w # q \<Longrightarrow> client_receive P L B R role (client s) fresh w buf = (r', a) \<Longrightarrow>
     tunnel_step P L B R C role s (s\<lparr>client := a, downlink := q, got_down := got_down s @ [r']\<rparr>)"

text \<open>What has to arrive for a parcel.\<close>

definition server_view :: "parcel \<Rightarrow> (u32 \<times> bytes \<times> u8) list" where
  "server_view x = map (\<lambda>f. (flow_id f, payload f, fst x)) (snd x)"

definition client_view :: "client_role \<Rightarrow> parcel \<Rightarrow> delivery" where
  "client_view role x =
     (let ps = visible (is_default role) (primary_ip role) (snd x)
      in case platform role of
           Ios \<Rightarrow> IosBatch (if ps = [] then None else Some (le_batch ps))
         | Android \<Rightarrow> AndroidPackets ps)"

text \<open>A stream of the session: what was sent is what was received followed by what is under way.\<close>

definition link_ok :: "crypto_crates \<Rightarrow> 'c lru_crate \<Rightarrow> (parcel \<Rightarrow> 'v) \<Rightarrow> 'c double_ratchet \<Rightarrow> bytes list \<Rightarrow> 'c double_ratchet
    \<Rightarrow> parcel list \<Rightarrow> (tunnel_error, 'v) outcome list \<Rightarrow> bool" where
  "link_ok P L view a ws b sent got \<longleftrightarrow>
     (\<exists>xs. length xs = length ws \<and> tunnel_flow P L a (zip ws xs) b
        \<and> map (\<lambda>x. Ok (view x)) sent = got @ map (\<lambda>x. Ok (view x)) xs)"

lemma client_receive_flow:
  assumes "bincode_ok B" "bytes_ok R" "tunnel_flow P L a ((w, x) # q) b"
  shows "client_receive P L B R role b fresh w buf = (Ok (client_view role x), opened P L b fresh w)"
proof -
  obtain t fs where x: "x = (t, fs)" by fastforce
  show ?thesis
    using ios_receive_flow [OF assms(2) assms(3) [unfolded x]] android_receive_flow [OF assms(1,2) assms(3) [unfolded x]]
    by (simp add: client_receive_def client_view_def x Let_def split: platform.split)
qed

lemma link_send:
  assumes "bincode_ok B" "link_ok P L view a ws b sent got" "sealable rnd (fst x) p (snd x)" "seal P B a rnd (fst x) p = (Ok w, a')"
  shows "link_ok P L view a' (ws @ [w]) b (sent @ [x]) got"
    and "link_ok P L view' b ws' a sent' got' \<Longrightarrow> link_ok P L view' b ws' a' sent' got'"
proof -
  obtain xs where xs: "length xs = length ws" "tunnel_flow P L a (zip ws xs) b"
    "map (\<lambda>x. Ok (view x)) sent = got @ map (\<lambda>x. Ok (view x)) xs"
    using assms(2) unfolding link_ok_def by blast
  have f: "tunnel_flow P L a' (zip ws xs @ [(w, fst x, snd x)]) b" "\<And>q'. tunnel_flow P L b q' a \<Longrightarrow> tunnel_flow P L b q' a'"
    by (rule seal_flow [OF assms(1) xs(2) assms(3)]; use assms(4) in simp)+
  show "link_ok P L view a' (ws @ [w]) b (sent @ [x]) got"
    unfolding link_ok_def using xs f(1) by (intro exI [of _ "xs @ [x]"]) simp
  show "link_ok P L view' b ws' a' sent' got'" if "link_ok P L view' b ws' a sent' got'"
    using that f(2) unfolding link_ok_def by blast
qed

lemma link_recv:
  assumes "link_ok P L view a (w # ws) b sent got"
    and "\<And>x q. tunnel_flow P L a ((w, x) # q) b \<Longrightarrow> r = Ok (view x) \<and> b' = opened P L b fresh w"
  shows "link_ok P L view a ws b' sent (got @ [r])"
    and "link_ok P L view' b ws' a sent' got' \<Longrightarrow> link_ok P L view' b' ws' a sent' got'"
proof -
  obtain x xs where xs: "length xs = length ws" "tunnel_flow P L a ((w, x) # zip ws xs) b"
    "map (\<lambda>x. Ok (view x)) sent = got @ map (\<lambda>x. Ok (view x)) (x # xs)"
    using assms(1) unfolding link_ok_def by (auto simp: length_Suc_conv)
  have r: "r = Ok (view x)" "tunnel_flow P L a (zip ws xs) b'" "\<And>q'. tunnel_flow P L b q' a \<Longrightarrow> tunnel_flow P L b' q' a"
    using assms(2) [OF xs(2)] opened_flow [OF xs(2)] by simp_all
  show "link_ok P L view a ws b' sent (got @ [r])"
    unfolding link_ok_def using xs r by (intro exI [of _ xs]) simp
  show "link_ok P L view' b' ws' a sent' got'" if "link_ok P L view' b ws' a sent' got'"
    using that r unfolding link_ok_def by blast
qed

definition tunnel_inv :: "crypto_crates \<Rightarrow> 'c lru_crate \<Rightarrow> client_role \<Rightarrow> 'c tunnel \<Rightarrow> bool" where
  "tunnel_inv P L role s \<longleftrightarrow>
     link_ok P L server_view (client s) (uplink s) (server s) (sent_up s) (got_up s)
     \<and> link_ok P L (client_view role) (server s) (downlink s) (client s) (sent_down s) (got_down s)"

lemma tunnel_step_inv:
  assumes "bincode_ok B" "bytes_ok R" "aead_ok (chacha P)" "tunnel_step P L B R C role s s'" "tunnel_inv P L role s"
  shows "tunnel_inv P L role s'"
proof -
  have up: "link_ok P L server_view (client s) (uplink s) (server s) (sent_up s) (got_up s)"
    and down: "link_ok P L (client_view role) (server s) (downlink s) (client s) (sent_down s) (got_down s)"
    using assms(5) by (simp_all add: tunnel_inv_def)
  from assms(4) show ?thesis
  proof cases
    case (client_send x w a)
    then obtain rnd p where "sealable rnd (fst x) p (snd x)" "seal P B (client s) rnd (fst x) p = (Ok w, a)"
      using client_sends_sealed [of P B R C "client s" "fst x" "snd x" w a] assms(2,3) by auto
    with link_send [OF assms(1) up this] down client_send show ?thesis by (simp add: tunnel_inv_def)
  next
    case (server_send x w b)
    then obtain rnd p where "sealable rnd (fst x) p (snd x)" "seal P B (server s) rnd (fst x) p = (Ok w, b)"
      using server_sends_sealed [of P B R C "server s" "fst x" "snd x" w b] assms(2) by auto
    with link_send [OF assms(1) down this] up server_send show ?thesis by (simp add: tunnel_inv_def)
  next
    case (server_recv w q fresh r b)
    have "r = Ok (server_view x) \<and> b = opened P L (server s) fresh w"
      if "tunnel_flow P L (client s) ((w, x) # q') (server s)" for x q'
      using decrypt_and_parse_flow [OF assms(1,2), of P L "client s" w "fst x" "snd x" q' "server s" fresh] that server_recv(3)
      by (simp add: server_view_def)
    from link_recv [OF up [unfolded server_recv(2)] this] down server_recv show ?thesis by (simp add: tunnel_inv_def)
  next
    case (client_recv w q fresh buf r a)
    have "r = Ok (client_view role x) \<and> a = opened P L (client s) fresh w"
      if "tunnel_flow P L (server s) ((w, x) # q') (client s)" for x q'
      using client_receive_flow [OF assms(1,2) that, of role fresh buf] client_recv(3) by simp
    from link_recv [OF down [unfolded client_recv(2)] this] up client_recv show ?thesis by (simp add: tunnel_inv_def)
  qed
qed

lemma tunnel_run_inv:
  assumes "bincode_ok B" "bytes_ok R" "dr_flow P L a [] b" "dr_flow P L b [] a"
    and "(tunnel_step P L B R C role)\<^sup>*\<^sup>* (tunnel_start a b) s"
  shows "tunnel_inv P L role s"
  using assms(5)
proof (induction rule: rtranclp_induct)
  case base
  show ?case
    using assms(3,4) by (simp add: tunnel_inv_def tunnel_start_def link_ok_def tunnel_flow_start)
next
  case (step s s')
  have "aead_ok (chacha P)" using assms(3) by (auto simp: dr_flow_def crypto_ok_aead)
  from tunnel_step_inv [OF assms(1,2) this step.hyps(2) step.IH] show ?case .
qed

lemma link_delivered:
  assumes "link_ok P L view a ws b sent got"
  shows "got = map (\<lambda>x. Ok (view x)) (take (length got) sent)" "length sent = length got + length ws"
proof -
  obtain xs where xs: "length xs = length ws" "map (\<lambda>x. Ok (view x)) sent = got @ map (\<lambda>x. Ok (view x)) xs"
    using assms unfolding link_ok_def by blast
  then show "length sent = length got + length ws" by (metis length_append length_map)
  from xs show "got = map (\<lambda>x. Ok (view x)) (take (length got) sent)" by (metis append_eq_conv_conj take_map)
qed

text \<open>A batch that fits is always sent, and the two clients put the same bytes on the wire.\<close>

lemma link_seals:
  assumes "bincode_ok B" "link_ok P L view a ws b sent got" "sealable rnd t p fs"
  shows "\<exists>w a'. seal P B a rnd t p = (Ok w, a')"
proof -
  obtain q where "tunnel_flow P L a q b" using assms(2) unfolding link_ok_def by blast
  from seal_flow [OF assms(1) this assms(3)] show ?thesis by metis
qed

lemma length_ios_plaintext: "length (ios_plaintext ps) = 6 * length ps + sum_list (map length ps)"
  by (induction ps) (simp_all add: ios_plaintext_def)

lemma clients_agree:
  assumes "crypto_ok P" "bytes_ok R" "length (ios_plaintext packets) \<le> 16382"
  shows "android_encrypt_data_batch P B R s rnd fill packets = ios_encrypt_data_batch P B s rnd fill packets buf"
proof (cases "packets = []")
  case False
  have "length p \<le> length (ios_plaintext packets)" if "p \<in> set packets" for p
    using member_le_sum_list [of "length p" "map length packets"] that by (simp add: length_ios_plaintext)
  then have "list_all (\<lambda>p. length p \<le> 65535) packets" using assms(3) by (fastforce simp: list_all_iff)
  then have "android_plaintext R packets [] = Ok (ios_plaintext packets)"
    by (simp add: android_plaintext_wires [OF assms(2)] ios_plaintext_wires)
  moreover have "ios_plaintext packets \<noteq> []" using False length_ios_plaintext [of packets] by auto
  ultimately show ?thesis
    using False ios_pad_small [OF _ assms(3), of fill]
    by (simp add: android_encrypt_data_batch_def ios_encrypt_data_batch_def seal_to_eq crypto_ok_aead [OF assms(1)])
qed (simp add: android_encrypt_data_batch_def ios_encrypt_data_batch_def)

lemma ios_batch_sent:
  assumes "bincode_ok B" "crypto_ok P" "link_ok P L view a ws b sent got"
    and "ios_batch_fits packets" "packets \<noteq> []" "fills fill" "length rnd = 12"
  shows "\<exists>w a'. ios_encrypt_data_batch P B a rnd fill packets buf = (Ok w, a')"
  using link_seals [OF assms(1,3) ios_batch_sealable [OF assms(4-7)]] assms(5)
  by (simp add: ios_encrypt_data_batch_def seal_to_eq crypto_ok_aead [OF assms(2)])

lemma tunnel_inv_delivers:
  assumes "tunnel_inv P L role s"
  shows "got_up s = map (\<lambda>x. Ok (server_view x)) (take (length (got_up s)) (sent_up s))"
    "got_down s = map (\<lambda>x. Ok (client_view role x)) (take (length (got_down s)) (sent_down s))"
    "length (sent_up s) = length (got_up s) + length (uplink s)"
    "length (sent_down s) = length (got_down s) + length (downlink s)"
  using link_delivered assms unfolding tunnel_inv_def by blast+

lemma tunnel_inv_sends:
  assumes "tunnel_inv P L role s" "bincode_ok B" "crypto_ok P"
    and "ios_batch_fits packets" "packets \<noteq> []" "fills fill" "length rnd = 12"
  shows "\<exists>w a'. ios_encrypt_data_batch P B (client s) rnd fill packets buf = (Ok w, a')"
  using ios_batch_sent [OF assms(2,3) _ assms(4-7)] assms(1) unfolding tunnel_inv_def by blast

text \<open>A run of one batch, from any two ends in step.\<close>

lemma one_batch_run:
  assumes "bincode_ok B" "bytes_ok R" "dr_flow P L a [] b" "dr_flow P L b [] a" "ios_batch_fits packets" "packets \<noteq> []"
  obtains s where "(tunnel_step P L B R C role)\<^sup>*\<^sup>* (tunnel_start a b) s"
    "sent_up s = [(PAYLOAD_DATA, map (new_data 1) packets)]" "length (got_up s) = 1"
    "tunnel_flow P L (client s) [] (server s)"
proof -
  let ?rnd = "replicate 12 (0 :: u8)" and ?fill = "\<lambda>n. replicate n (0 :: u8)"
  let ?x = "(PAYLOAD_DATA, map (new_data 1) packets) :: parcel"
  have c: "crypto_ok P" using assms(3) by (simp add: dr_flow_def)
  have "sealable ?rnd (fst ?x) (ios_pad ?fill (ios_plaintext packets)) (snd ?x)"
    using ios_batch_sealable [OF assms(5,6), of ?fill ?rnd] by (simp add: fills_def)
  then obtain w a' where w: "seal P B a ?rnd PAYLOAD_DATA (ios_pad ?fill (ios_plaintext packets)) = (Ok w, a')"
    "tunnel_flow P L a' [(w, ?x)] b"
    by (rule seal_flow [OF assms(1) tunnel_flow_start [OF assms(3)]]) simp
  have "client_sends P B R C a ?x w a'"
    by (rule client_sends.ios_batch [of ?rnd ?fill packets P B a "[]"])
       (use w(1) assms(5,6) in \<open>simp_all add: fills_def ios_encrypt_data_batch_def seal_to_eq crypto_ok_aead [OF c]\<close>)
  then have "tunnel_step P L B R C role (tunnel_start a b)
      ((tunnel_start a b)\<lparr>client := a', uplink := [w], sent_up := [?x]\<rparr>)" (is "tunnel_step _ _ _ _ _ _ ?s0 ?s1")
    using tunnel_step.client_send [of P B R C "tunnel_start a b" ?x w a' L role] by (simp add: tunnel_start_def)
  moreover have "tunnel_step P L B R C role ?s1
      (?s1\<lparr>server := opened P L b [] w, uplink := [], got_up := [Ok (server_view ?x)]\<rparr>)" (is "tunnel_step _ _ _ _ _ _ _ ?s2")
    using tunnel_step.server_recv [of ?s1 w "[]" P L B R "[]" "Ok (server_view ?x)" "opened P L b [] w" C role]
      decrypt_and_parse_flow [OF assms(1,2) w(2), of "[]"]
    by (simp add: tunnel_start_def server_view_def)
  ultimately have "(tunnel_step P L B R C role)\<^sup>*\<^sup>* ?s0 ?s2" by (meson rtranclp.rtrancl_refl rtranclp.rtrancl_into_rtrancl)
  then show thesis
    by (rule that) (use opened_flow(1) [OF w(2)] in \<open>simp_all add: tunnel_start_def\<close>)
qed

lemma demo_packets: "ios_batch_fits [[0x45, 7]]"
  by (simp add: ios_batch_fits_def ios_plaintext_def MAX_MESSAGE_SIZE_def)

section \<open>Properties\<close>

text \<open>C29: the two mobile clients are interchangeable. For packets that fill at most 16382 bytes of plaintext, which
  the batch limits guarantee, they put the same bytes on the wire from the same ratchet state, although one encodes
  into reused buffers with hand-written framing and padding and the other goes through the frame type and
  \<open>pad_packet\<close>. From a message under way, both take the same packets: the batch of the iOS client is
  that of the packets the Android client hands over, and both leave the same ratchet state.\<close>

theorem mobile_clients_agree:
  assumes "bincode_ok B" "bytes_ok R" "tunnel_flow P L a ((w, x) # q) b" "length (ios_plaintext packets) \<le> 16382"
  shows "android_encrypt_data_batch P B R s rnd fill packets = ios_encrypt_data_batch P B s rnd fill packets buf
    \<and> (\<exists>ps b'. android_receive P L B R d primary b fresh w = (Ok ps, b')
        \<and> ios_receive P L R d primary b fresh w buf = (Ok (if ps = [] then None else Some (le_batch ps)), b'))"
proof
  have c: "crypto_ok P" using assms(3) by (auto simp: tunnel_flow_def dr_flow_def)
  show "android_encrypt_data_batch P B R s rnd fill packets = ios_encrypt_data_batch P B s rnd fill packets buf"
    by (rule clients_agree [OF c assms(2,4)])
  obtain t fs where x: "x = (t, fs)" by fastforce
  show "\<exists>ps b'. android_receive P L B R d primary b fresh w = (Ok ps, b')
        \<and> ios_receive P L R d primary b fresh w buf = (Ok (if ps = [] then None else Some (le_batch ps)), b')"
    using android_receive_flow [OF assms(1,2) assms(3) [unfolded x]] ios_receive_flow [OF assms(2) assms(3) [unfolded x]]
    by simp
qed

theorem mobile_clients_agree_witness:
  "\<exists>b w b'. android_receive demo_crypto demo_lru demo_bincode demo_bytes True None b [] w = (Ok [[0x45, 7]], b')
     \<and> ios_receive demo_crypto demo_lru demo_bytes True None b [] w [] = (Ok (Some (le_batch [[0x45, 7]])), b')"
proof -
  obtain a b where f: "dr_flow demo_crypto demo_lru a [] b"
    by (rule dr_init_flow [OF demo_crypto_ok demo_lru_ok])
  let ?p = "ios_pad (\<lambda>n. replicate n 0) (ios_plaintext [[0x45, 7]])" and ?fs = "map (new_data 1) [[0x45, 7]] :: frame list"
  have "sealable (replicate 12 0) PAYLOAD_DATA ?p ?fs"
    by (rule ios_batch_sealable [OF demo_packets]) (simp_all add: fills_def)
  then obtain w a' where w: "tunnel_flow demo_crypto demo_lru a' [(w, PAYLOAD_DATA, ?fs)] b"
    by (rule seal_flow [OF demo_bincode_ok tunnel_flow_start [OF f]]) simp
  from mobile_clients_agree [OF demo_bincode_ok demo_bytes_ok w, of "[]" b "[]" "\<lambda>n. []" "[]" True None "[]"]
    android_receive_flow [OF demo_bincode_ok demo_bytes_ok w, of True None "[]"]
  show ?thesis
    by - (rule exI [of _ b], rule exI [of _ w], auto simp: visible_def new_data_def ios_plaintext_def)
qed

end
