(* ===== verification/Tun_Batch.thy ===== *)
theory Tun_Batch
  imports Tunnel "HOL-Library.Sublist"
begin

text \<open>
  The loops that collect packets into batches: the transmit tasks of the mobile clients (\<open>server_session.rs\<close>
  and \<open>android_server_session.rs\<close>) and the TUN response loop of the server (\<open>handler.rs\<close>). Each takes one packet,
  adds packets while the limits allow it, and keeps a packet that did not fit for the next batch. What the
  channel and the timer do is the list of events that the loop sees.
\<close>

section \<open>The mobile clients\<close>

text \<open>
  What one wait ends with: a packet, the end of the channel, the deadline of the collecting loop, or the
  shutdown signal. The two clients differ only in how the deadline is chosen.
\<close>

datatype arrival = Arrived bytes | ChannelClosed | TimedOut | Shutdown

definition OUTGOING_BATCH_MAX_FRAMES :: nat where
  "OUTGOING_BATCH_MAX_FRAMES = 16"

definition OUTGOING_BATCH_MAX_BYTES :: nat where
  "OUTGOING_BATCH_MAX_BYTES = 14 * 1024"

datatype collect_end = Full | Carry bytes | ReceiverClosed | DeadlinePassed | ShutDown

text \<open>\<open>collect\<close> returns the batch, how the loop ended and the events that are left. The timer always fires, so an
  exhausted event list is the deadline.\<close>

fun collect :: "bytes list \<Rightarrow> nat \<Rightarrow> arrival list \<Rightarrow> bytes list \<times> collect_end \<times> arrival list" where
  "collect batch batch_bytes [] =
     (batch, if length batch < OUTGOING_BATCH_MAX_FRAMES \<and> batch_bytes < OUTGOING_BATCH_MAX_BYTES
             then DeadlinePassed else Full, [])"
| "collect batch batch_bytes (event # rest) =
     (if length batch < OUTGOING_BATCH_MAX_FRAMES \<and> batch_bytes < OUTGOING_BATCH_MAX_BYTES then
        (case event of
           TimedOut \<Rightarrow> (batch, DeadlinePassed, rest)
         | Shutdown \<Rightarrow> (batch, ShutDown, rest)
         | ChannelClosed \<Rightarrow> (batch, ReceiverClosed, rest)
         | Arrived data \<Rightarrow>
             (if batch_bytes + 6 + length data > OUTGOING_BATCH_MAX_BYTES then (batch, Carry data, rest)
              else collect (batch @ [data]) (batch_bytes + length data) rest))
      else (batch, Full, event # rest))"

text \<open>Waiting for the first packet of a batch; there is no deadline here.\<close>

fun first_packet :: "arrival list \<Rightarrow> (bytes \<times> arrival list) option" where
  "first_packet [] = None"
| "first_packet (Arrived p # rest) = Some (p, rest)"
| "first_packet (TimedOut # rest) = first_packet rest"
| "first_packet (ChannelClosed # rest) = None"
| "first_packet (Shutdown # rest) = None"

definition next_first :: "bytes option \<Rightarrow> arrival list \<Rightarrow> (bytes \<times> arrival list) option" where
  "next_first pending arrivals = (case pending of Some p \<Rightarrow> Some (p, arrivals) | None \<Rightarrow> first_packet arrivals)"

lemma first_packet_rest: "first_packet arrivals = Some (p, rest) \<Longrightarrow> length rest < length arrivals"
  by (induction arrivals rule: first_packet.induct) auto

lemma collect_rest:
  "collect batch n arrivals = (b, e, rest) \<Longrightarrow>
     length rest + (case e of Carry p \<Rightarrow> 1 | _ \<Rightarrow> 0) \<le> length arrivals"
  by (induction batch n arrivals arbitrary: b e rest rule: collect.induct)
     (fastforce split: if_splits arrival.splits)+

text \<open>
  The transmit task. \<open>sends n\<close> tells whether encryption and the WebSocket send of the \<open>n\<close>-th batch succeed; the
  result lists the batches that were sent. A shutdown drops the batch being collected.
\<close>

function tx_loop :: "(nat \<Rightarrow> bool) \<Rightarrow> nat \<Rightarrow> bytes option \<Rightarrow> arrival list \<Rightarrow> bytes list list" where
  "tx_loop sends n pending arrivals =
     (case next_first pending arrivals of
        None \<Rightarrow> []
      | Some (first, rest) \<Rightarrow>
          (case collect [first] (length first) rest of
             (batch, e, rest') \<Rightarrow>
               (if e = ShutDown \<or> \<not> sends n then []
                else batch # (case e of
                    ReceiverClosed \<Rightarrow> []
                  | Carry p \<Rightarrow> tx_loop sends (n + 1) (Some p) rest'
                  | _ \<Rightarrow> tx_loop sends (n + 1) None rest'))))"
  by pat_completeness auto

lemma batch_measure:
  assumes "next_first pending arrivals = Some (first, rest)" "collect [first] k rest = (b, e, rest')"
  shows "2 * length rest' + (case e of Carry p \<Rightarrow> 1 | _ \<Rightarrow> 0) < 2 * length arrivals + (if pending = None then 0 else 1)"
  using assms(1) collect_rest [OF assms(2)] first_packet_rest [of arrivals first rest]
  by (auto simp: next_first_def split: option.splits collect_end.splits)

termination tx_loop
  by (relation "measure (\<lambda>(sends, n, pending, arrivals). 2 * length arrivals + (if pending = None then 0 else 1))")
     (auto dest: batch_measure [OF _ sym])

declare tx_loop.simps [simp del]

section \<open>The server\<close>

text \<open>
  The response loop appends to the plaintext at once. Its events are the results of \<open>try_recv\<close>: \<open>TimedOut\<close> is an
  empty queue and \<open>ChannelClosed\<close> a disconnected one. The loop does not listen to the shutdown signal.
\<close>

definition TUN_BATCH_MAX_FRAMES :: nat where
  "TUN_BATCH_MAX_FRAMES = 16"

definition TUN_BATCH_MAX_BYTES :: nat where
  "TUN_BATCH_MAX_BYTES = 14 * 1024"

fun tun_collect :: "bytes \<Rightarrow> nat \<Rightarrow> nat \<Rightarrow> arrival list \<Rightarrow> bytes \<times> collect_end \<times> arrival list" where
  "tun_collect plaintext frame_count byte_count [] =
     (plaintext, if frame_count < TUN_BATCH_MAX_FRAMES \<and> byte_count < TUN_BATCH_MAX_BYTES
                 then DeadlinePassed else Full, [])"
| "tun_collect plaintext frame_count byte_count (event # rest) =
     (if frame_count < TUN_BATCH_MAX_FRAMES \<and> byte_count < TUN_BATCH_MAX_BYTES then
        (case event of
           TimedOut \<Rightarrow> (plaintext, DeadlinePassed, rest)
         | Shutdown \<Rightarrow> tun_collect plaintext frame_count byte_count rest
         | ChannelClosed \<Rightarrow> (plaintext, ReceiverClosed, rest)
         | Arrived packet \<Rightarrow>
             (if byte_count + 6 + length packet > TUN_BATCH_MAX_BYTES then (plaintext, Carry packet, rest)
              else tun_collect (append_tun_frame plaintext packet) (frame_count + 1) (byte_count + (6 + length packet)) rest))
      else (plaintext, Full, event # rest))"

fun tun_first :: "arrival list \<Rightarrow> (bytes \<times> arrival list) option" where
  "tun_first [] = None"
| "tun_first (Arrived p # rest) = Some (p, rest)"
| "tun_first (TimedOut # rest) = tun_first rest"
| "tun_first (Shutdown # rest) = tun_first rest"
| "tun_first (ChannelClosed # rest) = None"

definition tun_next_first :: "bytes option \<Rightarrow> arrival list \<Rightarrow> (bytes \<times> arrival list) option" where
  "tun_next_first pending arrivals = (case pending of Some p \<Rightarrow> Some (p, arrivals) | None \<Rightarrow> tun_first arrivals)"

lemma tun_first_rest: "tun_first arrivals = Some (p, rest) \<Longrightarrow> length rest < length arrivals"
  by (induction arrivals rule: tun_first.induct) auto

lemma tun_collect_rest:
  "tun_collect pt k n arrivals = (b, e, rest) \<Longrightarrow>
     length rest + (case e of Carry p \<Rightarrow> 1 | _ \<Rightarrow> 0) \<le> length arrivals"
  by (induction pt k n arrivals arbitrary: b e rest rule: tun_collect.induct)
     (fastforce split: if_splits arrival.splits)+

lemma tun_batch_measure:
  assumes "tun_next_first pending arrivals = Some (first, rest)" "tun_collect pt k n rest = (b, e, rest')"
  shows "2 * length rest' + (case e of Carry p \<Rightarrow> 1 | _ \<Rightarrow> 0) < 2 * length arrivals + (if pending = None then 0 else 1)"
  using assms(1) tun_collect_rest [OF assms(2)] tun_first_rest [of arrivals first rest]
  by (auto simp: tun_next_first_def split: option.splits collect_end.splits)

text \<open>The plaintexts that the response loop encrypts and sends, while both succeed.\<close>

function tun_response_loop :: "(nat \<Rightarrow> bool) \<Rightarrow> nat \<Rightarrow> bytes option \<Rightarrow> arrival list \<Rightarrow> bytes list" where
  "tun_response_loop sends n pending arrivals =
     (case tun_next_first pending arrivals of
        None \<Rightarrow> []
      | Some (first, rest) \<Rightarrow>
          (case tun_collect (append_tun_frame [] first) 1 (6 + length first) rest of
             (plaintext, e, rest') \<Rightarrow>
               (if \<not> sends n then []
                else plaintext # (case e of
                    ReceiverClosed \<Rightarrow> []
                  | Carry p \<Rightarrow> tun_response_loop sends (n + 1) (Some p) rest'
                  | _ \<Rightarrow> tun_response_loop sends (n + 1) None rest'))))"
  by pat_completeness auto

termination tun_response_loop
  by (relation "measure (\<lambda>(sends, n, pending, arrivals). 2 * length arrivals + (if pending = None then 0 else 1))")
     (auto dest: tun_batch_measure [OF _ sym])

declare tun_response_loop.simps [simp del]

section \<open>What a batching loop keeps\<close>

text \<open>
  The packets among some events up to the end of the channel, and those that a loop still has to send. The
  contract of the two loops: \<open>fetch\<close> yields the first packet of a batch, \<open>gather\<close> the rest of it, and \<open>holds\<close> relates
  what is sent to the packets it is made of.
\<close>

fun packets_of :: "arrival list \<Rightarrow> bytes list" where
  "packets_of [] = []"
| "packets_of (Arrived p # rest) = p # packets_of rest"
| "packets_of (ChannelClosed # rest) = []"
| "packets_of (e # rest) = packets_of rest"

definition waiting :: "bytes option \<Rightarrow> arrival list \<Rightarrow> bytes list" where
  "waiting pending arrivals = (case pending of None \<Rightarrow> [] | Some p \<Rightarrow> [p]) @ packets_of arrivals"

definition carry :: "collect_end \<Rightarrow> bytes option" where
  "carry e = (case e of Carry p \<Rightarrow> Some p | _ \<Rightarrow> None)"

definition left_over :: "collect_end \<Rightarrow> arrival list \<Rightarrow> bytes list" where
  "left_over e rest = (if e = ReceiverClosed then [] else waiting (carry e) rest)"

definition loop_measure :: "bytes option \<Rightarrow> arrival list \<Rightarrow> nat" where
  "loop_measure pending arrivals = 2 * length arrivals + (if pending = None then 0 else 1)"

lemma loop_measure_less:
  "2 * length rest + (case e of Carry p \<Rightarrow> 1 | _ \<Rightarrow> 0) < 2 * length arrivals + (if pending = None then 0 else 1)
    \<Longrightarrow> loop_measure (carry e) rest < loop_measure pending arrivals"
  by (cases e) (simp_all add: loop_measure_def carry_def)

locale batching =
  fixes fetch :: "bytes option \<Rightarrow> arrival list \<Rightarrow> (bytes \<times> arrival list) option"
    and gather :: "bytes \<Rightarrow> arrival list \<Rightarrow> 'b \<times> collect_end \<times> arrival list"
    and holds :: "'b \<Rightarrow> bytes list \<Rightarrow> bool"
    and loop :: "(nat \<Rightarrow> bool) \<Rightarrow> nat \<Rightarrow> bytes option \<Rightarrow> arrival list \<Rightarrow> 'b list"
  assumes fetch_Some: "fetch pe ar = Some (p, r) \<Longrightarrow> waiting pe ar = p # packets_of r \<and> set r \<subseteq> set ar"
    and fetch_None: "fetch pe ar = None \<Longrightarrow> Shutdown \<notin> set ar \<Longrightarrow> waiting pe ar = []"
    and gather_keeps: "gather p r = (b, e, r') \<Longrightarrow> \<exists>ps. holds b ps \<and> p # packets_of r = ps @ left_over e r'
      \<and> set r' \<subseteq> set r \<and> (e = ShutDown \<longrightarrow> Shutdown \<in> set r)"
    and gather_shrinks: "fetch pe ar = Some (p, r) \<Longrightarrow> gather p r = (b, e, r') \<Longrightarrow> loop_measure (carry e) r' < loop_measure pe ar"
    and loop_stop: "fetch pe ar = None \<Longrightarrow> loop sends n pe ar = []"
    and loop_step: "fetch pe ar = Some (p, r) \<Longrightarrow> gather p r = (b, e, r') \<Longrightarrow>
      loop sends n pe ar = (if e = ShutDown \<or> \<not> sends n then []
        else b # (if e = ReceiverClosed then [] else loop sends (n + 1) (carry e) r'))"
begin

lemma loop_induct:
  assumes "\<And>n pe ar. fetch pe ar = None \<Longrightarrow> Q n pe ar"
    and "\<And>n pe ar p r b e r'. fetch pe ar = Some (p, r) \<Longrightarrow> gather p r = (b, e, r') \<Longrightarrow>
       Q (n + 1) (carry e) r' \<Longrightarrow> Q n pe ar"
  shows "Q (n :: nat) pe ar"
proof (induction "loop_measure pe ar" arbitrary: n pe ar rule: less_induct)
  case less
  show ?case
  proof (cases "fetch pe ar")
    case None
    then show ?thesis by (rule assms(1))
  next
    case (Some x)
    obtain p r b e r' where c: "x = (p, r)" "gather p r = (b, e, r')"
      by (metis surj_pair)
    show ?thesis
      by (rule assms(2) [OF Some [unfolded c(1)] c(2)], rule less, rule gather_shrinks [OF Some [unfolded c(1)] c(2)])
  qed
qed

lemma loop_keeps:
  "\<exists>pss. list_all2 holds (loop sends n pe ar) pss \<and> prefix (concat pss) (waiting pe ar)
     \<and> (Shutdown \<notin> set ar \<longrightarrow> (\<forall>n. sends n) \<longrightarrow> concat pss = waiting pe ar)"
proof (induction n pe ar rule: loop_induct)
  case (1 n pe ar)
  then show ?case using fetch_None by (simp add: loop_stop)
next
  case (2 n pe ar p r b e r')
  obtain ps where ps: "holds b ps" "p # packets_of r = ps @ left_over e r'" "set r' \<subseteq> set r"
    "e = ShutDown \<longrightarrow> Shutdown \<in> set r"
    using gather_keeps [OF 2(2)] by blast
  note w = fetch_Some [OF 2(1)]
  consider "e = ShutDown \<or> \<not> sends n" | "e = ReceiverClosed" "sends n" | "e \<noteq> ShutDown" "e \<noteq> ReceiverClosed" "sends n"
    by blast
  then show ?case
  proof cases
    case 1
    then show ?thesis using ps(4) w by (auto simp: loop_step [OF 2(1,2)])
  next
    case 2
    then show ?thesis
      using ps w by (intro exI [of _ "[ps]"]) (simp add: loop_step [OF \<open>fetch pe ar = _\<close> \<open>gather p r = _\<close>] left_over_def)
  next
    case 3
    obtain pss where "list_all2 holds (loop sends (n + 1) (carry e) r') pss" "prefix (concat pss) (waiting (carry e) r')"
      "Shutdown \<notin> set r' \<longrightarrow> (\<forall>n. sends n) \<longrightarrow> concat pss = waiting (carry e) r'"
      using 2(3) by blast
    then show ?thesis
      using 3 ps w by (intro exI [of _ "ps # pss"]) (auto simp: loop_step [OF 2(1,2)] left_over_def)
  qed
qed

end

lemma list_all2_map:
  assumes "list_all2 (\<lambda>x y. x = f y \<and> Q y) xs ys"
  shows "xs = map f ys" "\<forall>y \<in> set ys. Q y"
  using assms by (induction xs ys rule: list_all2_induct) auto

section \<open>Both loops are batching loops\<close>

lemma first_packet_Some:
  assumes "first_packet arrivals = Some (p, rest)"
  shows "packets_of arrivals = p # packets_of rest" "set rest \<subseteq> set arrivals"
  using assms by (induction arrivals rule: first_packet.induct) auto

lemma first_packet_None: "first_packet arrivals = None \<Longrightarrow> Shutdown \<notin> set arrivals \<Longrightarrow> packets_of arrivals = []"
  by (induction arrivals rule: first_packet.induct) auto

lemma collect_packets:
  assumes "collect batch n arrivals = (b, e, rest)"
  shows "batch @ packets_of arrivals = b @ left_over e rest"
  using assms
  by (induction batch n arrivals arbitrary: b e rest rule: collect.induct)
     (fastforce simp: left_over_def waiting_def carry_def split: if_splits arrival.splits)+

lemma collect_events:
  assumes "collect batch n arrivals = (b, e, rest)"
  shows "set rest \<subseteq> set arrivals" "e = ShutDown \<Longrightarrow> Shutdown \<in> set arrivals"
  using assms
  by (induction batch n arrivals arbitrary: b e rest rule: collect.induct)
     (fastforce split: if_splits arrival.splits)+

lemma collect_bounds:
  assumes "collect batch n arrivals = (b, e, rest)" "batch \<noteq> []" "length batch \<le> 16" "n = sum_list (map length batch)"
    "length batch = 1 \<or> n + 6 \<le> 14336"
  shows "prefix batch b \<and> length b \<le> 16 \<and> (length b = 1 \<or> sum_list (map length b) + 6 \<le> 14336)"
  using assms
proof (induction batch n arrivals arbitrary: b e rest rule: collect.induct)
  case (2 batch n ev rest)
  then show ?case
    by (cases ev) (auto simp: OUTGOING_BATCH_MAX_FRAMES_def OUTGOING_BATCH_MAX_BYTES_def split: if_splits
        dest!: append_prefixD)
qed (auto simp: OUTGOING_BATCH_MAX_FRAMES_def)

text \<open>
  A batch of several packets has at most 14330 bytes of packets in a client, to which the headers of 16 frames
  come on top, and at most 14336 bytes of plaintext in the server, which counts the headers.
\<close>

definition tx_batch_ok :: "bytes list \<Rightarrow> bool" where
  "tx_batch_ok ps \<longleftrightarrow> ps \<noteq> [] \<and> length ps \<le> 16 \<and> (length ps = 1 \<or> length (ios_plaintext ps) \<le> 14426)"

interpretation tx: batching next_first "\<lambda>p. collect [p] (length p)" "\<lambda>b ps. b = ps \<and> tx_batch_ok ps" tx_loop
proof
  fix pe ar p r b e r' sends n
  show "waiting pe ar = p # packets_of r \<and> set r \<subseteq> set ar" if "next_first pe ar = Some (p, r)"
    using that first_packet_Some by (auto simp: next_first_def waiting_def split: option.splits)
  show "waiting pe ar = []" if "next_first pe ar = None" "Shutdown \<notin> set ar"
    using that first_packet_None by (auto simp: next_first_def waiting_def split: option.splits)
  show "tx_loop sends n pe ar = []" if "next_first pe ar = None"
    using that by (subst tx_loop.simps) simp
  assume c: "collect [p] (length p) r = (b, e, r')"
  have "prefix [p] b \<and> length b \<le> 16 \<and> (length b = 1 \<or> sum_list (map length b) + 6 \<le> 14336)"
    using collect_bounds [OF c] by simp
  then have "tx_batch_ok b" by (auto simp: tx_batch_ok_def length_ios_plaintext)
  then show "\<exists>ps. (b = ps \<and> tx_batch_ok ps) \<and> p # packets_of r = ps @ left_over e r'
      \<and> set r' \<subseteq> set r \<and> (e = ShutDown \<longrightarrow> Shutdown \<in> set r)"
    using collect_packets [OF c] collect_events [OF c] by auto
  assume f: "next_first pe ar = Some (p, r)"
  show "loop_measure (carry e) r' < loop_measure pe ar"
    by (rule loop_measure_less, rule batch_measure [OF f c])
  show "tx_loop sends n pe ar = (if e = ShutDown \<or> \<not> sends n then []
      else b # (if e = ReceiverClosed then [] else tx_loop sends (n + 1) (carry e) r'))"
    using f c by (subst tx_loop.simps) (simp add: carry_def split: collect_end.split)
qed

lemma tun_first_Some:
  assumes "tun_first arrivals = Some (p, rest)"
  shows "packets_of arrivals = p # packets_of rest" "set rest \<subseteq> set arrivals"
  using assms by (induction arrivals rule: tun_first.induct) auto

lemma tun_first_None: "tun_first arrivals = None \<Longrightarrow> packets_of arrivals = []"
  by (induction arrivals rule: tun_first.induct) auto

definition tun_batch_ok :: "bytes list \<Rightarrow> bool" where
  "tun_batch_ok ps \<longleftrightarrow> ps \<noteq> [] \<and> length ps \<le> 16 \<and> (length ps = 1 \<or> length (foldl append_tun_frame [] ps) \<le> 14336)"

lemma length_tun_frames: "length (foldl append_tun_frame buf ps) = length buf + 6 * length ps + sum_list (map length ps)"
  by (induction ps arbitrary: buf) (simp_all add: append_tun_frame_def)

lemma tun_collect_keeps:
  assumes "tun_collect (foldl append_tun_frame [] ps) (length ps) (length (foldl append_tun_frame [] ps)) arrivals = (b, e, rest)"
    and "tun_batch_ok ps"
  shows "\<exists>qs. b = foldl append_tun_frame [] qs \<and> tun_batch_ok qs \<and> ps @ packets_of arrivals = qs @ left_over e rest
    \<and> set rest \<subseteq> set arrivals \<and> e \<noteq> ShutDown"
  using assms
proof (induction arrivals arbitrary: ps)
  case Nil
  then show ?case by (auto simp: left_over_def waiting_def carry_def split: if_splits)
next
  case (Cons event arrivals)
  show ?case
  proof (cases "length ps < TUN_BATCH_MAX_FRAMES \<and> length (foldl append_tun_frame [] ps) < TUN_BATCH_MAX_BYTES")
    case False
    then show ?thesis using Cons.prems by (auto simp: left_over_def waiting_def carry_def)
  next
    case True
    show ?thesis
    proof (cases event)
      case (Arrived p)
      show ?thesis
      proof (cases "length (foldl append_tun_frame [] ps) + 6 + length p > TUN_BATCH_MAX_BYTES")
        case True': True
        then show ?thesis
          using True Cons.prems Arrived by (auto simp: left_over_def waiting_def carry_def)
      next
        case False
        have "tun_batch_ok (ps @ [p])"
          using True False length_tun_frames [of "[]" ps] length_tun_frames [of "[]" "ps @ [p]"]
          by (simp add: tun_batch_ok_def TUN_BATCH_MAX_FRAMES_def TUN_BATCH_MAX_BYTES_def)
        moreover have "length (foldl append_tun_frame [] (ps @ [p])) = length (foldl append_tun_frame [] ps) + (6 + length p)"
          using length_tun_frames [of "[]" ps] length_tun_frames [of "[]" "ps @ [p]"] by simp
        ultimately show ?thesis
          using Cons.IH [of "ps @ [p]"] Cons.prems True False Arrived by auto
      qed
    next
      case Shutdown
      then show ?thesis using Cons.IH [of ps] Cons.prems True by auto
    qed (use Cons.prems True in \<open>auto simp: left_over_def waiting_def carry_def\<close>)
  qed
qed

interpretation tun: batching tun_next_first "\<lambda>p. tun_collect (append_tun_frame [] p) 1 (6 + length p)"
  "\<lambda>b ps. b = foldl append_tun_frame [] ps \<and> tun_batch_ok ps" tun_response_loop
proof
  fix pe ar p r b e r' sends n
  show "waiting pe ar = p # packets_of r \<and> set r \<subseteq> set ar" if "tun_next_first pe ar = Some (p, r)"
    using that tun_first_Some by (auto simp: tun_next_first_def waiting_def split: option.splits)
  show "waiting pe ar = []" if "tun_next_first pe ar = None" "Shutdown \<notin> set ar"
    using that tun_first_None by (auto simp: tun_next_first_def waiting_def split: option.splits)
  show "tun_response_loop sends n pe ar = []" if "tun_next_first pe ar = None"
    using that by (subst tun_response_loop.simps) simp
  assume c: "tun_collect (append_tun_frame [] p) 1 (6 + length p) r = (b, e, r')"
  obtain qs where q: "b = foldl append_tun_frame [] qs" "tun_batch_ok qs" "p # packets_of r = qs @ left_over e r'"
    "set r' \<subseteq> set r" "e \<noteq> ShutDown"
    using tun_collect_keeps [of "[p]" r b e r'] c by (auto simp: tun_batch_ok_def length_tun_frames append_tun_frame_def)
  then show "\<exists>ps. (b = foldl append_tun_frame [] ps \<and> tun_batch_ok ps) \<and> p # packets_of r = ps @ left_over e r'
      \<and> set r' \<subseteq> set r \<and> (e = ShutDown \<longrightarrow> Shutdown \<in> set r)"
    by blast
  assume f: "tun_next_first pe ar = Some (p, r)"
  show "loop_measure (carry e) r' < loop_measure pe ar"
    by (rule loop_measure_less, rule tun_batch_measure [OF f c])
  show "tun_response_loop sends n pe ar = (if e = ShutDown \<or> \<not> sends n then []
      else b # (if e = ReceiverClosed then [] else tun_response_loop sends (n + 1) (carry e) r'))"
    using f c q(5) by (subst tun_response_loop.simps) (simp add: carry_def split: collect_end.split)
qed

section \<open>Properties\<close>

text \<open>C11: the batching loop of a client sends the packets of its queue in order, without loss or repetition: the
  batches sent, one after the other, are a prefix of the packets that arrive before the channel closes, and all
  of them if there is no shutdown and every send succeeds. No batch is empty or has more than 16 packets,
  and if no packet is longer than 16376 bytes, every batch fits the frame and padding limits, so
  that both clients can encrypt it.\<close>

theorem client_batches_keep_packets:
  fixes sends arrivals
  defines "batches \<equiv> tx_loop sends 0 None arrivals"
  shows "prefix (concat batches) (packets_of arrivals)
    \<and> (Shutdown \<notin> set arrivals \<longrightarrow> (\<forall>n. sends n) \<longrightarrow> concat batches = packets_of arrivals)
    \<and> (\<forall>b \<in> set batches. b \<noteq> [] \<and> length b \<le> 16)
    \<and> ((\<forall>p \<in> set (packets_of arrivals). length p \<le> 16376) \<longrightarrow>
        (\<forall>b \<in> set batches. length (ios_plaintext b) \<le> 16382 \<and> ios_batch_fits b))"
proof -
  obtain pss where pss: "list_all2 (\<lambda>b ps. b = ps \<and> tx_batch_ok ps) batches pss"
    "prefix (concat pss) (waiting None arrivals)"
    "Shutdown \<notin> set arrivals \<longrightarrow> (\<forall>n. sends n) \<longrightarrow> concat pss = waiting None arrivals"
    using tx.loop_keeps [of sends 0 None arrivals] unfolding batches_def by blast
  have w: "waiting None arrivals = packets_of arrivals" by (simp add: waiting_def)
  have b: "pss = batches" "\<forall>b \<in> set batches. tx_batch_ok b"
    using list_all2_map [OF pss(1)] by simp_all
  have "length (ios_plaintext b) \<le> 16382 \<and> ios_batch_fits b"
    if p: "\<forall>p \<in> set (packets_of arrivals). length p \<le> 16376" and m: "b \<in> set batches" for b
  proof -
    have "set b \<subseteq> set (concat batches)" using m by auto
    then have "\<forall>p \<in> set b. length p \<le> 16376" using p set_mono_prefix [OF pss(2)] b(1) w by auto
    moreover have "tx_batch_ok b" using b(2) m by blast
    ultimately show ?thesis
      by (fastforce simp: tx_batch_ok_def ios_batch_fits_def MAX_MESSAGE_SIZE_def list_all_iff length_ios_plaintext length_Suc_conv)
  qed
  with pss b w show ?thesis by (auto simp: tx_batch_ok_def)
qed

theorem client_batches_keep_packets_witness:
  "concat (tx_loop (\<lambda>n. True) 0 None [Arrived [1, 2], Arrived [3], TimedOut, Arrived [4], ChannelClosed]) = [[1, 2], [3], [4]]"
  using client_batches_keep_packets [of "\<lambda>n. True" "[Arrived [1, 2], Arrived [3], TimedOut, Arrived [4], ChannelClosed]"]
  by simp

text \<open>C28: so does the response loop of the server. Each plaintext it encrypts is the concatenation of the frames
  of its packets, and if no packet is longer than 16376 bytes, which the MTU guarantees, each plaintext
  can be padded, so that the loop never ends because of the size of a batch.\<close>

theorem server_batches_keep_packets:
  "\<exists>pss. tun_response_loop sends 0 None arrivals = map (foldl append_tun_frame []) pss
    \<and> prefix (concat pss) (packets_of arrivals)
    \<and> (Shutdown \<notin> set arrivals \<longrightarrow> (\<forall>n. sends n) \<longrightarrow> concat pss = packets_of arrivals)
    \<and> (\<forall>ps \<in> set pss. ps \<noteq> [] \<and> length ps \<le> 16)
    \<and> ((\<forall>p \<in> set (packets_of arrivals). length p \<le> 16376) \<longrightarrow>
        (\<forall>ps \<in> set pss. is_ok (pad_packet fill (foldl append_tun_frame [] ps))))"
proof -
  obtain pss where pss: "list_all2 (\<lambda>b ps. b = foldl append_tun_frame [] ps \<and> tun_batch_ok ps) (tun_response_loop sends 0 None arrivals) pss"
    "prefix (concat pss) (waiting None arrivals)"
    "Shutdown \<notin> set arrivals \<longrightarrow> (\<forall>n. sends n) \<longrightarrow> concat pss = waiting None arrivals"
    using tun.loop_keeps [of sends 0 None arrivals] by blast
  have w: "waiting None arrivals = packets_of arrivals" by (simp add: waiting_def)
  have b: "tun_response_loop sends 0 None arrivals = map (foldl append_tun_frame []) pss" "\<forall>ps \<in> set pss. tun_batch_ok ps"
    by (rule list_all2_map [OF pss(1)])+
  have "is_ok (pad_packet fill (foldl append_tun_frame [] ps))"
    if p: "\<forall>p \<in> set (packets_of arrivals). length p \<le> 16376" and m: "ps \<in> set pss" for ps
  proof -
    have "set ps \<subseteq> set (concat pss)" using m by auto
    then have "\<forall>p \<in> set ps. length p \<le> 16376" using p set_mono_prefix [OF pss(2)] w by auto
    then have "length (foldl append_tun_frame [] ps) \<le> 16382" "foldl append_tun_frame [] ps \<noteq> []"
      using b(2) m length_tun_frames [of "[]" ps] by (fastforce simp: tun_batch_ok_def length_Suc_conv)+
    then show ?thesis by (simp add: ios_pad_small)
  qed
  with pss b w show ?thesis by (intro exI [of _ pss]) (auto simp: tun_batch_ok_def)
qed

theorem server_batches_keep_packets_witness:
  "\<exists>pss. tun_response_loop (\<lambda>n. True) 0 None [Arrived [1, 2], Arrived [3], TimedOut, Arrived [4], ChannelClosed]
       = map (foldl append_tun_frame []) pss \<and> concat pss = [[1, 2], [3], [4]]"
  using server_batches_keep_packets [of "\<lambda>n. True" "[Arrived [1, 2], Arrived [3], TimedOut, Arrived [4], ChannelClosed]" "\<lambda>n. []"]
  by auto

end
