(* ===== verification/Rate_Limiter.thy ===== *)
theory Rate_Limiter
  imports Rvpn_Prelude
begin

text \<open>
  The rate limiter of the server (\<open>rvpn-server/src/handler.rs\<close>): per address a count and the instant of the
  window. An instant is a number of nanoseconds, and the clock, an argument of every operation, never goes
  backwards. The table is a map.
\<close>

section \<open>Operations\<close>

record 'ip rate_limiter =
  max_per_minute :: u32
  max_connections :: u32
  requests :: "'ip \<rightharpoonup> u32 \<times> nat"

definition limiter_new :: "u32 \<Rightarrow> u32 \<Rightarrow> 'ip rate_limiter" where
  "limiter_new max_connections_per_ip max_handshakes_per_minute =
     \<lparr>max_per_minute = max_handshakes_per_minute, max_connections = max_connections_per_ip, requests = Map.empty\<rparr>"

definition limiter_default :: "'ip rate_limiter" where
  "limiter_default = limiter_new 5 10"

text \<open>\<open>now.duration_since(start).as_secs()\<close>, which saturates at zero.\<close>

definition elapsed_secs :: "nat \<Rightarrow> nat \<Rightarrow> nat" where
  "elapsed_secs now start = (now - start) div 1000000000"

definition check :: "'ip rate_limiter \<Rightarrow> nat \<Rightarrow> 'ip \<Rightarrow> bool" where
  "check l now ip =
     (case requests l ip of
        Some (count, start) \<Rightarrow>
          if elapsed_secs now start < 60 then count < max_per_minute l \<and> count < max_connections l else True
      | None \<Rightarrow> True)"

definition retain_fresh :: "nat \<Rightarrow> ('ip \<rightharpoonup> u32 \<times> nat) \<Rightarrow> ('ip \<rightharpoonup> u32 \<times> nat)" where
  "retain_fresh now m = (\<lambda>ip. case m ip of
     Some (count, start) \<Rightarrow> if elapsed_secs now start < 60 then Some (count, start) else None
   | None \<Rightarrow> None)"

definition check_and_record :: "'ip rate_limiter \<Rightarrow> nat \<Rightarrow> 'ip \<Rightarrow> bool \<times> 'ip rate_limiter" where
  "check_and_record l now ip =
     (let l = l\<lparr>requests := retain_fresh now (requests l)\<rparr>;
          fresh_entry = (True, l\<lparr>requests := (requests l)(ip \<mapsto> (1, now))\<rparr>)
      in case requests l ip of
           Some (count, start) \<Rightarrow>
             if elapsed_secs now start < 60 then
               (if count \<ge> max_per_minute l \<or> count \<ge> max_connections l then (False, l)
                else (True, l\<lparr>requests := (requests l)(ip \<mapsto> (count + 1, now))\<rparr>))
             else fresh_entry
         | None \<Rightarrow> fresh_entry)"

definition record_request :: "'ip rate_limiter \<Rightarrow> nat \<Rightarrow> 'ip \<Rightarrow> 'ip rate_limiter" where
  "record_request l now ip =
     (let fresh_entry = l\<lparr>requests := (requests l)(ip \<mapsto> (1, now))\<rparr>
      in case requests l ip of
           Some (count, start) \<Rightarrow>
             if elapsed_secs now start < 60 then l\<lparr>requests := (requests l)(ip \<mapsto> (count + 1, start))\<rparr>
             else fresh_entry
         | None \<Rightarrow> fresh_entry)"

section \<open>A sequence of connections\<close>

text \<open>
  The calls of \<open>check_and_record\<close> by the accept loop, and the instants at which an address was admitted, newest
  first. \<open>limit\<close> is what the two bounds admit; the first connection of a window is never refused.
\<close>

fun admit_all :: "'ip rate_limiter \<Rightarrow> (nat \<times> 'ip) list \<Rightarrow> bool list \<times> 'ip rate_limiter" where
  "admit_all l [] = ([], l)"
| "admit_all l ((now, ip) # calls) =
     (case check_and_record l now ip of (ok, l') \<Rightarrow>
       (case admit_all l' calls of (oks, l'') \<Rightarrow> (ok # oks, l'')))"

definition admitted :: "'ip \<Rightarrow> (nat \<times> 'ip) list \<Rightarrow> bool list \<Rightarrow> nat list" where
  "admitted ip calls oks = map (fst \<circ> fst) (filter (\<lambda>((t, a), ok). a = ip \<and> ok) (zip calls oks))"

definition limit :: "'ip rate_limiter \<Rightarrow> nat" where
  "limit l = max 1 (min (unat (max_per_minute l)) (unat (max_connections l)))"

abbreviation minute :: nat where
  "minute \<equiv> 60000000000"

lemma elapsed_secs_less [simp]: "elapsed_secs now start < 60 \<longleftrightarrow> now - start < minute"
  by (simp add: elapsed_secs_def div_less_iff_less_mult)

text \<open>
  \<open>burst ts\<close> is the number of admissions at the head of \<open>ts\<close>, newest first, that follow one another within a
  minute each.
\<close>

fun burst :: "nat list \<Rightarrow> nat" where
  "burst [] = 0"
| "burst [t] = 1"
| "burst (t # u # ts) = (if t - u < minute then Suc (burst (u # ts)) else 1)"

fun bursts_below :: "nat \<Rightarrow> nat list \<Rightarrow> bool" where
  "bursts_below n [] \<longleftrightarrow> True"
| "bursts_below n (t # ts) \<longleftrightarrow> burst (t # ts) \<le> n \<and> (\<forall>u \<in> set ts. u \<le> t) \<and> bursts_below n ts"

abbreviation in_window :: "nat \<Rightarrow> nat \<Rightarrow> bool" where
  "in_window t u \<equiv> t \<le> u \<and> u < t + minute"

lemma burst_window:
  assumes "bursts_below n ts" "\<forall>u \<in> set ts. u < t + minute"
  shows "length (filter (in_window t) ts) \<le> burst ts"
  using assms
proof (induction ts rule: burst.induct)
  case (3 v u ts)
  show ?case
  proof (cases "t \<le> u")
    case True
    then have "v - u < minute" using 3(3) by auto
    then show ?thesis using 3 True by auto
  next
    case False
    then have "filter (in_window t) (u # ts) = []" using 3(2) by (fastforce simp: filter_empty_conv)
    then show ?thesis by simp
  qed
qed auto

lemma bursts_window:
  "bursts_below n ts \<Longrightarrow> length (filter (in_window t) ts) \<le> n"
proof (induction ts)
  case (Cons u ts)
  show ?case
  proof (cases "u < t + minute")
    case True
    then have "length (filter (in_window t) (u # ts)) \<le> burst (u # ts)"
      using burst_window [OF Cons.prems, of t] Cons.prems by fastforce
    then show ?thesis using Cons.prems by simp
  next
    case False
    then show ?thesis using Cons by simp
  qed
qed simp

text \<open>The table is explained by the admissions so far.\<close>

definition explains :: "(u32 \<times> nat) option \<Rightarrow> nat \<Rightarrow> nat list \<Rightarrow> bool" where
  "explains entry now ts \<longleftrightarrow> (\<forall>u \<in> set ts. u \<le> now) \<and>
     (case entry of
        Some (count, start) \<Rightarrow> ts \<noteq> [] \<and> hd ts = start \<and> unat count = burst ts
      | None \<Rightarrow> ts = [] \<or> minute \<le> now - hd ts)"

definition limiter_inv :: "'ip rate_limiter \<Rightarrow> nat \<Rightarrow> ('ip \<Rightarrow> nat list) \<Rightarrow> bool" where
  "limiter_inv l now hist \<longleftrightarrow> (\<forall>ip. bursts_below (limit l) (hist ip) \<and> explains (requests l ip) now (hist ip))"

lemma explains_retain:
  assumes "explains (m ip) now ts" "now \<le> now'"
  shows "explains (retain_fresh now' m ip) now' ts"
  using assms by (auto simp: explains_def retain_fresh_def split: option.splits prod.splits)

lemma explains_admit:
  assumes "explains entry now ts" "bursts_below n ts" "1 \<le> n"
  shows "entry = None \<Longrightarrow> explains (Some (1, now)) now (now # ts) \<and> bursts_below n (now # ts)"
    and "entry = Some (c, s) \<Longrightarrow> now - s < minute \<Longrightarrow> unat c < n \<Longrightarrow> n \<le> unat (k :: u32) \<Longrightarrow>
      explains (Some (c + 1, now)) now (now # ts) \<and> bursts_below n (now # ts)"
proof -
  show "explains (Some (1, now)) now (now # ts) \<and> bursts_below n (now # ts)" if "entry = None"
    using assms that by (cases ts) (auto simp: explains_def)
  assume e: "entry = Some (c, s)" "now - s < minute" "unat c < n" "n \<le> unat k"
  have "Suc (unat c) < 4294967296" using e(3,4) unat_word_bounds(2) [of k] by linarith
  then have "unat (c + 1) = Suc (unat c)" by (simp add: unat_word_ariths)
  then show "explains (Some (c + 1, now)) now (now # ts) \<and> bursts_below n (now # ts)"
    using assms e by (cases ts) (auto simp: explains_def)
qed

lemma limit_update [simp]: "limit (l\<lparr>requests := m\<rparr>) = limit l"
  by (simp add: limit_def)

lemma check_and_record_inv:
  assumes "limiter_inv l now hist" "now \<le> now'" "check_and_record l now' ip = (ok, l')"
  shows "limiter_inv l' now' (if ok then hist(ip := now' # hist ip) else hist) \<and> limit l' = limit l"
proof -
  let ?m = "retain_fresh now' (requests l)"
  have h: "bursts_below (limit l) (hist a)" "explains (?m a) now' (hist a)" for a
    using assms(1,2) explains_retain [of "requests l" a now "hist a" now'] by (simp_all add: limiter_inv_def)
  have n: "1 \<le> limit l" by (simp add: limit_def)
  show ?thesis
  proof (cases "?m ip")
    case None
    then have "ok" "l' = l\<lparr>requests := ?m(ip \<mapsto> (1, now'))\<rparr>"
      using assms(3) by (auto simp: check_and_record_def Let_def)
    then show ?thesis
      using h explains_admit(1) [OF h(2) h(1) n None] by (simp add: limiter_inv_def)
  next
    case (Some e)
    obtain c s where e: "?m ip = Some (c, s)" using Some by (cases e) simp
    then have s: "now' - s < minute" by (auto simp: retain_fresh_def split: option.splits if_splits)
    show ?thesis
    proof (cases "c \<ge> max_per_minute l \<or> c \<ge> max_connections l")
      case True
      then have "\<not> ok" "l' = l\<lparr>requests := ?m\<rparr>" using assms(3) e s by (auto simp: check_and_record_def Let_def)
      then show ?thesis using h by (simp add: limiter_inv_def)
    next
      case False
      then have o: "ok" "l' = l\<lparr>requests := ?m(ip \<mapsto> (c + 1, now'))\<rparr>"
        using assms(3) e s by (auto simp: check_and_record_def Let_def)
      have c: "unat c < limit l" "limit l \<le> unat (max_per_minute l)"
        using False by (auto simp: limit_def word_less_nat_alt word_le_nat_alt)
      then show ?thesis
        using h o explains_admit(2) [OF h(2) h(1) n e s c] by (simp add: limiter_inv_def)
    qed
  qed
qed

lemma admit_all_inv:
  assumes "limiter_inv l now hist" "sorted (now # map fst calls)" "admit_all l calls = (oks, l')"
  shows "\<exists>now'. limiter_inv l' now' (\<lambda>ip. rev (admitted ip calls oks) @ hist ip) \<and> limit l' = limit l"
  using assms
proof (induction calls arbitrary: l now hist oks)
  case Nil
  then show ?case by (auto simp: admitted_def)
next
  case (Cons call calls)
  obtain now' ip where c: "call = (now', ip)" by fastforce
  obtain ok l1 oks' where r: "check_and_record l now' ip = (ok, l1)" "admit_all l1 calls = (oks', l')" "oks = ok # oks'"
    using Cons.prems(3) c by (auto split: prod.splits)
  let ?h = "if ok then hist(ip := now' # hist ip) else hist"
  have i: "limiter_inv l1 now' ?h" "limit l1 = limit l"
    using check_and_record_inv [OF Cons.prems(1) _ r(1)] Cons.prems(2) c by simp_all
  have "(\<lambda>a. rev (admitted a calls oks') @ ?h a) = (\<lambda>a. rev (admitted a (call # calls) oks) @ hist a)"
    by (auto simp: admitted_def c r(3))
  moreover have "sorted (now' # map fst calls)" using Cons.prems(2) c by simp
  ultimately show ?case using Cons.IH [OF i(1) _ r(2)] i(2) by auto
qed

lemma limiter_new_inv: "limiter_inv (limiter_new mc mp) now (\<lambda>ip. [])"
  by (simp add: limiter_inv_def limiter_new_def explains_def)

lemma steady_client:
  assumes "interval < minute" "n \<le> unat (max_per_minute l)" "n \<le> unat (max_connections l)"
    "n = unat (max_per_minute l) \<or> n = unat (max_connections l)"
    and "requests l ip = Some (of_nat (n - d), (n - d - 1) * interval)" "d < n"
  shows "fst (admit_all l (map (\<lambda>k. (k * interval, ip)) [n - d..<n + 1])) = replicate d True @ [False]"
  using assms(2-6)
proof (induction d arbitrary: l)
  case 0
  have "n < 4294967296" using 0(1) unat_word_bounds(2) [of "max_per_minute l"] by linarith
  then have u: "unat (of_nat n :: u32) = n" by simp
  have "n * interval - (n - 1) * interval < minute" using assms(1) 0(5) by (simp flip: diff_mult_distrib)
  then show ?case
    using 0 u by (auto simp: check_and_record_def retain_fresh_def Let_def word_le_nat_alt)
next
  case (Suc d)
  let ?j = "n - Suc d"
  have j: "0 < ?j" "?j < n" "n - d = Suc ?j" using Suc.prems(5) by simp_all
  have "n < 4294967296" using Suc.prems(1) unat_word_bounds(2) [of "max_per_minute l"] by linarith
  then have u: "unat (of_nat ?j :: u32) = ?j" by simp
  let ?l = "l\<lparr>requests := (retain_fresh (?j * interval) (requests l))(ip \<mapsto> (of_nat (Suc ?j), ?j * interval))\<rparr>"
  have "?j * interval - (?j - 1) * interval < minute" using assms(1) j(1) by (simp flip: diff_mult_distrib)
  then have c: "check_and_record l (?j * interval) ip = (True, ?l)"
    using Suc.prems u j by (auto simp: check_and_record_def retain_fresh_def Let_def word_le_nat_alt)
  have "[?j..<n + 1] = ?j # [n - d..<n + 1]" using j by (simp add: upt_conv_Cons)
  moreover have "fst (admit_all ?l (map (\<lambda>k. (k * interval, ip)) [n - d..<n + 1])) = replicate d True @ [False]"
    by (rule Suc.IH) (use Suc.prems j in simp_all)
  ultimately show ?case using c by (simp add: case_prod_unfold del: upt_Suc)
qed

section \<open>Properties\<close>

text \<open>C31: whatever connections arrive, at any instants and from any addresses, the limiter admits from one address,
  within any window of 60 seconds, at most as many as both bounds allow, and one if a bound is zero.\<close>

theorem rate_limit_enforced:
  assumes "sorted (map fst calls)" "admit_all (limiter_new mc mp) calls = (oks, l)"
  shows "length (filter (\<lambda>u. t \<le> u \<and> u < t + 60 * 10 ^ 9) (admitted ip calls oks)) \<le> max 1 (min (unat mc) (unat mp))"
proof -
  have "sorted (0 # map fst calls)" using assms(1) by simp
  from admit_all_inv [OF limiter_new_inv this assms(2)]
  have "bursts_below (max 1 (min (unat mc) (unat mp))) (rev (admitted ip calls oks))"
    by (auto simp: limiter_inv_def limit_def limiter_new_def min.commute)
  from bursts_window [OF this, of t] show ?thesis
    by (simp flip: rev_filter)
qed

theorem rate_limit_enforced_witness:
  "length (filter (\<lambda>u. 0 \<le> u \<and> u < 0 + 60 * 10 ^ 9)
     (admitted 7 [(1, 7 :: nat), (2, 7), (3, 7)] (fst (admit_all (limiter_new 2 10) [(1, 7 :: nat), (2, 7), (3, 7)])))) \<le> max 1 (min (unat (2 :: u32)) (unat (10 :: u32)))"
  by (rule rate_limit_enforced [OF _ prod.collapse [symmetric]]) simp

text \<open>The window does not slide, it is prolonged: each admitted connection restarts the 60 seconds and keeps
  the count. A client that connects at a steady interval just below a minute, far slower than the bounds, is
  admitted as often as the bounds say in total and then refused.\<close>

lemma slow_client_is_refused:
  assumes "interval < 60 * 10 ^ 9" "0 < mc" "0 < mp" "n = min (unat mc) (unat mp)"
  shows "fst (admit_all (limiter_new mc mp) (map (\<lambda>k. (k * interval, ip)) [0..<n + 1])) = replicate n True @ [False]"
proof -
  have m: "0 < unat mc" "0 < unat mp" using assms(2,3) by (simp_all add: word_less_nat_alt)
  then obtain d where d: "n = Suc d" using assms(4) by (metis Suc_pred min_less_iff_conj)
  define l :: "'a rate_limiter" where "l = (limiter_new mc mp)\<lparr>requests := [ip \<mapsto> (1, 0)]\<rparr>"
  have "fst (admit_all l (map (\<lambda>k. (k * interval, ip)) [n - d..<n + 1])) = replicate d True @ [False]"
  proof (rule steady_client)
    show "requests l ip = Some (of_nat (n - d), (n - d - 1) * interval)" by (simp add: d l_def)
  qed (use assms(1,4) d in \<open>auto simp: l_def limiter_new_def\<close>)
  moreover have "check_and_record (limiter_new mc mp) 0 ip = (True, l)"
    by (simp add: check_and_record_def limiter_new_def retain_fresh_def l_def Let_def fun_eq_iff)
  moreover have "[0..<n + 1] = 0 # [n - d..<n + 1]" using d by (simp add: upt_conv_Cons del: upt_Suc)
  ultimately show ?thesis using d by (simp add: case_prod_unfold del: upt_Suc)
qed

end
