(* ===== verification/Routing.thy ===== *)
theory Routing
  imports Rust_Strings
begin

text \<open>
  The routing engine of \<open>rvpn-core/src/routing.rs\<close>: the decision whether a connection goes direct, through the tunnel or
  is blocked. The \<open>ip_network\<close> crate is the record \<open>ip_network_crate\<close>; addresses are a type of their own, as only
  that crate looks into them.
\<close>

record ('n, 'ip) ip_network_crate =
  network_parse :: "chars \<Rightarrow> 'n option"
  network_contains :: "'n \<Rightarrow> 'ip \<Rightarrow> bool"

datatype route_action = Direct | Proxy | Block

record 'n routing_engine =
  china_ips :: "'n list"
  china_domains :: "chars list"
  blocked_domains :: "chars set"
  default_action :: route_action

definition engine_new :: "'n routing_engine" where
  "engine_new = \<lparr>china_ips = [], china_domains = [], blocked_domains = {}, default_action = Proxy\<rparr>"

datatype network_error = NetworkParseError

definition add_china_ip :: "('n, 'ip) ip_network_crate \<Rightarrow> 'n routing_engine \<Rightarrow> chars
    \<Rightarrow> (network_error, unit) outcome \<times> 'n routing_engine" where
  "add_china_ip N e cidr =
     (case network_parse N cidr of
        Some network \<Rightarrow> (Ok (), e\<lparr>china_ips := china_ips e @ [network]\<rparr>)
      | None \<Rightarrow> (Err NetworkParseError, e))"

definition add_china_domain :: "'n routing_engine \<Rightarrow> chars \<Rightarrow> 'n routing_engine" where
  "add_china_domain e domain = e\<lparr>china_domains := china_domains e @ [domain]\<rparr>"

definition add_blocked_domain :: "'n routing_engine \<Rightarrow> chars \<Rightarrow> 'n routing_engine" where
  "add_blocked_domain e domain = e\<lparr>blocked_domains := insert domain (blocked_domains e)\<rparr>"

definition set_default_action :: "'n routing_engine \<Rightarrow> route_action \<Rightarrow> 'n routing_engine" where
  "set_default_action e action = e\<lparr>default_action := action\<rparr>"

fun route_ip_loop :: "('n, 'ip) ip_network_crate \<Rightarrow> 'n list \<Rightarrow> 'ip \<Rightarrow> route_action option" where
  "route_ip_loop N [] ip = None"
| "route_ip_loop N (network # networks) ip =
     (if network_contains N network ip then Some Direct else route_ip_loop N networks ip)"

definition route_ip :: "('n, 'ip) ip_network_crate \<Rightarrow> 'n routing_engine \<Rightarrow> 'ip \<Rightarrow> route_action" where
  "route_ip N e ip = (case route_ip_loop N (china_ips e) ip of Some action \<Rightarrow> action | None \<Rightarrow> default_action e)"

fun route_domain_loop :: "chars list \<Rightarrow> chars \<Rightarrow> route_action option" where
  "route_domain_loop [] domain = None"
| "route_domain_loop (china_domain # domains) domain =
     (if ends_with china_domain domain \<or> domain = china_domain then Some Direct else route_domain_loop domains domain)"

definition route_domain :: "'n routing_engine \<Rightarrow> chars \<Rightarrow> route_action" where
  "route_domain e domain =
     (if domain \<in> blocked_domains e then Block
      else case route_domain_loop (china_domains e) domain of Some action \<Rightarrow> action | None \<Rightarrow> default_action e)"

definition route :: "('n, 'ip) ip_network_crate \<Rightarrow> 'n routing_engine \<Rightarrow> 'ip option \<Rightarrow> chars option \<Rightarrow> route_action" where
  "route N e ip domain =
     (let by_ip = (case ip of Some i \<Rightarrow> route_ip N e i | None \<Rightarrow> default_action e)
      in case domain of
           Some d \<Rightarrow> (let result = route_domain e d in if result \<noteq> default_action e then result else by_ip)
         | None \<Rightarrow> by_ip)"

definition default_china_ips :: "chars list" where
  "default_china_ips = map codes [''220.0.0.0/8'', ''221.0.0.0/8'', ''222.0.0.0/8'', ''60.0.0.0/8'', ''58.0.0.0/8'']"

definition default_china_domains :: "chars list" where
  "default_china_domains = map codes [''.cn'', ''.baidu.com'', ''.taobao.com'', ''.jd.com'', ''.qq.com'', ''.alipay.com'', ''.aliyun.com'']"

section \<open>The rules\<close>

text \<open>
  The rules the engine stands for, in the order of precedence its comments give: a blocked domain, a direct
  domain, a direct address, the default.
\<close>

definition is_blocked :: "'n routing_engine \<Rightarrow> chars option \<Rightarrow> bool" where
  "is_blocked e domain = (case domain of Some d \<Rightarrow> d \<in> blocked_domains e | None \<Rightarrow> False)"

definition is_direct_domain :: "'n routing_engine \<Rightarrow> chars option \<Rightarrow> bool" where
  "is_direct_domain e domain = (case domain of Some d \<Rightarrow> list_ex (\<lambda>s. ends_with s d) (china_domains e) | None \<Rightarrow> False)"

definition is_direct_ip :: "('n, 'ip) ip_network_crate \<Rightarrow> 'n routing_engine \<Rightarrow> 'ip option \<Rightarrow> bool" where
  "is_direct_ip N e ip = (case ip of Some i \<Rightarrow> list_ex (\<lambda>n. network_contains N n i) (china_ips e) | None \<Rightarrow> False)"

definition rules :: "('n, 'ip) ip_network_crate \<Rightarrow> 'n routing_engine \<Rightarrow> 'ip option \<Rightarrow> chars option \<Rightarrow> route_action" where
  "rules N e ip domain =
     (if is_blocked e domain then Block
      else if is_direct_domain e domain \<or> is_direct_ip N e ip then Direct
      else default_action e)"

lemma ends_with_self [simp]: "ends_with s s"
  by (simp add: ends_with_def)

lemma route_ip_loop_eq: "route_ip_loop N ns ip = (if list_ex (\<lambda>n. network_contains N n ip) ns then Some Direct else None)"
  by (induction ns) auto

lemma route_domain_loop_eq: "route_domain_loop ss d = (if list_ex (\<lambda>s. ends_with s d) ss then Some Direct else None)"
  by (induction ss) auto

section \<open>Properties\<close>

text \<open>C38: the engine follows its rules with one exception: it takes a decision for the domain that equals the
  default action for no decision. So it differs from the rules exactly if the default is to block, the domain is
  on the block list and the address is in a direct range; such a connection goes direct.\<close>

theorem route_follows_rules:
  "(route N e ip domain = rules N e ip domain \<longleftrightarrow>
     \<not> (default_action e = Block \<and> is_blocked e domain \<and> is_direct_ip N e ip))
   \<and> (route N e ip domain \<noteq> rules N e ip domain \<longrightarrow> route N e ip domain = Direct)"
  by (cases domain; cases ip)
     (auto simp: route_def rules_def route_ip_def route_domain_def route_ip_loop_eq route_domain_loop_eq
       is_blocked_def is_direct_domain_def is_direct_ip_def Let_def)

theorem route_follows_rules_witness:
  "route \<lparr>network_parse = \<lambda>s. None, network_contains = \<lambda>n ip. n = ip\<rparr>
     \<lparr>china_ips = [7 :: nat], china_domains = [], blocked_domains = {codes ''ads.cn''}, default_action = Block\<rparr>
     (Some 7) (Some (codes ''ads.cn'')) = Direct"
proof -
  let ?N = "\<lparr>network_parse = \<lambda>s. None, network_contains = \<lambda>n ip. n = ip\<rparr> :: (nat, nat) ip_network_crate"
  let ?e = "\<lparr>china_ips = [7 :: nat], china_domains = [], blocked_domains = {codes ''ads.cn''}, default_action = Block\<rparr>"
  have "is_blocked ?e (Some (codes ''ads.cn''))" "is_direct_ip ?N ?e (Some 7)"
    by (simp_all add: is_blocked_def is_direct_ip_def)
  with route_follows_rules [of ?N ?e "Some 7" "Some (codes ''ads.cn'')"] show ?thesis by simp
qed

end
