(* ===== verification/Identity_File.thy ===== *)
theory Identity_File
  imports X3dh Rust_Strings
begin

text \<open>
  The text format of an identity key: \<open>IdentityKey::load\<close> and \<open>save\<close> of \<open>rvpn-core/src/crypto/mod.rs\<close>, on the
  contents of the file. The \<open>base64\<close> crate is the record \<open>base64_crate\<close>, with \<open>base64_ok\<close> stating that decoding
  inverts encoding and that the encoding uses the standard alphabet.
\<close>

record base64_crate =
  b64_encode :: "bytes \<Rightarrow> chars"
  b64_decode :: "chars \<Rightarrow> bytes option"

definition b64_letter :: "nat \<Rightarrow> bool" where
  "b64_letter c \<longleftrightarrow> (65 \<le> c \<and> c \<le> 90) \<or> (97 \<le> c \<and> c \<le> 122) \<or> (48 \<le> c \<and> c \<le> 57) \<or> c = 43 \<or> c = 47 \<or> c = 61"

definition base64_ok :: "base64_crate \<Rightarrow> bool" where
  "base64_ok K \<longleftrightarrow> (\<forall>b. b64_decode K (b64_encode K b) = Some b) \<and> (\<forall>b. list_all b64_letter (b64_encode K b))"

datatype key_file_error = InvalidFileFormat | TooFewLines | InvalidBase64 | InvalidKeyLength

definition IDENTITY_HEADER :: chars where
  "IDENTITY_HEADER = codes ''R-VPN-IDENTITY-v1''"

definition identity_load :: "base64_crate \<Rightarrow> ed25519_crate \<Rightarrow> chars \<Rightarrow> (key_file_error, identity_key) outcome" where
  "identity_load K E content =
     (let ls = lines content in
      and_then (if ls = [] then Err InvalidFileFormat
                else and_then (idx ls 0) (\<lambda>l0. if l0 \<noteq> IDENTITY_HEADER then Err InvalidFileFormat else Ok ())) (\<lambda>_.
      and_then
        (if length ls \<ge> 4 \<and> starts_with (codes ''ed25519:'') (ls ! 1) then
           and_then (idx ls 1) (\<lambda>l1.
           and_then (ok_or InvalidBase64 (b64_decode K (trim (drop (length (codes ''ed25519:'')) l1)))) (\<lambda>_.
           and_then (idx ls 3) (\<lambda>l3. ok_or InvalidBase64 (b64_decode K (trim l3)))))
         else if length ls \<ge> 3 then and_then (idx ls 2) (\<lambda>l2. ok_or InvalidBase64 (b64_decode K (trim l2)))
         else Err TooFewLines) (\<lambda>signing_key_bytes.
      if length signing_key_bytes \<noteq> 32 then Err InvalidKeyLength
      else Ok \<lparr>signing_key = signing_key_bytes, verifying_key = ed_verifying_key E signing_key_bytes\<rparr>)))"

definition identity_save :: "base64_crate \<Rightarrow> identity_key \<Rightarrow> chars" where
  "identity_save K k =
     IDENTITY_HEADER @ [10] @ b64_encode K (verifying_key k) @ [10] @ b64_encode K (signing_key k) @ [10]"

text \<open>The format with prefixed key types, which \<open>load\<close> documents.\<close>

definition identity_file_v2 :: "base64_crate \<Rightarrow> bytes \<Rightarrow> identity_key \<Rightarrow> chars" where
  "identity_file_v2 K x25519 k =
     IDENTITY_HEADER @ [10] @ codes ''ed25519: '' @ b64_encode K (verifying_key k) @ [10]
     @ codes ''x25519: '' @ b64_encode K x25519 @ [10] @ b64_encode K (signing_key k) @ [10]"

section \<open>Lines of a key file\<close>

lemma b64_not_white: "b64_letter c \<Longrightarrow> \<not> is_whitespace c \<and> c \<noteq> 10 \<and> c \<noteq> 13 \<and> c \<noteq> 58"
  by (auto simp: b64_letter_def is_whitespace_def)

lemma trim_solid: "list_all (\<lambda>c. \<not> is_whitespace c) s \<Longrightarrow> trim s = s"
proof -
  assume "list_all (\<lambda>c. \<not> is_whitespace c) s"
  then have "dropWhile is_whitespace s = s" "dropWhile is_whitespace (rev s) = rev s"
    by (auto simp: dropWhile_eq_self_iff list_all_iff hd_rev)
  then show ?thesis by (simp add: trim_def)
qed

lemma strip_cr_solid: "13 \<notin> set s \<Longrightarrow> strip_cr s = s"
  by (auto simp: strip_cr_def dest: last_in_set)

lemma lines_Cons:
  assumes "10 \<notin> set a" "13 \<notin> set a"
  shows "lines (a @ 10 # b) = a # lines b"
  using assms by (simp add: lines_def split_on_append strip_cr_solid Let_def)

lemma lines_Nil [simp]: "lines [] = []"
  by (simp add: lines_def)

lemma trim_prefix_space: "trim (32 # s) = trim s"
  by (simp add: trim_def is_whitespace_def)

lemma header_plain: "10 \<notin> set IDENTITY_HEADER" "13 \<notin> set IDENTITY_HEADER"
  by (simp_all add: IDENTITY_HEADER_def codes_def)

lemma b64_plain:
  assumes "base64_ok K"
  shows "10 \<notin> set (b64_encode K b)" "13 \<notin> set (b64_encode K b)" "58 \<notin> set (b64_encode K b)"
    "trim (b64_encode K b) = b64_encode K b" "b64_decode K (b64_encode K b) = Some b"
  using assms b64_not_white trim_solid [of "b64_encode K b"]
  by (auto simp: base64_ok_def list_all_iff)

lemma lines_save:
  assumes "base64_ok K"
  shows "lines (identity_save K k) = [IDENTITY_HEADER, b64_encode K (verifying_key k), b64_encode K (signing_key k)]"
  by (simp add: identity_save_def lines_Cons header_plain b64_plain [OF assms])

lemma lines_v2:
  assumes "base64_ok K"
  shows "lines (identity_file_v2 K x k) = [IDENTITY_HEADER, codes ''ed25519: '' @ b64_encode K (verifying_key k),
    codes ''x25519: '' @ b64_encode K x, b64_encode K (signing_key k)]"
proof -
  have p: "10 \<notin> set (codes ''ed25519: '' @ b64_encode K b)" "13 \<notin> set (codes ''ed25519: '' @ b64_encode K b)"
    "10 \<notin> set (codes ''x25519: '' @ b64_encode K b)" "13 \<notin> set (codes ''x25519: '' @ b64_encode K b)" for b
    using b64_plain [OF assms] by (simp_all add: codes_def)
  show ?thesis
    using lines_Cons [OF p(1,2)] lines_Cons [OF p(3,4)]
    by (simp add: identity_file_v2_def lines_Cons header_plain b64_plain [OF assms])
qed

lemma identity_load_Ok:
  assumes "identity_load K E content = Ok k"
  shows "length (signing_key k) = 32 \<and> verifying_key k = ed_verifying_key E (signing_key k)"
  using assms by (auto simp: identity_load_def Let_def and_then_Ok_iff split: if_splits)

lemma identity_load_no_panic: "identity_load K E content \<noteq> Panic"
  by (auto simp: identity_load_def Let_def panic_simps idx_def)

text \<open>An encoding with the letters \<open>A\<close> and \<open>B\<close> that decodes by counting.\<close>

definition demo_base64 :: base64_crate where
  "demo_base64 = \<lparr>
     b64_encode = \<lambda>b. concat (map (\<lambda>x. replicate (unat x) 65 @ [66]) b),
     b64_decode = \<lambda>s. Some (map (\<lambda>p. of_nat (length p)) (butlast (split_on 66 s)))\<rparr>"

lemma demo_base64_ok: "base64_ok demo_base64"
proof -
  have s: "split_on (66 :: nat) (concat (map (\<lambda>x. replicate (unat x) 65 @ [66]) b)) = map (\<lambda>x. replicate (unat x) 65) b @ [[]]"
    for b :: bytes
    by (induction b) (simp_all add: split_on_append)
  then show ?thesis
    by (simp add: base64_ok_def demo_base64_def list_all_iff b64_letter_def map_idI)
qed

section \<open>Properties\<close>

text \<open>A saved identity key is loaded as it was, and so is one in the format with prefixed key types, whatever the
  X25519 line says. On any contents, loading does not panic, and a key that it returns has a 32-byte signing
  key and the verifying key that belongs to it, never the one written in the file.\<close>

lemma identity_file_roundtrip:
  assumes "base64_ok K" "length seed = 32"
  shows "identity_load K E (identity_save K (identity_generate E seed)) = Ok (identity_generate E seed)
    \<and> identity_load K E (identity_file_v2 K x25519 (identity_generate E seed)) = Ok (identity_generate E seed)
    \<and> identity_load K E content \<noteq> Panic
    \<and> (identity_load K E content = Ok k \<longrightarrow>
        length (signing_key k) = 32 \<and> verifying_key k = ed_verifying_key E (signing_key k))"
proof (intro conjI impI)
  let ?k = "identity_generate E seed"
  show "identity_load K E (identity_save K ?k) = Ok ?k"
    using assms(2) by (simp add: identity_load_def lines_save [OF assms(1)] b64_plain [OF assms(1)] identity_generate_def)
  have t: "trim (drop 8 (codes ''ed25519: '' @ b64_encode K v)) = b64_encode K v" for v
    using b64_plain(4) [OF assms(1)] by (simp add: codes_def trim_prefix_space)
  show "identity_load K E (identity_file_v2 K x25519 ?k) = Ok ?k"
    using assms(2) t
    by (simp add: identity_load_def lines_v2 [OF assms(1)] b64_plain [OF assms(1)] identity_generate_def starts_with_def codes_def)
qed (use identity_load_Ok identity_load_no_panic in blast)+

end
