(* ===== verification/Net_Addr.thy ===== *)
theory Net_Addr
  imports Rust_Strings
begin

text \<open>
  Addresses and networks as text: the UTF-8 form of a string, \<open>IpAddr::from_str\<close> of the standard library, and the crates
  \<open>ip_network\<close> and \<open>ip_network_table\<close> as records of functions with the laws their documentation states.
\<close>

section \<open>Strings as bytes\<close>

definition utf8_char :: "nat \<Rightarrow> bytes" where
  "utf8_char c =
     (if c < 0x80 then [of_nat c]
      else if c < 0x800 then [of_nat (0xC0 + c div 64), of_nat (0x80 + c mod 64)]
      else if c < 0x10000 then
        [of_nat (0xE0 + c div 4096), of_nat (0x80 + c div 64 mod 64), of_nat (0x80 + c mod 64)]
      else [of_nat (0xF0 + c div 262144), of_nat (0x80 + c div 4096 mod 64), of_nat (0x80 + c div 64 mod 64),
            of_nat (0x80 + c mod 64)])"

definition as_bytes :: "chars \<Rightarrow> bytes" where
  "as_bytes s = concat (map utf8_char s)"

text \<open>\<open>str::len\<close> counts bytes.\<close>

definition str_len :: "chars \<Rightarrow> nat" where
  "str_len s = length (as_bytes s)"

definition trim_end_dots :: "chars \<Rightarrow> chars" where
  "trim_end_dots s = rev (dropWhile (\<lambda>c. c = 46) (rev s))"

definition to_ascii_lowercase :: "chars \<Rightarrow> chars" where
  "to_ascii_lowercase s = map ascii_lower s"

lemma as_bytes_simps [simp]:
  "as_bytes [] = []"
  "as_bytes (c # s) = utf8_char c @ as_bytes s"
  "as_bytes (s @ t) = as_bytes s @ as_bytes t"
  by (simp_all add: as_bytes_def)

lemma str_len_simps [simp]:
  "str_len [] = 0"
  "str_len (c # s) = length (utf8_char c) + str_len s"
  "str_len (s @ t) = str_len s + str_len t"
  by (simp_all add: str_len_def)

lemma utf8_char_not_Nil [simp]: "utf8_char c \<noteq> []"
  by (simp add: utf8_char_def)

lemma length_utf8_char [simp]: "length (utf8_char c) = utf8_len c"
  by (simp add: utf8_char_def utf8_len_def)

lemma utf8_len_pos [simp]: "0 < utf8_len c" "utf8_len c \<noteq> 0"
  by (simp_all add: utf8_len_def)

lemma str_len_0 [simp]: "str_len s = 0 \<longleftrightarrow> s = []"
  by (cases s) simp_all

lemma utf8_char_dot [simp]: "utf8_char 46 = [46]"
  by (simp add: utf8_char_def)

text \<open>No byte of a longer sequence looks like a dot, so a dot in the bytes is a dot in the string.\<close>

lemma last_utf8_char: "last (utf8_char c) = 46 \<longleftrightarrow> c = 46"
proof -
  have dot: "(of_nat n :: u8) = 46 \<longleftrightarrow> n mod 256 = 46" for n
    by (simp add: word_unat_eq_iff)
  have "(0x80 + c mod 64) mod 256 = 0x80 + c mod (64 :: nat)"
    using mod_less_divisor [of 64 c] by (intro mod_less) linarith
  then show ?thesis
    unfolding utf8_char_def by (simp add: dot del: of_nat_add)
qed

lemma last_as_bytes: "s \<noteq> [] \<Longrightarrow> last (as_bytes s) = last (utf8_char (last s))"
  by (induction s) (auto simp: as_bytes_def)

text \<open>Suffixes of one string with the same number of bytes are equal.\<close>

lemma suffix_str_len_eq:
  assumes "q1 @ p1 = q2 @ p2" "str_len p1 = str_len p2"
  shows "p1 = p2"
proof -
  from assms(1) consider us where "q1 @ us = q2" "p1 = us @ p2" | us where "q1 = q2 @ us" "us @ p1 = p2"
    by (metis append_eq_append_conv2)
  then show ?thesis using assms(2) by cases auto
qed

section \<open>Strings from bytes\<close>

text \<open>The characters of a string, given its bytes; the inverse of \<^const>\<open>as_bytes\<close>.\<close>

fun utf8_chars :: "bytes \<Rightarrow> chars" where
  "utf8_chars [] = []"
| "utf8_chars (b # bs) =
     (let n = unat b
      in if n < 0x80 then n # utf8_chars bs
         else if n < 0xE0 then
           (case bs of c # r \<Rightarrow> (n mod 32 * 64 + unat c mod 64) # utf8_chars r | _ \<Rightarrow> [])
         else if n < 0xF0 then
           (case bs of c # d # r \<Rightarrow> (n mod 16 * 4096 + unat c mod 64 * 64 + unat d mod 64) # utf8_chars r | _ \<Rightarrow> [])
         else
           (case bs of
              c # d # e # r \<Rightarrow> (n mod 8 * 262144 + unat c mod 64 * 4096 + unat d mod 64 * 64 + unat e mod 64) # utf8_chars r
            | _ \<Rightarrow> []))"

declare utf8_chars.simps(2) [simp del]

lemma utf8_chars_ascii [simp]: "unat b < 0x80 \<Longrightarrow> utf8_chars (b # bs) = unat b # utf8_chars bs"
  by (simp add: utf8_chars.simps)

lemma unat_byte: "n < 256 \<Longrightarrow> unat (of_nat n :: u8) = n"
  by (simp add: unat_of_nat)

lemma lead_bits:
  "x < 32 \<Longrightarrow> (0xC0 + x) mod 32 = (x :: nat)" "x < 16 \<Longrightarrow> (0xE0 + x) mod 16 = (x :: nat)" "x < 8 \<Longrightarrow> (0xF0 + x) mod 8 = (x :: nat)"
  "(0x80 + x mod 64) mod 64 = (x :: nat) mod 64"
  using mod_mult_self1 [of x 6 32] mod_mult_self1 [of x 14 16] mod_mult_self1 [of x 30 8] mod_mult_self1 [of "x mod 64" 2 64]
  by (simp_all add: add.commute)

lemma six_bits:
  "c div 64 * 64 + c mod 64 = (c :: nat)"
  "c div 4096 * 4096 + c div 64 mod 64 * 64 + c mod 64 = (c :: nat)"
  "c div 262144 * 262144 + c div 4096 mod 64 * 4096 + c div 64 mod 64 * 64 + c mod 64 = (c :: nat)"
proof -
  have d: "c div 4096 = c div 64 div 64" "c div 262144 = c div 4096 div 64"
    by (simp_all add: div_mult2_eq [symmetric])
  have 1: "c div 64 * 64 + c mod 64 = c" by simp
  have 2: "c div 4096 * 64 + c div 64 mod 64 = c div 64" unfolding d(1) by simp
  have 3: "c div 262144 * 64 + c div 4096 mod 64 = c div 4096" unfolding d(2) by simp
  show "c div 64 * 64 + c mod 64 = c" by (rule 1)
  show "c div 4096 * 4096 + c div 64 mod 64 * 64 + c mod 64 = c" using 1 2 by linarith
  show "c div 262144 * 262144 + c div 4096 mod 64 * 4096 + c div 64 mod 64 * 64 + c mod 64 = c" using 1 2 3 by linarith
qed

lemma utf8_chars_char:
  assumes "c < 0x110000"
  shows "utf8_chars (utf8_char c @ r) = c # utf8_chars r"
proof -
  note bits = unat_byte lead_bits six_bits
  consider "c < 0x80" | "0x80 \<le> c" "c < 0x800" | "0x800 \<le> c" "c < 0x10000" | "0x10000 \<le> c" by linarith
  then show ?thesis
  proof cases
    case 1
    then show ?thesis by (simp add: utf8_char_def unat_byte)
  next
    case 2
    then have "c div 64 < 32" by (simp add: less_mult_imp_div_less)
    then show ?thesis using 2 by (simp add: utf8_char_def utf8_chars.simps(2) bits del: of_nat_add)
  next
    case 3
    then have "c div 4096 < 16" by (simp add: less_mult_imp_div_less)
    then show ?thesis using 3 by (simp add: utf8_char_def utf8_chars.simps(2) bits del: of_nat_add)
  next
    case 4
    then have "c div 262144 < 5" using assms by (simp add: less_mult_imp_div_less)
    then show ?thesis using 4 by (simp add: utf8_char_def utf8_chars.simps(2) bits del: of_nat_add)
  qed
qed

text \<open>The characters that a Rust string can hold are the code points without the surrogates.\<close>

definition is_char :: "nat \<Rightarrow> bool" where
  "is_char c \<longleftrightarrow> c < 0xD800 \<or> 0xE000 \<le> c \<and> c < 0x110000"

lemma div_window:
  fixes c :: nat
  assumes "c div 4096 = k"
  shows "c div 64 mod 64 = c div 64 - k * 64" "k * 4096 \<le> c" "c < (k + 1) * 4096"
proof -
  have d: "k = c div 64 div 64" unfolding assms [symmetric] by (simp add: div_mult2_eq [symmetric])
  show "c div 64 mod 64 = c div 64 - k * 64" unfolding d by (simp add: minus_div_mult_eq_mod)
  have "c = k * 4096 + c mod 4096" "c mod 4096 < 4096" using assms by auto
  then show "k * 4096 \<le> c" "c < (k + 1) * 4096" by (linarith, simp add: algebra_simps)
qed

lemma three_byte_range:
  fixes c :: nat
  assumes "0x800 \<le> c" "c < 0x10000" "c < 0xD800 \<or> 0xE000 \<le> c"
  shows "c div 4096 < 16" "c div 4096 = 0 \<Longrightarrow> 32 \<le> c div 64 mod 64" "c div 4096 = 13 \<Longrightarrow> c div 64 mod 64 < 32"
proof -
  show "c div 4096 < 16" using assms(2) by (simp add: less_mult_imp_div_less)
  show "32 \<le> c div 64 mod 64" if "c div 4096 = 0"
    using div_window(1) [OF that] div_le_mono [OF assms(1), of 64] by simp
  show "c div 64 mod 64 < 32" if k: "c div 4096 = 13"
  proof -
    have "c < 0xD800" using div_window(3) [OF k] assms(3) by simp
    then have "c div 64 < 0x360" by (simp add: less_mult_imp_div_less)
    then show ?thesis using div_window(1) [OF k] by simp
  qed
qed

lemma four_byte_range:
  fixes c :: nat
  assumes "0x10000 \<le> c" "c < 0x110000"
  shows "c div 262144 < 5" "c div 262144 = 0 \<Longrightarrow> 16 \<le> c div 4096 mod 64" "c div 262144 = 4 \<Longrightarrow> c div 4096 mod 64 < 16"
proof -
  have k: "c div 64 div 4096 = c div 262144" "c div 64 div 64 = c div 4096" by (simp_all add: div_mult2_eq [symmetric])
  show "c div 262144 < 5" using assms(2) by (simp add: less_mult_imp_div_less)
  show "16 \<le> c div 4096 mod 64" if "c div 262144 = 0"
    using div_window(1) [of "c div 64" 0] that div_le_mono [OF assms(1), of 4096] by (simp add: k)
  show "c div 4096 mod 64 < 16" if "c div 262144 = 4"
  proof -
    have "c div 4096 < 0x110" using assms(2) by (simp add: less_mult_imp_div_less)
    then show ?thesis using div_window(1) [of "c div 64" 4] that by (simp add: k)
  qed
qed

lemma utf8_valid_char:
  assumes "is_char c"
  shows "utf8_valid (utf8_char c @ r) = utf8_valid r"
proof -
  note bytes = word_le_nat_alt unat_byte utf8_cont_def word_unat_eq_iff
  consider "c < 0x80" | "0x80 \<le> c" "c < 0x800" | "0x800 \<le> c" "c < 0x10000" | "0x10000 \<le> c" by linarith
  then show ?thesis
  proof cases
    case 1
    then show ?thesis by (simp add: utf8_char_def bytes del: of_nat_add)
  next
    case 2
    then have "c div 64 < 32" "2 \<le> c div 64" using div_le_mono [of 128 c 64] by (simp_all add: less_mult_imp_div_less)
    moreover have "c mod 64 < 64" by simp
    ultimately show ?thesis using 2 by (auto simp: utf8_char_def bytes simp del: of_nat_add)
  next
    case 3
    then have r: "c div 4096 < 16" "c div 4096 = 0 \<Longrightarrow> 32 \<le> c div 64 mod 64" "c div 4096 = 13 \<Longrightarrow> c div 64 mod 64 < 32"
      using three_byte_range [of c] assms by (auto simp: is_char_def)
    have b: "c div 64 mod 64 < 64" "c mod 64 < 64" by simp_all
    show ?thesis using 3 r b by (auto simp: utf8_char_def bytes simp del: of_nat_add)
  next
    case 4
    then have r: "c div 262144 < 5" "c div 262144 = 0 \<Longrightarrow> 16 \<le> c div 4096 mod 64" "c div 262144 = 4 \<Longrightarrow> c div 4096 mod 64 < 16"
      using four_byte_range [of c] assms by (auto simp: is_char_def)
    have b: "c div 4096 mod 64 < 64" "c div 64 mod 64 < 64" "c mod 64 < 64" by simp_all
    show ?thesis using 4 r b by (auto simp: utf8_char_def bytes simp del: of_nat_add)
  qed
qed

lemma utf8_valid_as_bytes: "list_all is_char s \<Longrightarrow> utf8_valid (as_bytes s)"
  by (induction s) (simp_all add: utf8_valid_char del: utf8_valid.simps(2))

lemma utf8_chars_as_bytes: "list_all is_char s \<Longrightarrow> utf8_chars (as_bytes s) = s"
  by (induction s) (auto simp: utf8_chars_char is_char_def)

section \<open>Numbers\<close>

text \<open>A number as \<open>format!\<close> writes it.\<close>

fun decimal :: "nat \<Rightarrow> chars" where
  "decimal n = (if n < 10 then [48 + n] else decimal (n div 10) @ [48 + n mod 10])"

declare decimal.simps [simp del]

lemma decimal_digits: "c \<in> set (decimal n) \<Longrightarrow> 48 \<le> c \<and> c \<le> 57"
proof (induction n rule: decimal.induct)
  case (1 n)
  then show ?case by (subst (asm) decimal.simps [of n]) (auto split: if_splits)
qed

lemma decimal_value: "foldl (\<lambda>a c. a * 10 + (c - 48)) 0 (decimal n) = n"
proof (induction n rule: decimal.induct)
  case (1 n)
  then show ?case by (subst decimal.simps) auto
qed

lemma decimal_inject [simp]: "decimal m = decimal n \<longleftrightarrow> m = n"
  by (metis decimal_value)

section \<open>Addresses\<close>

text \<open>
  \<open>IpAddr::from_str\<close>: an IPv4 address, or the groups of an IPv6 address. \<open>read_groups k i s\<close> reads at most \<open>k\<close> groups, the
  \<open>i\<close>-th and later ones behind a colon; an embedded IPv4 address counts for two and ends the sequence.
\<close>

definition read_given_char :: "nat \<Rightarrow> chars \<Rightarrow> chars option" where
  "read_given_char c s = (case s of x # r \<Rightarrow> if x = c then Some r else None | [] \<Rightarrow> None)"

definition hex_digit :: "nat \<Rightarrow> nat option" where
  "hex_digit c =
     (if 48 \<le> c \<and> c \<le> 57 then Some (c - 48)
      else if 97 \<le> c \<and> c \<le> 102 then Some (c - 87)
      else if 65 \<le> c \<and> c \<le> 70 then Some (c - 55) else None)"

definition read_hex_group :: "chars \<Rightarrow> (u16 \<times> chars) option" where
  "read_hex_group s =
     (let ds = takeWhile (\<lambda>c. hex_digit c \<noteq> None) s
      in if ds = [] \<or> 4 < length ds then None
         else Some (of_nat (foldl (\<lambda>a c. a * 16 + the (hex_digit c)) 0 ds), drop (length ds) s))"

definition read_octet :: "chars \<Rightarrow> (u8 \<times> chars) option" where
  "read_octet s =
     (let ds = takeWhile (\<lambda>c. 48 \<le> c \<and> c \<le> 57) s
      in case parse_octet ds of Some b \<Rightarrow> Some (b, drop (length ds) s) | None \<Rightarrow> None)"

definition read_separator :: "nat \<Rightarrow> nat \<Rightarrow> (chars \<Rightarrow> ('a \<times> chars) option) \<Rightarrow> chars \<Rightarrow> ('a \<times> chars) option" where
  "read_separator sep i inner s =
     (if 0 < i then case read_given_char sep s of Some r \<Rightarrow> inner r | None \<Rightarrow> None else inner s)"

fun read_octets :: "nat \<Rightarrow> nat \<Rightarrow> chars \<Rightarrow> (bytes \<times> chars) option" where
  "read_octets 0 i s = Some ([], s)"
| "read_octets (Suc k) i s =
     (case read_separator 46 i read_octet s of
        None \<Rightarrow> None
      | Some (b, r) \<Rightarrow> (case read_octets k (Suc i) r of None \<Rightarrow> None | Some (bs, r') \<Rightarrow> Some (b # bs, r')))"

fun read_groups :: "nat \<Rightarrow> nat \<Rightarrow> chars \<Rightarrow> u16 list \<times> bool \<times> chars" where
  "read_groups 0 i s = ([], False, s)"
| "read_groups (Suc k) i s =
     (case (if 0 < k then read_separator 58 i (read_octets 4 0) s else None) of
        Some (bs, r) \<Rightarrow> ([from_be_bytes (take 2 bs), from_be_bytes (drop 2 bs)], True, r)
      | None \<Rightarrow>
          (case read_separator 58 i read_hex_group s of
             Some (g, r) \<Rightarrow> (let (gs, v4, r') = read_groups k (Suc i) r in (g # gs, v4, r'))
           | None \<Rightarrow> ([], False, s)))"

definition ipv6_from_groups :: "u16 list \<Rightarrow> ipv6_addr" where
  "ipv6_from_groups gs = ipv6_from_octets (concat (map (to_be_bytes 2) gs))"

definition parse_ipv6_addr :: "chars \<Rightarrow> ipv6_addr option" where
  "parse_ipv6_addr s =
     (let (head, v4, r) = read_groups 8 0 s
      in if length head = 8 then if r = [] then Some (ipv6_from_groups head) else None
         else if v4 then None
         else case Option.bind (read_given_char 58 r) (read_given_char 58) of
                None \<Rightarrow> None
              | Some r2 \<Rightarrow>
                  (let (tail, _, r3) = read_groups (8 - (length head + 1)) 0 r2
                   in if r3 = []
                      then Some (ipv6_from_groups (head @ replicate (8 - length head - length tail) 0 @ tail))
                      else None))"

definition parse_ip_addr :: "chars \<Rightarrow> ip_addr option" where
  "parse_ip_addr s =
     (case parse_ipv4_addr s of
        Some a \<Rightarrow> Some (V4 a)
      | None \<Rightarrow> (case parse_ipv6_addr s of Some a \<Rightarrow> Some (V6 a) | None \<Rightarrow> None))"

section \<open>Networks\<close>

text \<open>
  The \<open>ip_network\<close> crate: parsing of CIDR notation, \<open>IpNetwork::new\<close>, containment and the length of the mask; and
  the longest-prefix table of \<open>ip_network_table\<close>.
\<close>

record 'n network_crate =
  net_parse :: "chars \<Rightarrow> 'n option"
  net_new :: "ip_addr \<Rightarrow> nat \<Rightarrow> 'n option"
  net_contains :: "'n \<Rightarrow> ip_addr \<Rightarrow> bool"
  net_masklen :: "'n \<Rightarrow> nat"

record ('n, 'v, 't) table_crate =
  table_new :: 't
  table_insert :: "'t \<Rightarrow> 'n \<Rightarrow> 'v \<Rightarrow> 't"
  longest_match :: "'t \<Rightarrow> ip_addr \<Rightarrow> ('n \<times> 'v) option"

text \<open>
  Documented behaviour. Networks of one mask length are disjoint, and a network with all bits of an address in its
  mask holds that address only. A table that was filled by insertions finds an address exactly if one of the inserted
  networks contains it, and then the containing network with the longest mask, with the value inserted last for it.
\<close>

definition network_ok :: "'n network_crate \<Rightarrow> bool" where
  "network_ok N \<longleftrightarrow>
     (\<forall>n m ip. net_contains N n ip \<longrightarrow> net_contains N m ip \<longrightarrow> net_masklen N n = net_masklen N m \<longrightarrow> n = m)
   \<and> (\<forall>a. \<exists>n. net_new N (V4 a) 32 = Some n \<and> (\<forall>ip. net_contains N n ip \<longleftrightarrow> ip = V4 a))
   \<and> (\<forall>a. \<exists>n. net_new N (V6 a) 128 = Some n \<and> (\<forall>ip. net_contains N n ip \<longleftrightarrow> ip = V6 a))"

definition table_of :: "('n, 'v, 't) table_crate \<Rightarrow> ('n \<times> 'v) list \<Rightarrow> 't" where
  "table_of T ins = foldl (\<lambda>t (n, v). table_insert T t n v) (table_new T) ins"

definition table_ok :: "'n network_crate \<Rightarrow> ('n, 'v, 't) table_crate \<Rightarrow> bool" where
  "table_ok N T \<longleftrightarrow>
     (\<forall>ins ip. case longest_match T (table_of T ins) ip of
        None \<Rightarrow> (\<forall>n \<in> fst ` set ins. \<not> net_contains N n ip)
      | Some (n, v) \<Rightarrow> map_of (rev ins) n = Some v \<and> net_contains N n ip
          \<and> (\<forall>m \<in> fst ` set ins. net_contains N m ip \<longrightarrow> net_masklen N m \<le> net_masklen N n))"

lemma table_of_snoc: "table_insert T (table_of T ins) n v = table_of T (ins @ [(n, v)])"
  by (simp add: table_of_def)

lemma table_of_Nil: "table_new T = table_of T []"
  by (simp add: table_of_def)

lemma table_okD:
  assumes "table_ok N T"
  shows "case longest_match T (table_of T ins) ip of
      None \<Rightarrow> (\<forall>n \<in> fst ` set ins. \<not> net_contains N n ip)
    | Some (n, v) \<Rightarrow> map_of (rev ins) n = Some v \<and> net_contains N n ip
        \<and> (\<forall>m \<in> fst ` set ins. net_contains N m ip \<longrightarrow> net_masklen N m \<le> net_masklen N n)"
  using assms [unfolded table_ok_def, THEN spec, THEN spec, of ins ip] .

lemma longest_match_Some:
  assumes "table_ok N T" "longest_match T (table_of T ins) ip = Some (n, v)"
  shows "map_of (rev ins) n = Some v" "net_contains N n ip"
    "\<And>m. m \<in> fst ` set ins \<Longrightarrow> net_contains N m ip \<Longrightarrow> net_masklen N m \<le> net_masklen N n"
  using table_okD [OF assms(1), of ins ip] assms(2) by auto

lemma longest_match_None:
  assumes "table_ok N T"
  shows "longest_match T (table_of T ins) ip = None \<longleftrightarrow> (\<forall>n \<in> fst ` set ins. \<not> net_contains N n ip)"
proof (cases "longest_match T (table_of T ins) ip")
  case None
  then show ?thesis using table_okD [OF assms, of ins ip] by simp
next
  case (Some p)
  then obtain n v where p: "longest_match T (table_of T ins) ip = Some (n, v)" by (cases p) auto
  have "map_of (rev ins) n = Some v" by (rule longest_match_Some(1) [OF assms p])
  then have "n \<in> fst ` set ins" by (auto dest!: map_of_SomeD intro: rev_image_eqI)
  then show ?thesis using longest_match_Some(2) [OF assms p] p by auto
qed

section \<open>An instance\<close>

text \<open>
  Networks as an address without host bits and a mask length, tables as the list of their insertions.
\<close>

type_synonym cidr = "ip_addr \<times> nat"

fun mask_to :: "nat \<Rightarrow> ip_addr \<Rightarrow> ip_addr option" where
  "mask_to l (V4 a) = (if l \<le> 32 then Some (V4 (push_bit (32 - l) (drop_bit (32 - l) a))) else None)"
| "mask_to l (V6 a) = (if l \<le> 128 then Some (V6 (push_bit (128 - l) (drop_bit (128 - l) a))) else None)"

definition demo_net_new :: "ip_addr \<Rightarrow> nat \<Rightarrow> cidr option" where
  "demo_net_new ip l = (if mask_to l ip = Some ip then Some (ip, l) else None)"

definition demo_net_parse :: "chars \<Rightarrow> cidr option" where
  "demo_net_parse s =
     (case split_on 47 s of
        [a, l] \<Rightarrow> (case (parse_ip_addr a, parse_u8 l) of
                     (Some ip, Some n) \<Rightarrow> demo_net_new ip (unat n)
                   | _ \<Rightarrow> None)
      | _ \<Rightarrow> None)"

definition demo_net :: "cidr network_crate" where
  "demo_net = \<lparr>net_parse = demo_net_parse, net_new = demo_net_new,
     net_contains = (\<lambda>(a, l) ip. mask_to l ip = Some a), net_masklen = snd\<rparr>"

fun longest :: "cidr \<Rightarrow> cidr list \<Rightarrow> cidr" where
  "longest n [] = n"
| "longest n (m # ms) = longest (if snd n < snd m then m else n) ms"

definition demo_longest_match :: "(cidr \<times> 'v) list \<Rightarrow> ip_addr \<Rightarrow> (cidr \<times> 'v) option" where
  "demo_longest_match t ip =
     (case filter (\<lambda>n. net_contains demo_net n ip) (map fst t) of
        [] \<Rightarrow> None
      | n # ns \<Rightarrow> (let m = longest n ns in map_option (Pair m) (map_of (rev t) m)))"

definition demo_table :: "(cidr, 'v, (cidr \<times> 'v) list) table_crate" where
  "demo_table = \<lparr>table_new = [], table_insert = (\<lambda>t n v. t @ [(n, v)]),
     longest_match = demo_longest_match\<rparr>"

lemma longest_in: "longest n ms \<in> set (n # ms)"
  by (induction n ms rule: longest.induct) auto

lemma longest_ge: "m \<in> set (n # ms) \<Longrightarrow> snd m \<le> snd (longest n ms)"
proof (induction ms arbitrary: n m)
  case (Cons k ks)
  let ?b = "if snd n < snd k then k else n"
  have "snd ?b \<le> snd (longest ?b ks)" by (rule Cons.IH) simp
  moreover have "m \<in> set ks \<Longrightarrow> snd m \<le> snd (longest ?b ks)" by (rule Cons.IH) simp
  ultimately show ?case using Cons.prems by (auto split: if_splits)
qed simp

lemma mask_all [simp]:
  "mask_to 32 ip = Some (V4 a) \<longleftrightarrow> ip = V4 a"
  "mask_to 128 ip = Some (V6 b) \<longleftrightarrow> ip = V6 b"
  by (cases ip; simp)+

lemma demo_net_ok: "network_ok demo_net"
  unfolding network_ok_def by (auto simp: demo_net_def demo_net_new_def)

lemma demo_masklen [simp]: "net_masklen demo_net = snd"
  by (simp add: demo_net_def)

lemma demo_table_of [simp]: "table_of demo_table ins = ins"
proof -
  have "foldl (\<lambda>t (n, v). t @ [(n, v)]) acc ins = acc @ ins" for acc
    by (induction ins arbitrary: acc) auto
  then show ?thesis by (simp add: table_of_def demo_table_def)
qed

lemma demo_longest_match [simp]: "longest_match demo_table = demo_longest_match"
  by (simp add: demo_table_def)

lemma demo_table_ok: "table_ok demo_net demo_table"
  unfolding table_ok_def
proof (intro allI)
  fix ins :: "(cidr \<times> 'v) list" and ip
  let ?c = "filter (\<lambda>n. net_contains demo_net n ip) (map fst ins)"
  show "case longest_match demo_table (table_of demo_table ins) ip of
        None \<Rightarrow> (\<forall>n \<in> fst ` set ins. \<not> net_contains demo_net n ip)
      | Some (n, v) \<Rightarrow> map_of (rev ins) n = Some v \<and> net_contains demo_net n ip
          \<and> (\<forall>m \<in> fst ` set ins. net_contains demo_net m ip \<longrightarrow> net_masklen demo_net m \<le> net_masklen demo_net n)"
  proof (cases ?c)
    case Nil
    then show ?thesis by (auto simp: demo_longest_match_def filter_empty_conv)
  next
    case (Cons n ns)
    let ?m = "longest n ns"
    have m: "?m \<in> set ?c" using longest_in [of n ns] Cons by simp
    then have mc: "net_contains demo_net ?m ip" by simp
    have "?m \<in> fst ` set (rev ins)" using m by auto
    then obtain v where v: "map_of (rev ins) ?m = Some v" by (metis map_of_eq_None_iff not_None_eq)
    have "snd k \<le> snd ?m" if "k \<in> fst ` set ins" "net_contains demo_net k ip" for k
    proof -
      have "k \<in> set ?c" using that by auto
      then show ?thesis using longest_ge [of k n ns] Cons by simp
    qed
    then show ?thesis
      using mc v Cons by (simp add: demo_longest_match_def)
  qed
qed

text \<open>The definitions that a concrete string or address is evaluated with.\<close>

lemmas string_evals = codes_def trim_def is_whitespace_def strip_prefix_def to_ascii_lowercase_def ascii_lower_def
  trim_end_dots_def ends_with_def str_len_def as_bytes_def utf8_char_def

lemmas addr_evals = demo_net_def demo_net_parse_def demo_net_new_def parse_u8_def parse_ip_addr_def parse_ipv4_addr_def
  parse_octet_def ipv4_new_def from_be_bytes_def from_le_bytes_def

end
