(* ===== verification/Builtin_Domains.thy ===== *)
theory Builtin_Domains
  imports Rust_Strings
begin

text \<open>
  The compiled-in domain lists of \<open>rvpn-split-tunnel/src/builtin_domains.rs\<close> and the functions that look a name up in
  them, with the parent domains of the name. They belong to the feature \<open>builtin-domains\<close>, which the desktop, macOS and
  Android builds enable; the iOS build of \<open>rvpn-mobile\<close> does not, and there the three matching functions are the
  constant \<open>false\<close> of \<open>split_tunnel.rs\<close>.
\<close>

section \<open>The lists\<close>

definition CHINA_DOMAINS :: "chars list" where
  "CHINA_DOMAINS = map codes [
    ''alicdn.com'', ''aliyun.com'', ''aliyuncs.com'', ''taobao.com'', ''tmall.com'', ''jd.com'', ''360buy.com'',
     ''360buyimg.com'', ''baidu.com'', ''bdimg.com'', ''bdstatic.com'', ''bcebos.com'', ''weibo.com'',
     ''sina.com.cn'', ''sinaimg.cn'', ''sinajs.cn'', ''qq.com'', ''tencent.com'', ''qpic.cn'', ''qlogo.cn'',
     ''gtimg.cn'', ''idqqimg.com'', ''wechat.com'', ''weixin.com'', ''wx.qq.com'', ''bilibili.com'',
     ''bilivideo.com'', ''hdslb.com'', ''youku.com'', ''ykimg.com'', ''iqiyi.com'', ''qy.net'', ''iqiyipic.com'',
     ''douyin.com'', ''iesdouyin.com'', ''douyinvod.com'', ''kuaishou.com'', ''ksapisrv.com'', ''xiami.com'',
     ''xiami.net'', ''netease.com'', ''126.net'', ''127.net'', ''163.com'', ''126.com'', ''yeah.net'', ''sohu.com'',
     ''sogou.com'', ''sogoucdn.com'', ''360.cn'', ''360.com'', ''360safe.com'', ''qhimg.com'', ''qhimgs.com'',
     ''qhmsg.com'', ''qhres.com'', ''qihucdn.com'', ''meituan.com'', ''meituan.net'', ''dianping.com'',
     ''xiaohongshu.com'', ''xhscdn.com'', ''zhihu.com'', ''zhimg.com'', ''v2ex.com'', ''douban.com'',
     ''doubanio.com'', ''jianshu.com'', ''jianshu.io'', ''csdn.net'', ''csdnimg.cn'', ''oschina.net'', ''gitee.com'',
     ''coding.net'', ''toutiao.com'', ''toutiaoimg.com'', ''toutiaocloud.com'', ''toutiaovod.com'', ''snssdk.com'',
     ''bytedance.com'', ''byteimg.com'', ''byted-static.com'', ''bytescm.com'', ''bytegoofy.com'', ''feishu.cn'',
     ''larksuite.com'', ''dingtalk.com'', ''alibaba.com'', ''alibaba-inc.com'', ''alicdn.net'', ''alibabacloud.com'',
     ''aliyun-inc.com'', ''alipay.com'', ''alipayobjects.com'', ''antfin.com'', ''antgroup.com'', ''mybank.cn'',
     ''cmbchina.com'', ''cmbimg.com'', ''icbc.com.cn'', ''ccb.com'', ''boc.cn'', ''bankcomm.com'', ''abchina.com'',
     ''psbc.com'', ''pingan.com'', ''pingan.com.cn'', ''amap.com'', ''autonavi.com'', ''gaode.com'',
     ''baidumap.com'', ''map.baidu.com'', ''qqmap.com'', ''map.qq.com'', ''here.com'', ''herecdn.com'',
     ''upyun.com'', ''upaiyun.com'', ''qiniu.com'', ''qiniudn.com'', ''qiniucdn.com'', ''qnssl.com'', ''qbox.me'',
     ''baidupcs.com'', ''baiducontent.com'', ''yun.baidu.com'', ''pan.baidu.com'', ''weiyun.com'', ''myqcloud.com'',
     ''qcloud.com'', ''tencent-cloud.com'', ''tencentcs.com'', ''tencentcos.cn'', ''hwclouds.com'',
     ''huaweicloud.com'', ''huaweicloud.cn'', ''hicloud.com'', ''dbankcloud.com'', ''dbankcdn.com'',
     ''aliyundrive.com'', ''alipan.com'', ''yunpan.cn'', ''115.com'', ''115cdn.com'', ''115cdn.net'', ''lanzou.com'',
     ''lanzoui.com'', ''lanzoux.com'', ''ctfile.com'', ''cowtransfer.com'', ''feimaoyun.com'', ''feimaoyun.cn'',
     ''cnki.net'', ''wanfangdata.com.cn'', ''vip.com'', ''vipshop.com'', ''jd.hk'', ''yixun.com'', ''suning.com'',
     ''suning.cn'', ''suningcloud.com'', ''gome.com.cn'', ''gomeplus.com'', ''dangdang.com'', ''amazon.cn'',
     ''z.cn'', ''ele.me'', ''elemecdn.com'', ''ele.me'', ''starbucks.com.cn'', ''mcdonalds.com.cn'', ''kfc.com.cn'',
     ''pizzahut.com.cn'', ''dominos.com.cn'', ''sf-express.com'', ''sf-express.cn'', ''zto.com'', ''ztocdn.com'',
     ''yto.net.cn'', ''ytocargo.com'', ''sto.cn'', ''best.com.cn'', ''jd-express.com'', ''jdwl.com'', ''deppon.com'',
     ''deppon.cn'', ''tnt.com.cn'', ''dhl.com.cn'', ''ups.com.cn'', ''fedex.com.cn'', ''ems.com.cn'',
     ''china-post.com.cn'', ''chinapost.com.cn'', ''10086.cn'', ''chinamobile.com'', ''10010.com'',
     ''chinaunicom.com'', ''189.cn'', ''chinatelecom.com.cn'', ''chinatelecom.cn'', ''mi.com'', ''xiaomi.com'',
     ''xiaomi.cn'', ''mi-img.com'', ''miui.com'', ''miwifi.com'', ''mifile.cn'', ''xiaomiyoupin.com'', ''youpin.cn'',
     ''huawei.com'', ''huawei.cn'', ''hicloud.com'', ''hihonor.com'', ''honor.cn'', ''vmall.com'', ''oppo.com'',
     ''oppo.cn'', ''oppomobile.com'', ''coloros.com'', ''realme.com'', ''realmebbs.com'', ''vivo.com'', ''vivo.cn'',
     ''vivo.com.cn'', ''bbk.com'', ''oneplus.com'', ''oneplus.cn'', ''oneplus.net'', ''oneplusbbs.com'',
     ''meizu.com'', ''meizu.cn'', ''flyme.cn'', ''flyme.com'', ''lenovo.com'', ''lenovo.com.cn'', ''lenovomm.cn'',
     ''zuk.com'', ''zuk.cn'', ''motorola.com.cn'', ''zte.com.cn'', ''zte.com'', ''nubia.com'', ''nubia.cn'',
     ''redmagic.com'', ''asus.com.cn'', ''asus.cn'', ''dell.com.cn'', ''hp.com.cn'', ''lenovopress.com'',
     ''thinkpad.com'', ''thinkpad.com.cn'', ''apple.com.cn'', ''icloud.com.cn'', ''me.com.cn'', ''mzstatic.com'',
     ''apple.com'', ''icloud.com'', ''cdn-apple.com'', ''push-apple.com.akadns.net'',
     ''itunes-apple.com.akadns.net'', ''cdn-apple.com.akadns.net'', ''idms-apple.com.akadns.net'',
     ''apple.com.edgekey.net'', ''apple.com.edgekey.net.globalredir.akadns.net'', ''entrust.net'', ''digicert.com'',
     ''verisign.net'', ''akamaiedge.net'', ''akadns.net'', ''edgekey.net'', ''sony.com.cn'', ''samsung.com.cn'',
     ''samsung.cn'', ''lg.com.cn'', ''panasonic.cn'', ''philips.com.cn'', ''philips.cn'', ''bosch.com.cn'',
     ''siemens.com.cn'', ''electrolux.com.cn'', ''haier.com'', ''haier.net'', ''casarte.com.cn'', ''leader.com.cn'',
     ''midea.com'', ''midea.com.cn'', ''gree.com.cn'', ''gree.com'', ''auxgroup.com'', ''chigo.cn'', ''hisense.com'',
     ''hisense.cn'', ''tcl.com'', ''tcl.com.cn'', ''skyworth.com'', ''skyworth.cn'', ''changhong.com'',
     ''konka.com'', ''konka.com.cn'', ''joyoung.com'', ''joyoung.com.cn'', ''supor.com.cn'', ''robam.com'',
     ''fotile.com'', ''fotile.cn'', ''vatti.com.cn'', ''sacon.cn'', ''macro.com.cn'', ''vanward.com'',
     ''rinnai.com.cn'', ''noritz.com.cn'', ''ariston.com.cn'', ''buderus.cn'', ''viessmann.cn'', ''vaillant.com.cn'',
     ''sika.com.cn'', ''wilo.com.cn'', ''grundfos.cn'', ''danfoss.com.cn'', ''emerson.cn'', ''honeywell.com.cn'',
     ''schneider-electric.cn'', ''schneider-electric.com.cn'', ''abb.com.cn'', ''siemens.com.cn'',
     ''mitsubishielectric.com.cn'', ''panasonic.cn'', ''omron.com.cn'', ''yaskawa.com.cn'', ''fanuc.com.cn'',
     ''kuka.com.cn'', ''abb.cn'', ''kuka.cn'', ''yaskawa.cn'', ''fanuc.cn'', ''omron.cn'', ''mitsubishielectric.cn'',
     ''nidec.com.cn'', ''sany.com.cn'', ''zoomlion.com.cn'', ''xcmg.com'', ''xcmglift.com'', ''liugong.com'',
     ''liugong.cn'', ''sdlg.cn'', ''sdlg.com'', ''sdlg.cn'', ''sdlg.com.cn'']"

definition AD_DOMAINS :: "chars list" where
  "AD_DOMAINS = map codes [
    ''doubleclick.net'', ''googleadservices.com'', ''googlesyndication.com'', ''googletagmanager.com'',
     ''google-analytics.com'', ''adservice.google.com'', ''pagead2.googlesyndication.com'',
     ''tpc.googlesyndication.com'', ''partner.googleadservices.com'', ''ads.google.com'', ''ad.doubleclick.net'',
     ''pubads.g.doubleclick.net'', ''googletagservices.com'', ''googleoptimize.com'', ''app-measurement.com'',
     ''crashlytics.com'', ''googlerankings.com'', ''gstaticadssl.l.google.com'', ''facebook.com/tr'',
     ''facebook.net'', ''connect.facebook.net'', ''pixel.facebook.com'', ''an.facebook.com'',
     ''analytics.twitter.com'', ''ads-twitter.com'', ''static.ads-twitter.com'', ''ads.twitter.com'',
     ''advertising.twitter.com'', ''amazon-adsystem.com'', ''amazon.advertising.com'', ''c.amazon-adsystem.com'',
     ''s.amazon-adsystem.com'', ''aax.amazon-adsystem.com'', ''aax-us-east.amazon-adsystem.com'',
     ''z-na.amazon-adsystem.com'', ''assoc-amazon.com'', ''ws-na.amazon-adsystem.com'', ''bat.bing.com'',
     ''clarity.ms'', ''ads.microsoft.com'', ''advertise.bingads.microsoft.com'', ''analytics.live.com'',
     ''msads.net'', ''msftads.com'', ''ads.tiktok.com'', ''analytics.tiktok.com'', ''business.tiktok.com'',
     ''ads-sg.tiktok.com'', ''log.byteoversea.com'', ''pangolin-sdk-toutiao.com'', ''openx.net'',
     ''rubiconproject.com'', ''pubmatic.com'', ''ads.pubmatic.com'', ''sharethrough.com'', ''adsrvr.org'',
     ''adsymptotic.com'', ''advertising.com'', ''adsystem.com'', ''adnxs.com'', ''33across.com'', ''adform.net'',
     ''criteo.com'', ''criteo.net'', ''casalemedia.com'', ''indexww.com'', ''sovrn.com'', ''lijit.com'',
     ''contextweb.com'', ''yieldmo.com'', ''teads.tv'', ''outbrain.com'', ''widgets.outbrain.com'', ''taboola.com'',
     ''cdn.taboola.com'', ''trc.taboola.com'', ''revcontent.com'', ''bidr.io'', ''bidswitch.net'', ''districtm.io'',
     ''gumgum.com'', ''media.net'', ''triplelift.com'', ''unrulymedia.com'', ''videoamp.com'', ''zemanta.com'',
     ''scorecardresearch.com'', ''scorecardresearch.com.edgekey.net'', ''comscore.com'', ''quantserve.com'',
     ''quantcount.com'', ''moatads.com'', ''moatpixel.com'', ''hotjar.com'', ''hotjar.io'', ''mixpanel.com'',
     ''amplitude.com'', ''segment.com'', ''segment.io'', ''heapanalytics.com'', ''kissmetrics.com'',
     ''optimizely.com'', ''visualwebsiteoptimizer.com'', ''luckyorange.com'', ''luckyorange.net'', ''clicktale.net'',
     ''fullstory.com'', ''logrocket.com'', ''newrelic.com'', ''nr-data.net'', ''datadoghq.com'', ''plausible.io'',
     ''statcounter.com'', ''yandex.ru'', ''metrica.yandex.com'', ''baidustatic.com'', ''hm.baidu.com'',
     ''admob.com'', ''googleadapis.l.google.com'', ''mopub.com'', ''ironsource.com'', ''unity3d.com'',
     ''unityads.unity3d.com'', ''applovin.com'', ''applvn.com'', ''chartboost.com'', ''adcolony.com'',
     ''vungle.com'', ''startapp.com'', ''inmobi.com'', ''tapjoy.com'', ''supersonicads.com'', ''fyber.com'',
     ''adgem.co'', ''pollfish.com'', ''ogury.co'', ''ogury.io'', ''mintegral.com'', ''rayjump.com'', ''zestads.com'',
     ''adtiming.com'', ''samba.tv'', ''innovid.com'', ''spotx.tv'', ''spotxchange.com'', ''tremorhub.com'',
     ''freewheel.tv'', ''tubemogul.com'', ''rokutunnel.com'', ''ads.roku.com'', ''samsungads.com'', ''lgads.tv'',
     ''rakutenadvertising.com'', ''adsafeprotected.com'', ''iasds.net'', ''doubleverify.com'', ''geoedge.be'',
     ''brandads.net'', ''flashtalking.com'', ''serving-sys.com'', ''dotomi.com'', ''mediaplex.com'', ''dpbolvw.net'',
     ''anrdoezrs.net'', ''kqzyfj.com'', ''jdoqocy.com'', ''tkqlhce.com'', ''linksynergy.com'', ''impact-ad.jp'',
     ''impactradius-event.com'', ''ad-juster.com'', ''adjust.com'', ''appsflyer.com'', ''kochava.com'',
     ''branch.io'', ''tenjin.io'', ''singular.net'', ''clevertap.com'', ''onesignal.com'', ''braze.com'',
     ''marketo.net'', ''klaviyo.com'', ''sumo.com'', ''sumome.com'', ''addthis.com'', ''addthisedge.com'',
     ''sharethis.com'', ''po.st'', ''omtrdc.net'', ''demdex.net'', ''everesttech.net'', ''turn.com'',
     ''exelator.com'', ''mathtag.com'', ''crwdcntrl.net'', ''agkn.com'', ''bluekai.com'', ''bkrtx.com'',
     ''neustar.biz'', ''webtrends.com'', ''siteimproveanalytics.com'', ''adobedtm.com'', ''typekit.net'']"

definition FORCE_TUNNEL_DOMAINS :: "chars list" where
  "FORCE_TUNNEL_DOMAINS = map codes [
    ''google.com'', ''www.google.com'', ''googleapis.com'', ''www.googleapis.com'', ''gstatic.com'',
     ''www.gstatic.com'', ''googleusercontent.com'', ''googlevideo.com'', ''ytimg.com'', ''youtube.com'',
     ''www.youtube.com'', ''youtu.be'', ''ggpht.com'', ''withgoogle.com'', ''googleadservices.com'',
     ''doubleclick.net'', ''google-analytics.com'', ''googletagmanager.com'', ''googlesyndication.com'',
     ''googlecommerce.com'', ''admob.com'', ''appspot.com'', ''cloud.google.com'', ''firebase.google.com'',
     ''firebaseio.com'', ''facebook.com'', ''www.facebook.com'', ''fbcdn.net'', ''instagram.com'',
     ''www.instagram.com'', ''cdninstagram.com'', ''whatsapp.com'', ''web.whatsapp.com'', ''messenger.com'',
     ''fb.com'', ''twitter.com'', ''x.com'', ''twimg.com'', ''t.co'', ''telegram.org'', ''t.me'', ''signal.org'',
     ''discord.com'', ''discordapp.com'', ''discord.gg'', ''slack.com'', ''slack-edge.com'', ''github.com'',
     ''openai.com'', ''chatgpt.com'', ''anthropic.com'', ''claude.ai'', ''perplexity.ai'', ''bing.com'',
     ''duckduckgo.com'', ''wikipedia.org'', ''wikimedia.org'', ''medium.com'', ''reddit.com'', ''redd.it'',
     ''linkedin.com'', ''licdn.com'', ''quora.com'', ''pinterest.com'', ''pinimg.com'', ''tumblr.com'',
     ''flickr.com'', ''vimeo.com'', ''soundcloud.com'', ''spotify.com'', ''netflix.com'', ''hulu.com'', ''hbo.com'',
     ''max.com'', ''disney.com'', ''disneyplus.com'', ''espn.com'', ''bbc.com'', ''bbc.co.uk'', ''nytimes.com'',
     ''washingtonpost.com'', ''wsj.com'', ''bloomberg.com'', ''reuters.com'', ''apnews.com'', ''npr.org'',
     ''cnn.com'', ''foxnews.com'']"

section \<open>Lookup\<close>

text \<open>The loop over \<open>i in 1..parts.len()\<close> tries \<open>parts[i..].join(".")\<close>.\<close>

fun any_parent :: "(chars \<Rightarrow> bool) \<Rightarrow> chars list \<Rightarrow> bool" where
  "any_parent contains [] = False"
| "any_parent contains [part] = False"
| "any_parent contains (part # next # parts) =
     (contains (join 46 (next # parts)) \<or> any_parent contains (next # parts))"

definition matches_china_domain :: "chars \<Rightarrow> bool" where
  "matches_china_domain domain \<longleftrightarrow>
     domain \<in> set CHINA_DOMAINS \<or> any_parent (\<lambda>p. p \<in> set CHINA_DOMAINS) (split_on 46 domain)"

definition matches_ad_domain :: "chars \<Rightarrow> bool" where
  "matches_ad_domain domain \<longleftrightarrow>
     domain \<in> set AD_DOMAINS \<or> any_parent (\<lambda>p. p \<in> set AD_DOMAINS) (split_on 46 domain)"

definition matches_force_tunnel_domain :: "chars \<Rightarrow> bool" where
  "matches_force_tunnel_domain domain \<longleftrightarrow>
     domain \<in> set FORCE_TUNNEL_DOMAINS \<or> any_parent (\<lambda>p. p \<in> set FORCE_TUNNEL_DOMAINS) (split_on 46 domain)"

definition is_china_domain :: "chars \<Rightarrow> bool" where
  "is_china_domain domain \<longleftrightarrow> domain \<in> set CHINA_DOMAINS"

definition is_ad_domain :: "chars \<Rightarrow> bool" where
  "is_ad_domain domain \<longleftrightarrow> domain \<in> set AD_DOMAINS"

section \<open>What a lookup means\<close>

definition below :: "chars set \<Rightarrow> chars \<Rightarrow> bool" where
  "below D host \<longleftrightarrow> (\<exists>p \<in> D. host = p \<or> (\<exists>q. host = q @ 46 # p))"

lemma split_on_after: "split_on c (q @ c # p) = split_on c q @ split_on c p"
  by (induction q) (auto split: list.splits)

lemma any_parent_iff: "any_parent P parts \<longleftrightarrow> (\<exists>a b. parts = a @ b \<and> a \<noteq> [] \<and> b \<noteq> [] \<and> P (join 46 b))"
proof (induction P parts rule: any_parent.induct)
  case (3 P part nxt parts)
  have "(\<exists>a b. part # nxt # parts = a @ b \<and> a \<noteq> [] \<and> b \<noteq> [] \<and> P (join 46 b)) \<longleftrightarrow>
      (\<exists>a b. nxt # parts = a @ b \<and> b \<noteq> [] \<and> P (join 46 b))"
    by (metis append_Cons list.distinct(1) list.exhaust list.inject)
  also have "\<dots> \<longleftrightarrow> P (join 46 (nxt # parts)) \<or> (\<exists>a b. nxt # parts = a @ b \<and> a \<noteq> [] \<and> b \<noteq> [] \<and> P (join 46 b))"
    by (metis append_Nil list.distinct(1))
  finally show ?case using 3 by simp
qed (auto simp: Cons_eq_append_conv)

lemma join_append: "a \<noteq> [] \<Longrightarrow> b \<noteq> [] \<Longrightarrow> join c (a @ b) = join c a @ c # join c b"
  by (induction c a rule: join.induct) (auto simp: neq_Nil_conv)

lemma any_parent_below:
  "P host \<or> any_parent P (split_on 46 host) \<longleftrightarrow> (\<exists>p. P p \<and> (host = p \<or> (\<exists>q. host = q @ 46 # p)))"
proof
  assume "P host \<or> any_parent P (split_on 46 host)"
  then show "\<exists>p. P p \<and> (host = p \<or> (\<exists>q. host = q @ 46 # p))"
  proof
    assume "any_parent P (split_on 46 host)"
    then obtain a b where ab: "split_on 46 host = a @ b" "a \<noteq> []" "b \<noteq> []" "P (join 46 b)"
      by (auto simp: any_parent_iff)
    then have "host = join 46 a @ 46 # join 46 b" by (metis join_append join_split_on)
    with ab(4) show ?thesis by blast
  qed blast
next
  assume "\<exists>p. P p \<and> (host = p \<or> (\<exists>q. host = q @ 46 # p))"
  then obtain p where p: "P p" "host = p \<or> (\<exists>q. host = q @ 46 # p)" by blast
  then show "P host \<or> any_parent P (split_on 46 host)"
  proof (cases "host = p")
    case False
    with p obtain q where "host = q @ 46 # p" by blast
    then have "split_on 46 host = split_on 46 q @ split_on 46 p" by (simp add: split_on_after)
    with p(1) have "any_parent P (split_on 46 host)"
      unfolding any_parent_iff by (metis join_split_on split_on_not_Nil)
    then show ?thesis ..
  qed simp
qed

lemma matches_below:
  "matches_china_domain host \<longleftrightarrow> below (set CHINA_DOMAINS) host"
  "matches_ad_domain host \<longleftrightarrow> below (set AD_DOMAINS) host"
  "matches_force_tunnel_domain host \<longleftrightarrow> below (set FORCE_TUNNEL_DOMAINS) host"
  unfolding matches_china_domain_def matches_ad_domain_def matches_force_tunnel_domain_def below_def
  by (subst any_parent_below, blast)+

section \<open>The lists are host names\<close>

text \<open>Labels of lower-case letters, digits and hyphens, none of them empty.\<close>

definition label_char :: "nat \<Rightarrow> bool" where
  "label_char c \<longleftrightarrow> (97 \<le> c \<and> c \<le> 122) \<or> (48 \<le> c \<and> c \<le> 57) \<or> c = 45"

definition is_hostname :: "chars \<Rightarrow> bool" where
  "is_hostname s \<longleftrightarrow> (\<forall>l \<in> set (split_on 46 s). l \<noteq> [] \<and> list_all label_char l)"

text \<open>The same in one pass; the flag says whether the current label has a character.\<close>

fun scan_hostname :: "bool \<Rightarrow> chars \<Rightarrow> bool" where
  "scan_hostname nonempty [] = nonempty"
| "scan_hostname nonempty (c # s) =
     (if c = 46 then nonempty \<and> scan_hostname False s else label_char c \<and> scan_hostname True s)"

lemma scan_hostname_iff:
  "scan_hostname nonempty s \<longleftrightarrow>
     (nonempty \<or> hd (split_on 46 s) \<noteq> []) \<and> list_all label_char (hd (split_on 46 s))
     \<and> (\<forall>l \<in> set (tl (split_on 46 s)). l \<noteq> [] \<and> list_all label_char l)"
proof (induction nonempty s rule: scan_hostname.induct)
  case (2 nonempty c s)
  obtain p r where "split_on 46 s = p # r" by (meson neq_Nil_conv split_on_not_Nil)
  then show ?case using 2 by auto
qed simp

lemma is_hostname_scan: "is_hostname s \<longleftrightarrow> scan_hostname False s"
proof -
  obtain p r where "split_on 46 s = p # r" by (meson neq_Nil_conv split_on_not_Nil)
  then show ?thesis by (auto simp: is_hostname_def scan_hostname_iff)
qed

lemma is_hostname_below: "is_hostname (q @ 46 # p) \<Longrightarrow> is_hostname p"
  by (simp add: is_hostname_def split_on_after)

lemma china_list_hostnames: "list_all is_hostname CHINA_DOMAINS"
  unfolding is_hostname_scan CHINA_DOMAINS_def codes_def by (simp add: label_char_def)

lemma force_list_hostnames: "list_all is_hostname FORCE_TUNNEL_DOMAINS"
  unfolding is_hostname_scan FORCE_TUNNEL_DOMAINS_def codes_def by (simp add: label_char_def)

lemma ad_list_hostnames: "filter (\<lambda>d. \<not> is_hostname d) AD_DOMAINS = [codes ''facebook.com/tr'']"
  unfolding is_hostname_scan AD_DOMAINS_def codes_def by (simp add: label_char_def)

lemmas lists_evaluated = china_list_hostnames force_list_hostnames ad_list_hostnames

text \<open>The entries of the compiled-in lists are lower-case host names, so that a host name can match them, with one
  exception: the entry \<open>facebook.com/tr\<close> of the ad list is no host name, and no host name matches it.\<close>

lemma builtin_lists_are_hostnames:
  "list_all is_hostname CHINA_DOMAINS \<and> list_all is_hostname FORCE_TUNNEL_DOMAINS
   \<and> filter (\<lambda>d. \<not> is_hostname d) AD_DOMAINS = [codes ''facebook.com/tr'']
   \<and> (is_hostname host \<longrightarrow> \<not> below {codes ''facebook.com/tr''} host)"
proof -
  have "codes ''facebook.com/tr'' \<in> set (filter (\<lambda>d. \<not> is_hostname d) AD_DOMAINS)" by (simp add: lists_evaluated)
  then have "\<not> is_hostname (codes ''facebook.com/tr'')" by simp
  then show ?thesis using lists_evaluated by (auto simp: below_def dest: is_hostname_below)
qed

end
