(* ===== verification/Split_Tunnel.thy ===== *)
theory Split_Tunnel
  imports Net_Addr Builtin_Domains
begin

text \<open>
  Which traffic enters the tunnel: \<open>rvpn-split-tunnel/src/split_tunnel.rs\<close> and \<open>config.rs\<close>, and the decision that the
  desktop proxies derive from it (\<open>route_connection\<close> of \<open>rvpn-client/src/proxy_common.rs\<close> and \<open>handle_http_forward\<close> of
  \<open>http_proxy.rs\<close>). The parameters are the crates for networks, \<open>str::to_lowercase\<close> with its Unicode tables, the JSON
  parser, the files, the compiled-in country ranges (a table of 21,000 lines) and the result of a name lookup. The model is that of a build
  with the feature \<open>builtin-domains\<close> (desktop, macOS, Android): a build without it, as for iOS, matches no compiled-in
  domain. The feature \<open>builtin-ips\<close> needs no such choice, since the country ranges are a parameter and may be absent.
\<close>

section \<open>Configuration and data\<close>

datatype routing_decision = Tunnel | Bypass | Block

record split_tunnel_config =
  enabled :: bool
  bypass_networks_file :: "chars option"
  bypass_domains_file :: "chars option"
  tunnel_networks_file :: "chars option"
  tunnel_domains_file :: "chars option"
  auto_reload_interval :: u64
  builtin_bypass_countries :: "chars list"
  block_ads :: bool
  ad_block_file :: "chars option"
  inline_bypass_networks :: "chars list"
  country_ips_file :: "chars option"

definition config_default :: split_tunnel_config where
  "config_default = \<lparr>enabled = False, bypass_networks_file = None, bypass_domains_file = None,
     tunnel_networks_file = None, tunnel_domains_file = None, auto_reload_interval = 86400,
     builtin_bypass_countries = [codes ''CN''], block_ads = False, ad_block_file = None,
     inline_bypass_networks = [], country_ips_file = None\<rparr>"

record 't split_tunnel_data =
  bypass_networks :: 't
  bypass_domains :: "chars set"
  tunnel_networks :: 't
  tunnel_domains :: "chars set"
  block_domains :: "chars set"
  last_reload :: nat

text \<open>What the module calls: crates, the standard library, files and tables.\<close>

record ('n, 't) environment =
  networks :: "'n network_crate"
  tables :: "('n, bool, 't) table_crate"
  to_lowercase :: "chars \<Rightarrow> chars"
  country_json :: "chars \<Rightarrow> (chars \<times> chars list) list option"
  read_to_string :: "chars \<Rightarrow> chars option"
  get_country_ips :: "chars \<Rightarrow> chars list option"

text \<open>Documented behaviour of \<open>str::to_lowercase\<close> on ASCII strings.\<close>

definition lowercase_ok :: "(chars \<Rightarrow> chars) \<Rightarrow> bool" where
  "lowercase_ok low \<longleftrightarrow> (\<forall>s. list_all (\<lambda>c. c < 128) s \<longrightarrow> low s = to_ascii_lowercase s)"

definition data_default :: "('n, 't) environment \<Rightarrow> nat \<Rightarrow> 't split_tunnel_data" where
  "data_default E now = \<lparr>bypass_networks = table_new (tables E), bypass_domains = {}, tunnel_networks = table_new (tables E),
     tunnel_domains = {}, block_domains = {}, last_reload = now\<rparr>"

section \<open>Loading\<close>

definition keep_line :: "chars \<Rightarrow> bool" where
  "keep_line line \<longleftrightarrow> line \<noteq> [] \<and> \<not> starts_with (codes ''#'') line"

definition load_networks :: "('n, 't) environment \<Rightarrow> chars \<Rightarrow> 'n list option" where
  "load_networks E path =
     map_option (\<lambda>content. List.map_filter (net_parse (networks E)) (filter keep_line (map trim (lines content))))
       (read_to_string E path)"

definition load_domains :: "('n, 't) environment \<Rightarrow> chars \<Rightarrow> chars set option" where
  "load_domains E path =
     map_option (\<lambda>content. set (filter (\<lambda>d. d \<noteq> []) (map trim_end_dots
       (filter keep_line (map (\<lambda>line. to_lowercase E (trim line)) (lines content)))))) (read_to_string E path)"

definition load_country_ips_file :: "('n, 't) environment \<Rightarrow> chars \<Rightarrow> chars list \<Rightarrow> 'n list option" where
  "load_country_ips_file E path countries =
     map_option (\<lambda>content.
       (let m = (case country_json E content of Some m \<Rightarrow> m | None \<Rightarrow> [])
        in concat (map (\<lambda>c. case map_of m c of
                              Some cidrs \<Rightarrow> List.map_filter (net_parse (networks E)) cidrs
                            | None \<Rightarrow> []) countries))) (read_to_string E path)"

definition insert_all :: "('n, bool, 't) table_crate \<Rightarrow> 't \<Rightarrow> 'n list \<Rightarrow> 't" where
  "insert_all T t ns = foldl (\<lambda>t n. table_insert T t n True) t ns"

definition default_bypass_networks :: "chars list" where
  "default_bypass_networks = map codes [''192.168.0.0/16'', ''10.0.0.0/8'', ''172.16.0.0/12'', ''127.0.0.0/8'',
     ''169.254.0.0/16'', ''224.0.0.0/4'', ''240.0.0.0/4'', ''100.64.0.0/10'', ''192.0.0.0/24'', ''192.0.2.0/24'',
     ''198.51.100.0/24'', ''203.0.113.0/24'', ''::1/128'', ''fc00::/7'', ''fe80::/10'', ''ff00::/8'']"

text \<open>The networks of the countries: from the file if one is configured, else the compiled-in ones.\<close>

definition country_networks :: "('n, 't) environment \<Rightarrow> split_tunnel_config \<Rightarrow> 'n list" where
  "country_networks E config =
     (case country_ips_file config of
        Some path \<Rightarrow>
          (case load_country_ips_file E path (builtin_bypass_countries config) of Some cidrs \<Rightarrow> cidrs | None \<Rightarrow> [])
      | None \<Rightarrow>
          concat (map (\<lambda>c. case get_country_ips E c of
                             Some ip_ranges \<Rightarrow> List.map_filter (net_parse (networks E)) ip_ranges
                           | None \<Rightarrow> []) (builtin_bypass_countries config)))"

fun from_file :: "(chars \<Rightarrow> 'a option) \<Rightarrow> 'a \<Rightarrow> chars option \<Rightarrow> 'a" where
  "from_file load none None = none"
| "from_file load none (Some path) = (case load path of Some x \<Rightarrow> x | None \<Rightarrow> none)"

definition load_data :: "('n, 't) environment \<Rightarrow> split_tunnel_config \<Rightarrow> nat \<Rightarrow> 't split_tunnel_data" where
  "load_data E config now =
     (let T = tables E; N = networks E; data = data_default E now;
          bypass = insert_all T (bypass_networks data) (List.map_filter (net_parse N) default_bypass_networks);
          bypass = insert_all T bypass (List.map_filter (net_parse N) (inline_bypass_networks config));
          bypass = insert_all T bypass (country_networks E config);
          bypass = insert_all T bypass (from_file (load_networks E) [] (bypass_networks_file config))
      in data\<lparr>bypass_networks := bypass,
              bypass_domains := bypass_domains data \<union> from_file (load_domains E) {} (bypass_domains_file config),
              tunnel_networks := insert_all T (tunnel_networks data)
                (from_file (load_networks E) [] (tunnel_networks_file config)),
              tunnel_domains := tunnel_domains data \<union> from_file (load_domains E) {} (tunnel_domains_file config),
              block_domains := block_domains data \<union> from_file (load_domains E) {} (ad_block_file config)\<rparr>)"

definition split_tunnel_new :: "('n, 't) environment \<Rightarrow> split_tunnel_config \<Rightarrow> nat \<Rightarrow> 't split_tunnel_data" where
  "split_tunnel_new E config now = (if enabled config then load_data E config now else data_default E now)"

definition reload :: "('n, 't) environment \<Rightarrow> split_tunnel_config \<Rightarrow> nat \<Rightarrow> 't split_tunnel_data \<Rightarrow> 't split_tunnel_data" where
  "reload E config now data = (if enabled config then load_data E config now else data)"

section \<open>Decisions\<close>

definition matches_domain :: "('n, 't) environment \<Rightarrow> chars \<Rightarrow> chars set \<Rightarrow> bool" where
  "matches_domain E host domains \<longleftrightarrow>
     (let host = to_lowercase E host
      in host \<in> domains \<or> any_parent (\<lambda>p. p \<in> domains) (split_on 46 host))"

fun any_match :: "('n, bool, 't) table_crate \<Rightarrow> 't \<Rightarrow> ip_addr list \<Rightarrow> bool" where
  "any_match T t [] = False"
| "any_match T t (ip # ips) = (longest_match T t ip \<noteq> None \<or> any_match T t ips)"

definition decide :: "('n, 't) environment \<Rightarrow> split_tunnel_config \<Rightarrow> 't split_tunnel_data \<Rightarrow> chars \<Rightarrow> ip_addr list
    \<Rightarrow> routing_decision" where
  "decide E config data host ips =
     (if \<not> enabled config then Tunnel
      else if matches_domain E host (tunnel_domains data) then Tunnel
      else if matches_domain E host (bypass_domains data) then Bypass
      else if matches_force_tunnel_domain host then Tunnel
      else if any_match (tables E) (tunnel_networks data) ips then Tunnel
      else if any_match (tables E) (bypass_networks data) ips then Bypass
      else Tunnel)"

definition ips_match_country :: "('n, 't) environment \<Rightarrow> ip_addr list \<Rightarrow> chars \<Rightarrow> bool" where
  "ips_match_country E ips country =
     (case get_country_ips E country of
        Some cidrs \<Rightarrow>
          list_ex (\<lambda>ip. list_ex (\<lambda>cidr. case net_parse (networks E) cidr of
                                            Some network \<Rightarrow> net_contains (networks E) network ip
                                          | None \<Rightarrow> False) cidrs) ips
      | None \<Rightarrow> False)"

text \<open>\<open>lookup\<close> is \<open>resolve_host_to_ips\<close>.\<close>

definition decide_by_host :: "('n, 't) environment \<Rightarrow> split_tunnel_config \<Rightarrow> 't split_tunnel_data
    \<Rightarrow> (chars \<Rightarrow> ip_addr list option) \<Rightarrow> chars \<Rightarrow> routing_decision" where
  "decide_by_host E config data lookup host =
     (if \<not> enabled config then Tunnel
      else if block_ads config \<and> (matches_domain E host (block_domains data) \<or> matches_ad_domain host) then Block
      else if matches_domain E host (tunnel_domains data) then Tunnel
      else if matches_domain E host (bypass_domains data) then Bypass
      else if matches_force_tunnel_domain host then Tunnel
      else if codes ''CN'' \<in> set (builtin_bypass_countries config) \<and> matches_china_domain host then
        (case lookup host of
           Some ip_addrs \<Rightarrow> if ips_match_country E ip_addrs (codes ''CN'') then Bypass else Tunnel
         | None \<Rightarrow> Tunnel)
      else Tunnel)"

definition decide_by_ip :: "('n, 't) environment \<Rightarrow> split_tunnel_config \<Rightarrow> 't split_tunnel_data \<Rightarrow> ip_addr
    \<Rightarrow> routing_decision" where
  "decide_by_ip E config data ip =
     (if \<not> enabled config then Tunnel
      else if longest_match (tables E) (tunnel_networks data) ip \<noteq> None then Tunnel
      else if longest_match (tables E) (bypass_networks data) ip \<noteq> None then Bypass
      else Tunnel)"

text \<open>The decision of the proxies for a connection; the name may resolve differently the second time.\<close>

definition final_decision :: "('n, 't) environment \<Rightarrow> split_tunnel_config \<Rightarrow> 't split_tunnel_data
    \<Rightarrow> (chars \<Rightarrow> ip_addr list option) \<Rightarrow> (chars \<Rightarrow> ip_addr list option) \<Rightarrow> chars \<Rightarrow> routing_decision" where
  "final_decision E config data lookup lookup' host =
     (case decide_by_host E config data lookup host of
        Bypass \<Rightarrow> Bypass
      | Block \<Rightarrow> Block
      | Tunnel \<Rightarrow> (case lookup' host of Some ips \<Rightarrow> decide E config data host ips | None \<Rightarrow> Tunnel))"

section \<open>What is loaded\<close>

definition bypass_list :: "('n, 't) environment \<Rightarrow> split_tunnel_config \<Rightarrow> 'n list" where
  "bypass_list E config =
     List.map_filter (net_parse (networks E)) default_bypass_networks
     @ List.map_filter (net_parse (networks E)) (inline_bypass_networks config)
     @ country_networks E config @ from_file (load_networks E) [] (bypass_networks_file config)"

definition tunnel_list :: "('n, 't) environment \<Rightarrow> split_tunnel_config \<Rightarrow> 'n list" where
  "tunnel_list E config = from_file (load_networks E) [] (tunnel_networks_file config)"

lemma insert_all_table_of: "insert_all T (table_of T ins) ns = table_of T (ins @ map (\<lambda>n. (n, True)) ns)"
  unfolding insert_all_def by (induction ns arbitrary: ins) (simp_all add: table_of_snoc)

lemma load_data_simps:
  "bypass_networks (load_data E config now) = table_of (tables E) (map (\<lambda>n. (n, True)) (bypass_list E config))"
  "tunnel_networks (load_data E config now) = table_of (tables E) (map (\<lambda>n. (n, True)) (tunnel_list E config))"
  "bypass_domains (load_data E config now) = from_file (load_domains E) {} (bypass_domains_file config)"
  "tunnel_domains (load_data E config now) = from_file (load_domains E) {} (tunnel_domains_file config)"
  "block_domains (load_data E config now) = from_file (load_domains E) {} (ad_block_file config)"
  by (simp_all add: load_data_def Let_def data_default_def table_of_Nil insert_all_table_of bypass_list_def tunnel_list_def)

lemma any_match_iff:
  assumes "table_ok N T"
  shows "any_match T (table_of T (map (\<lambda>n. (n, True)) ns)) ips \<longleftrightarrow> (\<exists>ip \<in> set ips. \<exists>n \<in> set ns. net_contains N n ip)"
  by (induction ips) (auto simp: longest_match_None [OF assms] image_image)

lemma matches_domain_below: "matches_domain E host D \<longleftrightarrow> below D (to_lowercase E host)"
  unfolding matches_domain_def Let_def below_def by (subst any_parent_below) blast

lemma ips_match_country_iff:
  "ips_match_country E ips c \<longleftrightarrow> (\<exists>cidrs. get_country_ips E c = Some cidrs
     \<and> (\<exists>ip \<in> set ips. \<exists>n \<in> set (List.map_filter (net_parse (networks E)) cidrs). net_contains (networks E) n ip))"
  by (auto simp: ips_match_country_def list_ex_iff List.map_filter_def split: option.splits) force+

section \<open>Properties\<close>

definition blocked :: "('n, 't) environment \<Rightarrow> split_tunnel_config \<Rightarrow> chars \<Rightarrow> bool" where
  "blocked E config host \<longleftrightarrow> block_ads config
     \<and> (below (from_file (load_domains E) {} (ad_block_file config)) (to_lowercase E host) \<or> below (set AD_DOMAINS) host)"

definition china_host :: "('n, 't) environment \<Rightarrow> split_tunnel_config \<Rightarrow> (chars \<Rightarrow> ip_addr list option) \<Rightarrow> chars \<Rightarrow> bool" where
  "china_host E config lookup host \<longleftrightarrow> codes ''CN'' \<in> set (builtin_bypass_countries config) \<and> below (set CHINA_DOMAINS) host
     \<and> (\<exists>ips. lookup host = Some ips \<and> ips_match_country E ips (codes ''CN''))"

definition bypass_addresses :: "('n, 't) environment \<Rightarrow> split_tunnel_config \<Rightarrow> ip_addr list \<Rightarrow> bool" where
  "bypass_addresses E config ips \<longleftrightarrow>
     (\<forall>ip \<in> set ips. \<forall>n \<in> set (tunnel_list E config). \<not> net_contains (networks E) n ip)
     \<and> (\<exists>ip \<in> set ips. \<exists>n \<in> set (bypass_list E config). net_contains (networks E) n ip)"

lemma decide_by_host_eq:
  assumes "enabled config"
  shows "decide_by_host E config (load_data E config now) lookup host =
    (if blocked E config host then Block
     else if below (from_file (load_domains E) {} (tunnel_domains_file config)) (to_lowercase E host) then Tunnel
     else if below (from_file (load_domains E) {} (bypass_domains_file config)) (to_lowercase E host) then Bypass
     else if below (set FORCE_TUNNEL_DOMAINS) host then Tunnel
     else if china_host E config lookup host then Bypass else Tunnel)"
proof -
  have china: "(case lookup host of
       Some ip_addrs \<Rightarrow> if ips_match_country E ip_addrs (codes ''CN'') then Bypass else Tunnel
     | None \<Rightarrow> Tunnel) =
     (if \<exists>ips. lookup host = Some ips \<and> ips_match_country E ips (codes ''CN'') then Bypass else Tunnel)"
    by (simp split: option.split)
  show ?thesis
    unfolding decide_by_host_def load_data_simps matches_domain_below matches_below china blocked_def china_host_def
    using assms by simp blast
qed

lemma decide_eq:
  assumes "table_ok (networks E) (tables E)" "enabled config"
  shows "decide E config (load_data E config now) host ips =
    (if below (from_file (load_domains E) {} (tunnel_domains_file config)) (to_lowercase E host) then Tunnel
     else if below (from_file (load_domains E) {} (bypass_domains_file config)) (to_lowercase E host) then Bypass
     else if below (set FORCE_TUNNEL_DOMAINS) host then Tunnel
     else if bypass_addresses E config ips then Bypass else Tunnel)"
  unfolding decide_def load_data_simps matches_domain_below matches_below any_match_iff [OF assms(1)] bypass_addresses_def
  using assms(2) by simp

section \<open>An environment\<close>

definition demo_env :: "(cidr, (cidr \<times> bool) list) environment" where
  "demo_env = \<lparr>networks = demo_net, tables = demo_table, to_lowercase = to_ascii_lowercase, country_json = (\<lambda>_. None),
     read_to_string = (\<lambda>path. if path = codes ''t'' then Some (codes ''# list'' @ 10 # codes '' Example.COM. '') else None),
     get_country_ips = (\<lambda>c. if c = codes ''CN'' then Some [codes ''1.0.1.0/24''] else None)\<rparr>"

definition demo_config :: split_tunnel_config where
  "demo_config = config_default\<lparr>enabled := True, tunnel_domains_file := Some (codes ''t'')\<rparr>"

lemma demo_env_ok: "table_ok (networks demo_env) (tables demo_env)" "lowercase_ok (to_lowercase demo_env)"
  by (simp_all add: demo_env_def demo_table_ok lowercase_ok_def)

lemma demo_lan: "bypass_addresses demo_env (demo_config\<lparr>tunnel_domains_file := None\<rparr>) [V4 0x0A000001]"
proof -
  have "net_parse demo_net (codes ''10.0.0.0/8'') = Some (V4 0x0A000000, 8)"
    by (simp add: string_evals addr_evals)
  then have "(V4 0x0A000000, 8) \<in> set (List.map_filter (net_parse demo_net) default_bypass_networks)"
    by (auto simp: List.map_filter_def default_bypass_networks_def)
  then have "(V4 0x0A000000, 8) \<in> set (bypass_list demo_env (demo_config\<lparr>tunnel_domains_file := None\<rparr>))"
    by (simp add: bypass_list_def demo_env_def)
  moreover have "net_contains demo_net (V4 0x0A000000, 8) (V4 0x0A000001)" by (simp add: demo_net_def)
  ultimately show ?thesis
    by (auto simp: bypass_addresses_def tunnel_list_def demo_env_def demo_config_def config_default_def)
qed

text \<open>C4: what the desktop proxies do with a connection, in terms of the lists that were loaded. It is blocked exactly
  if ad blocking is on and the host is an ad domain or below one. It goes around the tunnel exactly if split tunnelling
  is on, the host is neither blocked nor at or below a tunnel domain, and either it is at or below a bypass domain, or it
  is no force-tunnel host and is a Chinese domain with a Chinese address or has a bypass address and no tunnel address.
  Everything else is tunnelled.\<close>

theorem connection_bypasses_iff:
  fixes E :: "('n, 't) environment" and config :: split_tunnel_config and host :: chars and now :: nat
    and lookup lookup' :: "chars \<Rightarrow> ip_addr list option"
  assumes "table_ok (networks E) (tables E)"
  defines "Tun \<equiv> from_file (load_domains E) {} (tunnel_domains_file config)"
    and "Byp \<equiv> from_file (load_domains E) {} (bypass_domains_file config)"
    and "d \<equiv> final_decision E config (split_tunnel_new E config now) lookup lookup' host"
  shows "(d = Block \<longleftrightarrow> enabled config \<and> blocked E config host)
     \<and> (d = Bypass \<longleftrightarrow> enabled config \<and> \<not> blocked E config host \<and> \<not> below Tun (to_lowercase E host)
          \<and> (below Byp (to_lowercase E host)
             \<or> (\<not> below (set FORCE_TUNNEL_DOMAINS) host
                \<and> (china_host E config lookup host \<or> (\<exists>ips. lookup' host = Some ips \<and> bypass_addresses E config ips)))))"
proof (cases "enabled config")
  case True
  then have new: "split_tunnel_new E config now = load_data E config now" by (simp add: split_tunnel_new_def)
  show ?thesis
    unfolding d_def final_decision_def new decide_by_host_eq [OF True] decide_eq [OF assms(1) True]
    using True by (cases "lookup' host") (simp_all add: Tun_def Byp_def)
next
  case False
  then show ?thesis by (simp add: d_def final_decision_def decide_by_host_def decide_def split: option.split)
qed

theorem connection_bypasses_iff_witness:
  "table_ok (networks demo_env) (tables demo_env)
   \<and> final_decision demo_env (demo_config\<lparr>tunnel_domains_file := None\<rparr>)
       (split_tunnel_new demo_env (demo_config\<lparr>tunnel_domains_file := None\<rparr>) 0) (\<lambda>_. None) (\<lambda>_. Some [V4 0x0A000001])
       (codes ''nas'') = Bypass"
proof -
  have "\<not> matches_force_tunnel_domain (codes ''nas'')"
    by (simp add: matches_force_tunnel_domain_def FORCE_TUNNEL_DOMAINS_def codes_def)
  then show ?thesis
    using connection_bypasses_iff [OF demo_env_ok(1), of "demo_config\<lparr>tunnel_domains_file := None\<rparr>" 0 "\<lambda>_. None"
        "\<lambda>_. Some [V4 0x0A000001]" "codes ''nas''"] demo_lan demo_env_ok(1)
    by (simp add: matches_below below_def [of "{}"] blocked_def demo_config_def config_default_def)
qed

text \<open>C18: a domain on a line of the tunnel file, in whatever case, with blanks around it or dots behind it, keeps itself
  and everything below it in the tunnel, whatever the other lists, the addresses and the lookups say, unless the host is
  blocked as an ad.\<close>

theorem listed_domain_stays_in_tunnel:
  assumes "enabled config" "tunnel_domains_file config = Some path" "read_to_string E path = Some content"
    and "line \<in> set (lines content)" "keep_line (to_lowercase E (trim line))"
    and "domain = trim_end_dots (to_lowercase E (trim line))" "domain \<noteq> []"
    and "to_lowercase E host = domain \<or> to_lowercase E host = q @ 46 # domain"
    and "table_ok (networks E) (tables E)"
  shows "decide E config (load_data E config now) host ips = Tunnel
     \<and> decide_by_host E config (load_data E config now) lookup host = (if blocked E config host then Block else Tunnel)
     \<and> final_decision E config (load_data E config now) lookup lookup' host = (if blocked E config host then Block else Tunnel)"
proof -
  have "domain \<in> from_file (load_domains E) {} (tunnel_domains_file config)"
    using assms(2-7) by (auto simp: load_domains_def image_iff)
  then have below: "below (from_file (load_domains E) {} (tunnel_domains_file config)) (to_lowercase E host)"
    using assms(8) unfolding below_def by blast
  show ?thesis
    unfolding final_decision_def decide_by_host_eq [OF assms(1)] decide_eq [OF assms(9,1)] if_P [OF below]
    by (simp split: option.split)
qed

theorem listed_domain_stays_in_tunnel_witness:
  "decide demo_env demo_config (load_data demo_env demo_config 0) (codes ''www.example.com'') [V4 0x0A000001] = Tunnel
   \<and> final_decision demo_env demo_config (load_data demo_env demo_config 0) (\<lambda>_. None) (\<lambda>_. None)
       (codes ''www.example.com'') = Tunnel"
  using listed_domain_stays_in_tunnel [of demo_config "codes ''t''" demo_env "codes ''# list'' @ 10 # codes '' Example.COM. ''"
      "codes '' Example.COM. ''" "codes ''example.com''" "codes ''www.example.com''" "codes ''www''" 0 "[V4 0x0A000001]"
      "\<lambda>_. None" "\<lambda>_. None"] demo_env_ok(1)
  by (simp add: demo_env_def demo_config_def config_default_def lines_def strip_cr_def keep_line_def starts_with_def
      string_evals blocked_def)

text \<open>C35: the compiled-in lists are compared with the host as it is spelled, the configured ones after
  lower-casing it. So a host of the force-tunnel list that resolves to a bypass address is tunnelled under its
  lower-case name and goes around the tunnel under another spelling of the same name.\<close>

theorem spelling_changes_decision:
  assumes "lowercase_ok (to_lowercase E)" "table_ok (networks E) (tables E)" "enabled config"
    and "tunnel_domains_file config = None" "bypass_domains_file config = None" "bypass_addresses E config ips"
  shows "decide E config (load_data E config now) (codes ''www.google.com'') ips = Tunnel
     \<and> decide E config (load_data E config now) (codes ''www.Google.com'') ips = Bypass
     \<and> to_lowercase E (codes ''www.Google.com'') = codes ''www.google.com''"
proof -
  have "to_lowercase E (codes ''www.Google.com'') = codes ''www.google.com''"
    using assms(1) by (simp add: lowercase_ok_def string_evals)
  moreover have "matches_force_tunnel_domain (codes ''www.google.com'')" "\<not> matches_force_tunnel_domain (codes ''www.Google.com'')"
    by (simp_all add: matches_force_tunnel_domain_def FORCE_TUNNEL_DOMAINS_def codes_def)
  ultimately show ?thesis
    using assms(3-6) unfolding decide_eq [OF assms(2,3)] matches_below by (simp add: below_def)
qed

theorem spelling_changes_decision_witness:
  "decide demo_env (demo_config\<lparr>tunnel_domains_file := None\<rparr>)
      (load_data demo_env (demo_config\<lparr>tunnel_domains_file := None\<rparr>) 0) (codes ''www.Google.com'') [V4 0x0A000001] = Bypass"
  using spelling_changes_decision [OF demo_env_ok(2,1) _ _ _ demo_lan, of 0]
  by (simp add: demo_config_def config_default_def)

end
