(* ===== verification/Caches.thy ===== *)
theory Caches
  imports Rvpn_Prelude "HOL-Library.AList" "HOL-Library.Multiset"
begin

text \<open>
  Hash maps with a bound on their size. A \<open>HashMap\<close> is a list of its entries with distinct keys; the order in which the
  program iterates over one is unspecified, so the positions of the keys are an argument of each iteration. The locale
  \<open>bounded_cache\<close> is the contract of the caches of the program: each makes room before it inserts. What follows from it
  is proved here once, for any sequence of insertions and purges.
\<close>

section \<open>Hash maps\<close>

type_synonym ('k, 'v) hmap = "('k \<times> 'v) list"

definition hm_wf :: "('k, 'v) hmap \<Rightarrow> bool" where
  "hm_wf m \<longleftrightarrow> distinct (map fst m)"

definition iterate :: "('k \<Rightarrow> nat) \<Rightarrow> ('k, 'v) hmap \<Rightarrow> ('k, 'v) hmap" where
  "iterate place m = sort_key (\<lambda>e. place (fst e)) m"

abbreviation hm_get :: "('k, 'v) hmap \<Rightarrow> 'k \<Rightarrow> 'v option" where
  "hm_get m k \<equiv> map_of m k"

abbreviation hm_insert :: "'k \<Rightarrow> 'v \<Rightarrow> ('k, 'v) hmap \<Rightarrow> ('k, 'v) hmap" where
  "hm_insert k v m \<equiv> AList.update k v m"

abbreviation hm_remove :: "'k \<Rightarrow> ('k, 'v) hmap \<Rightarrow> ('k, 'v) hmap" where
  "hm_remove k m \<equiv> AList.delete k m"

text \<open>\<open>HashMap::retain\<close>.\<close>

definition retain :: "('k \<Rightarrow> 'v \<Rightarrow> bool) \<Rightarrow> ('k, 'v) hmap \<Rightarrow> ('k, 'v) hmap" where
  "retain P m = filter (\<lambda>(k, v). P k v) m"

text \<open>\<open>iter().min_by_key(f)\<close>: the first entry with the least key.\<close>

fun min_by_key :: "('v \<Rightarrow> nat) \<Rightarrow> ('k, 'v) hmap \<Rightarrow> ('k \<times> 'v) option" where
  "min_by_key f [] = None"
| "min_by_key f (e # es) =
     (case min_by_key f es of
        None \<Rightarrow> Some e
      | Some e' \<Rightarrow> if f (snd e') < f (snd e) then Some e' else Some e)"

lemma hm_wf_Nil [simp]: "hm_wf []"
  by (simp add: hm_wf_def)

lemma hm_wf_insert [simp]: "hm_wf m \<Longrightarrow> hm_wf (hm_insert k v m)"
  by (simp add: hm_wf_def distinct_update)

lemma hm_wf_remove [simp]: "hm_wf m \<Longrightarrow> hm_wf (hm_remove k m)"
  by (simp add: hm_wf_def distinct_delete)

lemma hm_wf_retain [simp]: "hm_wf m \<Longrightarrow> hm_wf (retain P m)"
  by (simp add: hm_wf_def retain_def distinct_map_filter)

lemma hm_get_in: "hm_wf m \<Longrightarrow> hm_get m k = Some v \<longleftrightarrow> (k, v) \<in> set m"
  by (simp add: hm_wf_def)

lemma retain_subset: "set (retain P m) \<subseteq> set m"
  by (auto simp: retain_def)

lemma remove_subset: "set (hm_remove k m) \<subseteq> set m"
  by (induction m) auto

lemma hm_remove_filter: "hm_remove k m = filter (\<lambda>e. fst e \<noteq> k) m"
  by (induction m) auto

lemma length_retain: "length (retain P m) \<le> length m"
  by (simp add: retain_def)

lemma length_remove_le: "length (hm_remove k m) \<le> length m"
  by (rule length_delete_le)

lemma length_remove:
  assumes "hm_wf m" "k \<in> fst ` set m"
  shows "Suc (length (hm_remove k m)) = length m"
  using assms
proof (induction m)
  case (Cons e m)
  obtain k' v where e: "e = (k', v)" by fastforce
  have "k' = k \<Longrightarrow> hm_remove k m = m" using Cons.prems(1) by (auto simp: e hm_wf_def delete_idem)
  then show ?case using Cons by (auto simp: e hm_wf_def)
qed simp

lemma length_update: "length (hm_insert k v m) = (if k \<in> fst ` set m then length m else Suc (length m))"
  by (induction m) auto

lemma min_by_key_None [simp]: "min_by_key f m = None \<longleftrightarrow> m = []"
  by (cases m) (auto split: option.split)

lemma min_by_key_Some:
  "min_by_key f m = Some e \<Longrightarrow> e \<in> set m \<and> (\<forall>e' \<in> set m. f (snd e) \<le> f (snd e'))"
  by (induction m arbitrary: e) (fastforce split: option.splits if_splits)+

lemma set_iterate [simp]: "set (iterate place m) = set m"
  by (simp add: iterate_def)

lemma length_iterate [simp]: "length (iterate place m) = length m"
  by (simp add: iterate_def)

lemma distinct_sort_keys: "hm_wf m \<Longrightarrow> distinct (map fst (sort_key f m))"
proof -
  assume "hm_wf m"
  moreover have "mset (map fst (sort_key f m)) = mset (map fst m)" by simp
  from mset_eq_imp_distinct_iff [OF this] have "distinct (map fst (sort_key f m)) = distinct (map fst m)" .
  ultimately show ?thesis by (simp add: hm_wf_def)
qed

lemma hm_wf_iterate: "hm_wf m \<Longrightarrow> hm_wf (iterate place m)"
  unfolding iterate_def hm_wf_def [of "sort_key _ _"] by (rule distinct_sort_keys)

text \<open>Removing some of the keys.\<close>

fun remove_keys :: "'k list \<Rightarrow> ('k, 'v) hmap \<Rightarrow> ('k, 'v) hmap" where
  "remove_keys [] m = m"
| "remove_keys (k # ks) m = remove_keys ks (hm_remove k m)"

lemma remove_keys_eq: "remove_keys ks m = filter (\<lambda>e. fst e \<notin> set ks) m"
  by (induction ks arbitrary: m) (auto simp: hm_remove_filter intro: filter_cong)

lemma length_remove_keys:
  assumes "hm_wf m" "distinct ks" "set ks \<subseteq> fst ` set m"
  shows "length (remove_keys ks m) + length ks = length m"
  using assms
proof (induction ks arbitrary: m)
  case (Cons k ks)
  have "fst ` set (hm_remove k m) = fst ` set m - {k}" by (auto simp: hm_remove_filter image_iff)
  then have "length (remove_keys ks (hm_remove k m)) + length ks = length (hm_remove k m)"
    using Cons.prems by (intro Cons.IH) auto
  then show ?case using Cons.prems length_remove [of m k] by simp
qed simp

section \<open>Two ways to make room\<close>

text \<open>
  The shape that the resolver of \<open>rvpn-split-tunnel\<close> and the DoH client share: at the limit, drop what is not fresh; if
  that is not enough, sort the entries by age, oldest first, and remove the first ones until one place is free. The
  predecessor of the limit wraps around at the width \<open>W\<close> of \<open>usize\<close>, which matters for a limit of zero only; the
  model takes 64 bits, and with fewer than \<open>2 ^ 32\<close> entries a 32-bit target removes the same number of them.
\<close>

definition usize_pred :: "nat \<Rightarrow> nat \<Rightarrow> nat" where
  "usize_pred W n = (if n = 0 then 2 ^ W - 1 else n - 1)"

lemma usize_pred_width: "n < 2 ^ 32 \<Longrightarrow> n - usize_pred 32 limit = n - usize_pred 64 limit"
  by (simp add: usize_pred_def)

definition evict_by :: "('v \<Rightarrow> bool) \<Rightarrow> ('v \<Rightarrow> nat) \<Rightarrow> nat \<Rightarrow> ('k \<Rightarrow> nat) \<Rightarrow> ('k, 'v) hmap \<Rightarrow> ('k, 'v) hmap" where
  "evict_by fresh age limit place m =
     (if length m < limit then m
      else let m = retain (\<lambda>_ e. fresh e) m
           in if limit \<le> length m
              then let entries = sort_key (\<lambda>e. age (snd e)) (iterate place m);
                       to_remove = length m - usize_pred 64 limit
                   in remove_keys (map fst (take to_remove entries)) m
              else m)"

text \<open>At the limit, remove one entry with the least age, the first one that iteration meets.\<close>

definition drop_oldest :: "('v \<Rightarrow> nat) \<Rightarrow> nat \<Rightarrow> ('k \<Rightarrow> nat) \<Rightarrow> ('k, 'v) hmap \<Rightarrow> ('k, 'v) hmap" where
  "drop_oldest age limit place m =
     (if limit \<le> length m
      then case min_by_key age (iterate place m) of Some (k, _) \<Rightarrow> hm_remove k m | None \<Rightarrow> m
      else m)"

lemma remove_keys_subset: "set (remove_keys ks m) \<subseteq> set m"
  by (auto simp: remove_keys_eq)

lemma hm_wf_remove_keys: "hm_wf m \<Longrightarrow> hm_wf (remove_keys ks m)"
  by (induction ks arbitrary: m) auto

lemma evict_by_keeps:
  assumes "hm_wf m"
  shows "hm_wf (evict_by fresh age limit place m)" "set (evict_by fresh age limit place m) \<subseteq> set m"
  using assms retain_subset [of "\<lambda>_. fresh" m] remove_keys_subset
  by (auto simp: evict_by_def Let_def hm_wf_remove_keys)

lemma evict_by_room:
  assumes "hm_wf m" "0 < limit"
  shows "length (evict_by fresh age limit place m) < limit"
proof -
  let ?m = "retain (\<lambda>_. fresh) m"
  let ?es = "sort_key (\<lambda>e. age (snd e)) (iterate place ?m)"
  let ?n = "length ?m - usize_pred 64 limit"
  have "distinct (map fst (take ?n ?es))"
    unfolding take_map [symmetric] by (intro distinct_take distinct_sort_keys hm_wf_iterate hm_wf_retain assms(1))
  moreover have "set (map fst (take ?n ?es)) \<subseteq> fst ` set ?m"
    using set_take_subset [of ?n ?es] by auto
  ultimately have "length (remove_keys (map fst (take ?n ?es)) ?m) + length (map fst (take ?n ?es)) = length ?m"
    using assms(1) by (intro length_remove_keys) simp_all
  then have "length (remove_keys (map fst (take ?n ?es)) ?m) = length ?m - ?n" by simp
  then show ?thesis
    using assms(2) by (auto simp: evict_by_def Let_def usize_pred_def)
qed

lemma drop_oldest_keeps:
  assumes "hm_wf m"
  shows "hm_wf (drop_oldest age limit place m)" "set (drop_oldest age limit place m) \<subseteq> set m"
  using assms by (simp_all add: drop_oldest_def remove_subset split: option.split prod.split)

lemma drop_oldest_room:
  assumes "hm_wf m" "0 < limit" "length m \<le> limit"
  shows "length (drop_oldest age limit place m) < limit"
proof (cases "limit \<le> length m")
  case True
  then have "length m \<noteq> 0" using assms(2) by linarith
  then have "iterate place m \<noteq> []" by (metis length_0_conv length_iterate)
  then have "min_by_key age (iterate place m) \<noteq> None" by (simp only: min_by_key_None not_False_eq_True)
  then obtain k v where kv: "min_by_key age (iterate place m) = Some (k, v)" by (metis option.exhaust surj_pair)
  then have "(k, v) \<in> set m" using min_by_key_Some by fastforce
  then have "k \<in> fst ` set m" by force
  then show ?thesis
    using length_remove [OF assms(1), of k] True assms(3) by (simp add: drop_oldest_def kv)
qed (simp add: drop_oldest_def)

section \<open>The contract of a bounded cache\<close>

text \<open>
  \<open>room t k m\<close> is the map after making room for an insertion of \<open>k\<close>; \<open>t\<close> stands for the clock readings it takes. It
  drops entries only, and enough of them.
\<close>

datatype ('t, 'k, 'v) cache_op = Store 't 'k 'v | Purge "'k \<Rightarrow> 'v \<Rightarrow> bool"

locale bounded_cache =
  fixes cap :: nat
    and room :: "'t \<Rightarrow> 'k \<Rightarrow> ('k, 'v) hmap \<Rightarrow> ('k, 'v) hmap"
  assumes room_wf: "hm_wf m \<Longrightarrow> hm_wf (room t k m)"
    and room_subset: "hm_wf m \<Longrightarrow> set (room t k m) \<subseteq> set m"
    and room_bound: "hm_wf m \<Longrightarrow> length m \<le> cap \<Longrightarrow> length (hm_insert k v (room t k m)) \<le> cap"
begin

fun apply_op :: "('t, 'k, 'v) cache_op \<Rightarrow> ('k, 'v) hmap \<Rightarrow> ('k, 'v) hmap" where
  "apply_op (Store t k v) m = hm_insert k v (room t k m)"
| "apply_op (Purge P) m = retain P m"

lemma store_get [simp]: "hm_get (hm_insert k v (room t k m)) k = Some v"
  by (simp add: update_conv)

lemma store_other:
  "hm_wf m \<Longrightarrow> k' \<noteq> k \<Longrightarrow> hm_get (hm_insert k v (room t k m)) k' = Some v' \<Longrightarrow> hm_get m k' = Some v'"
  using room_subset [of m t k] room_wf [of m t k] by (auto simp: update_conv hm_get_in)

lemma apply_op_keeps:
  "hm_wf m \<Longrightarrow> length m \<le> cap \<Longrightarrow> hm_wf (apply_op c m) \<and> length (apply_op c m) \<le> cap"
  by (cases c) (auto simp: room_bound room_wf intro: order_trans [OF length_retain])

text \<open>However it was used, the cache stays within its bound.\<close>

lemma run_bounded: "hm_wf (fold apply_op ops []) \<and> length (fold apply_op ops []) \<le> cap"
proof -
  have "hm_wf m \<Longrightarrow> length m \<le> cap \<Longrightarrow> hm_wf (fold apply_op ops m) \<and> length (fold apply_op ops m) \<le> cap" for m
  proof (induction ops arbitrary: m)
    case (Cons c ops)
    then show ?case using apply_op_keeps [of m c] by simp
  qed simp
  then show ?thesis by simp
qed

text \<open>What it holds for a key is what was stored last for that key.\<close>

lemma run_last_store:
  assumes "hm_get (fold apply_op ops []) k = Some v"
  shows "\<exists>before t after. ops = before @ Store t k v # after \<and> (\<forall>t' v'. Store t' k v' \<notin> set after)"
  using assms
proof (induction ops rule: rev_induct)
  case (snoc c ops)
  let ?m = "fold apply_op ops []"
  have wf: "hm_wf ?m" using run_bounded by blast
  have step: "\<exists>before t after. ops @ [c] = before @ Store t k v # after \<and> (\<forall>t' v'. Store t' k v' \<notin> set after)"
    if "hm_get ?m k = Some v" "\<forall>t' v'. c \<noteq> Store t' k v'"
  proof -
    from snoc.IH [OF that(1)] obtain before t after
      where "ops = before @ Store t k v # after" "\<forall>t' v'. Store t' k v' \<notin> set after" by blast
    then show ?thesis using that(2) by (intro exI [of _ before] exI [of _ t] exI [of _ "after @ [c]"]) auto
  qed
  show ?case
  proof (cases c)
    case (Store t k' v')
    show ?thesis
    proof (cases "k' = k")
      case True
      then have "c = Store t k v" using snoc.prems Store by simp
      then show ?thesis by (intro exI [of _ ops] exI [of _ t] exI [of _ "[]"]) simp
    next
      case False
      then have "hm_get ?m k = Some v" using snoc.prems Store store_other [OF wf, of k k' v' t v] by simp
      then show ?thesis using step Store False by simp
    qed
  next
    case (Purge P)
    then have "(k, v) \<in> set (retain P ?m)" using snoc.prems wf by (simp add: hm_get_in)
    then have "hm_get ?m k = Some v" using wf retain_subset [of P ?m] by (auto simp: hm_get_in)
    then show ?thesis using step Purge by simp
  qed
qed simp

end

end
