(* ===== verification/Dns_Wire.thy ===== *)
theory Dns_Wire
  imports Messages Rust_Strings
begin

text \<open>
  DNS messages on the wire: the query builder and the response parser of \<open>rvpn-split-tunnel/src/dns_cache.rs\<close>, and the
  query parser and response builders of the desktop client's DNS proxy (\<open>rvpn-client/src/dns_proxy.rs\<close>). Names are byte
  strings. The theorems connect the two files: what one builds, the other reads.
\<close>

section \<open>Names\<close>

datatype dns_error = ResponseTooShort | TxidMismatch | NotAResponse | ResponseCode u16 | NoARecords | TruncatedName
  | QueryTooShort | TruncatedQname | CompressedName | LabelBeyondPacket | LabelNotUtf8 | TruncatedQuestion

function skip_dns_name :: "bytes \<Rightarrow> nat \<Rightarrow> (dns_error, nat) outcome" where
  "skip_dns_name data pos =
     (if length data \<le> pos then Err TruncatedName
      else let len = data ! pos
           in if len = 0 then Ok (pos + 1)
              else if and len 0xC0 = 0xC0 then Ok (pos + 2)
              else skip_dns_name data (pos + (1 + unat len)))"
  by pat_completeness auto
termination by (relation "measure (\<lambda>(data, pos). length data - pos)") auto

function parse_qname :: "bytes \<Rightarrow> nat \<Rightarrow> bytes list \<Rightarrow> (dns_error, bytes list \<times> nat) outcome" where
  "parse_qname data pos labels =
     (if length data \<le> pos then Err TruncatedQname
      else let len = data ! pos
           in if len = 0 then Ok (labels, pos + 1)
              else if and len 0xC0 = 0xC0 then Err CompressedName
              else if length data < pos + 1 + unat len then Err LabelBeyondPacket
              else and_then (bslice data (pos + 1) (pos + 1 + unat len)) (\<lambda>label.
                   and_then (from_utf8 LabelNotUtf8 label) (\<lambda>label.
                   parse_qname data (pos + 1 + unat len) (labels @ [label]))))"
  by pat_completeness auto
termination by (relation "measure (\<lambda>(data, pos, labels). length data - pos)") auto

function find_question_end :: "bytes \<Rightarrow> nat \<Rightarrow> nat" where
  "find_question_end query pos =
     (if pos < length query
      then let len = query ! pos in if len = 0 then pos + 5 else find_question_end query (pos + (1 + unat len))
      else length query)"
  by pat_completeness auto
termination by (relation "measure (\<lambda>(query, pos). length query - pos)") auto

declare skip_dns_name.simps [simp del] parse_qname.simps [simp del] find_question_end.simps [simp del]

section \<open>Queries\<close>

definition build_dns_query_packet :: "bytes \<Rightarrow> u16 \<Rightarrow> bytes" where
  "build_dns_query_packet domain txid =
     to_be_bytes 2 txid @ [0x01, 0x00] @ [0x00, 0x01] @ [0x00, 0x00] @ [0x00, 0x00] @ [0x00, 0x00]
     @ concat (map (\<lambda>label. of_nat (length label) # label) (split_on 46 domain)) @ [0x00]
     @ [0x00, 0x01] @ [0x00, 0x01]"

definition parse_dns_query :: "bytes \<Rightarrow> (dns_error, u16 \<times> bytes \<times> u16) outcome" where
  "parse_dns_query data =
     (if length data < 17 then Err QueryTooShort
      else and_then (read_u16_be data 0) (\<lambda>txid.
           and_then (parse_qname data 12 []) (\<lambda>(labels, pos).
           let domain = join 46 labels
           in if length data < pos + 4 then Err TruncatedQuestion
              else and_then (read_u16_be data pos) (\<lambda>qtype. Ok (txid, domain, qtype)))))"

section \<open>Responses\<close>

definition answer_record :: "u32 \<Rightarrow> ipv4_addr \<Rightarrow> bytes" where
  "answer_record ttl addr = [0xC0, 0x0C] @ [0x00, 0x01] @ [0x00, 0x01] @ to_be_bytes 4 ttl @ [0x00, 0x04] @ ipv4_octets addr"

definition build_dns_response :: "bytes \<Rightarrow> u16 \<Rightarrow> dns_response \<Rightarrow> (dns_error, bytes) outcome" where
  "build_dns_response query txid response =
     (let ancount = (of_nat (length (dr_ipv4_addrs response)) :: u16);
          question_end = find_question_end query 12
      in and_then (bslice query 12 question_end) (\<lambda>question.
         Ok (to_be_bytes 2 txid @ [0x81, 0x80] @ [0x00, 0x01] @ to_be_bytes 2 ancount @ [0x00, 0x00, 0x00, 0x00]
             @ question @ concat (map (answer_record (max (dr_ttl response) 30)) (dr_ipv4_addrs response)))))"

definition build_dns_nxdomain :: "u16 \<Rightarrow> bytes" where
  "build_dns_nxdomain txid = to_be_bytes 2 txid @ [0x81, 0x83] @ replicate 8 0"

definition build_dns_servfail :: "u16 \<Rightarrow> bytes" where
  "build_dns_servfail txid = to_be_bytes 2 txid @ [0x81, 0x82] @ replicate 8 0"

primrec skip_questions :: "bytes \<Rightarrow> nat \<Rightarrow> nat \<Rightarrow> (dns_error, nat) outcome" where
  "skip_questions data pos 0 = Ok pos"
| "skip_questions data pos (Suc n) = and_then (skip_dns_name data pos) (\<lambda>pos. skip_questions data (pos + 4) n)"

primrec parse_answers :: "bytes \<Rightarrow> nat \<Rightarrow> ip_addr list \<Rightarrow> u32 \<Rightarrow> nat \<Rightarrow> (dns_error, ip_addr list \<times> u32) outcome" where
  "parse_answers data pos ips min_ttl 0 = Ok (ips, min_ttl)"
| "parse_answers data pos ips min_ttl (Suc n) =
     and_then (skip_dns_name data pos) (\<lambda>pos.
     if length data < pos + 10 then Ok (ips, min_ttl)
     else and_then (read_u16_be data pos) (\<lambda>qtype.
          and_then (read_u32_be data (pos + 4)) (\<lambda>ttl.
          and_then (read_u16_be data (pos + 8)) (\<lambda>rdlength.
          let pos = pos + 10;
              (ips, min_ttl) =
                (if qtype = 1 \<and> rdlength = 4 \<and> pos + 4 \<le> length data
                 then (ips @ [V4 (ipv4_new (data ! pos) (data ! (pos + 1)) (data ! (pos + 2)) (data ! (pos + 3)))],
                       if ttl < min_ttl then ttl else min_ttl)
                 else (ips, min_ttl))
          in parse_answers data (pos + unat rdlength) ips min_ttl n))))"

definition parse_dns_a_response :: "bytes \<Rightarrow> u16 \<Rightarrow> (dns_error, ip_addr list \<times> u32) outcome" where
  "parse_dns_a_response data expected_txid =
     (if length data < 12 then Err ResponseTooShort
      else and_then (read_u16_be data 0) (\<lambda>txid.
      if txid \<noteq> expected_txid then Err TxidMismatch
      else and_then (read_u16_be data 2) (\<lambda>flags.
      if and (drop_bit 15 flags) 1 \<noteq> 1 then Err NotAResponse
      else let rcode = and flags 0x0F
           in if rcode \<noteq> 0 then Err (ResponseCode rcode)
              else and_then (read_u16_be data 4) (\<lambda>qdcount.
                   and_then (read_u16_be data 6) (\<lambda>ancount.
                   and_then (skip_questions data 12 (unat qdcount)) (\<lambda>pos.
                   and_then (parse_answers data pos [] 0xFFFFFFFF (unat ancount)) (\<lambda>(ips, min_ttl).
                   if ips = [] then Err NoARecords else Ok (ips, min min_ttl 14400))))))))"

section \<open>Nothing panics\<close>

lemma skip_dns_name_no_panic [simp]: "skip_dns_name data pos \<noteq> Panic"
  by (induction data pos rule: skip_dns_name.induct) (subst skip_dns_name.simps, simp add: Let_def)

lemma parse_qname_no_panic [simp]: "parse_qname data pos labels \<noteq> Panic"
proof (induction data pos labels rule: parse_qname.induct)
  case (1 data pos labels)
  then show ?case by (subst parse_qname.simps) (auto simp: Let_def and_then_Panic_iff from_utf8_def)
qed

lemma skip_questions_no_panic [simp]: "skip_questions data pos n \<noteq> Panic"
  by (induction n arbitrary: pos) (auto simp: and_then_Panic_iff)

lemma parse_answers_no_panic [simp]: "parse_answers data pos ips t n \<noteq> Panic"
  by (induction n arbitrary: pos ips t) (auto simp: and_then_Panic_iff Let_def split: prod.split)

lemma dns_parsers_no_panic: "parse_dns_query data \<noteq> Panic" "parse_dns_a_response data t \<noteq> Panic"
  by (auto simp: parse_dns_query_def parse_dns_a_response_def and_then_Panic_iff Let_def split: prod.split)

section \<open>The question survives\<close>

lemma compressed_iff: "and (b :: u8) 0xC0 = 0xC0 \<longleftrightarrow> 192 \<le> unat b"
proof -
  have "list_all (\<lambda>n. (and (of_nat n :: u8) 192 = 192) = (192 \<le> n)) [0..<256]" by code_simp
  then have "\<forall>n \<in> {0..<256}. (and (of_nat n :: u8) 192 = 192) = (192 \<le> n)" by (simp add: list_all_iff)
  then have "(and (of_nat (unat b) :: u8) 192 = 192) = (192 \<le> unat b)" by (rule bspec) simp
  then show ?thesis by simp
qed

text \<open>One step of the walk over a name.\<close>

lemma parse_qname_Ok:
  "parse_qname q pos labels = Ok (ls, e) \<longleftrightarrow>
     pos < length q \<and>
     (let len = unat (q ! pos); label = take len (drop (pos + 1) q)
      in if len = 0 then ls = labels \<and> e = pos + 1
         else len < 192 \<and> pos + 1 + len \<le> length q \<and> utf8_valid label
              \<and> parse_qname q (pos + 1 + len) (labels @ [label]) = Ok (ls, e))"
  by (subst parse_qname.simps) (auto simp: Let_def compressed_iff unat_eq_0 and_then_Ok_iff from_utf8_def)

text \<open>A packet with the same bytes where the name is has the same name there.\<close>

lemma parse_qname_end:
  assumes "parse_qname q pos labels = Ok (ls, e)"
  shows "pos < e \<and> e \<le> length q \<and> find_question_end q pos = e + 4
    \<and> (\<forall>d. e \<le> length d \<and> (\<forall>i. pos \<le> i \<and> i < e \<longrightarrow> d ! i = q ! i) \<longrightarrow> skip_dns_name d pos = Ok e)"
  using assms
proof (induction "length q - pos" arbitrary: pos labels rule: less_induct)
  case less
  let ?len = "unat (q ! pos)"
  have pos: "pos < length q" using less.prems parse_qname_Ok by blast
  show ?case
  proof (cases "?len = 0")
    case True
    then have "q ! pos = 0" "e = pos + 1" using less.prems by (auto simp: parse_qname_Ok [of q pos] unat_eq_0)
    with pos show ?thesis by (subst find_question_end.simps) (auto simp: skip_dns_name.simps)
  next
    case False
    have n: "?len < 192" "pos + 1 + ?len \<le> length q"
      "parse_qname q (pos + 1 + ?len) (labels @ [take ?len (drop (pos + 1) q)]) = Ok (ls, e)"
      using less.prems False by (auto simp: parse_qname_Ok [of q pos] Let_def)
    have IH: "pos + 1 + ?len < e" "e \<le> length q" "find_question_end q (pos + 1 + ?len) = e + 4"
      "\<And>d. e \<le> length d \<Longrightarrow> (\<forall>i. pos + 1 + ?len \<le> i \<and> i < e \<longrightarrow> d ! i = q ! i) \<Longrightarrow>
         skip_dns_name d (pos + 1 + ?len) = Ok e"
      using less.hyps [OF _ n(3)] pos by auto
    have "skip_dns_name d pos = Ok e" if "e \<le> length d" "\<forall>i. pos \<le> i \<and> i < e \<longrightarrow> d ! i = q ! i" for d
      using IH(1) IH(4) [of d] that False n(1) pos
      by (subst skip_dns_name.simps) (auto simp: compressed_iff unat_eq_0)
    moreover have "find_question_end q pos = e + 4"
      using IH(3) False pos by (subst find_question_end.simps) (simp add: unat_eq_0)
    ultimately show ?thesis using IH(1,2) by auto
  qed
qed

lemma parse_dns_query_Ok:
  assumes "parse_dns_query q = Ok (txid, domain, qtype)"
  obtains labels e where "parse_qname q 12 [] = Ok (labels, e)" "e + 4 \<le> length q" "17 \<le> length q"
    "txid = from_be_bytes (take 2 q)" "domain = join 46 labels" "qtype = from_be_bytes (take 2 (drop e q))"
  using assms by (auto simp: parse_dns_query_def and_then_Ok_iff Let_def split: if_splits)

section \<open>Names that were built\<close>

lemma utf8_valid_join: "ps \<noteq> [] \<Longrightarrow> utf8_valid (join 46 ps) \<longleftrightarrow> (\<forall>p \<in> set ps. utf8_valid p)"
  by (induction "46 :: u8" ps rule: join.induct) (auto simp: utf8_valid_split)

lemma utf8_valid_labels: "utf8_valid d \<Longrightarrow> p \<in> set (split_on 46 d) \<Longrightarrow> utf8_valid p"
  using utf8_valid_join [of "split_on 46 d"] by simp

definition label_ok :: "bytes \<Rightarrow> bool" where
  "label_ok label \<longleftrightarrow> 0 < length label \<and> length label < 192 \<and> utf8_valid label"

lemma parse_qname_built:
  assumes "length pre = pos" "\<forall>l \<in> set ls. label_ok l"
  shows "parse_qname (pre @ concat (map (\<lambda>l. of_nat (length l) # l) ls) @ 0 # rest) pos labels
    = Ok (labels @ ls, pos + length (concat (map (\<lambda>l. of_nat (length l) # l) ls)) + 1)"
  using assms
proof (induction ls arbitrary: pre pos labels)
  case Nil
  then have "(pre @ 0 # rest) ! pos = 0" by auto
  then show ?case using Nil by (subst parse_qname_Ok) simp
next
  case (Cons l ls)
  let ?data = "pre @ concat (map (\<lambda>l. of_nat (length l) # l) (l # ls)) @ 0 # rest"
  have l: "0 < length l" "length l < 192" "utf8_valid l" using Cons.prems(2) by (auto simp: label_ok_def)
  have at: "?data ! pos = of_nat (length l)" "take (length l) (drop (pos + 1) ?data) = l"
    "pos + 1 + length l \<le> length ?data"
    using Cons.prems(1) by (auto simp: nth_append)
  have "parse_qname ?data (pos + 1 + length l) (labels @ [l])
      = Ok ((labels @ [l]) @ ls, pos + 1 + length l + length (concat (map (\<lambda>l. of_nat (length l) # l) ls)) + 1)"
    using Cons.IH [of "pre @ of_nat (length l) # l" "pos + 1 + length l" "labels @ [l]"] Cons.prems by simp
  then show ?case
    using l at by (subst parse_qname_Ok) (simp add: Let_def add.assoc)
qed

section \<open>The answers survive\<close>

lemma parse_answers_records:
  assumes "length pre = pos" "t < 0xFFFFFFFF" "m = 0xFFFFFFFF \<or> m = t"
  shows "parse_answers (pre @ concat (map (answer_record t) addrs)) pos ips m (length addrs)
    = Ok (ips @ map V4 addrs, if addrs = [] then m else t)"
  using assms
proof (induction addrs arbitrary: pre pos ips m)
  case (Cons a addrs)
  let ?data = "pre @ concat (map (answer_record t) (a # addrs))"
  have rec: "length (answer_record t b) = 16" for b by (simp add: answer_record_def)
  have skip: "skip_dns_name ?data pos = Ok (pos + 2)"
    using Cons.prems(1) by (subst skip_dns_name.simps) (simp add: nth_append answer_record_def)
  have d: "drop (pos + 2) ?data = [0, 1, 0, 1] @ to_be_bytes 4 t @ [0, 4] @ ipv4_octets a @ concat (map (answer_record t) addrs)"
    using Cons.prems(1) by (simp add: answer_record_def)
  have IH: "parse_answers ?data (pos + 16) (ips @ [V4 a]) t (length addrs) = Ok ((ips @ [V4 a]) @ map V4 addrs, t)"
    using Cons.IH [of "pre @ answer_record t a" "pos + 16" t "ips @ [V4 a]"] Cons.prems rec by simp
  have len: "pos + 16 \<le> length ?data" using Cons.prems(1) rec by simp
  have dn: "drop (pos + 2 + k) ?data = drop k (drop (pos + 2) ?data)" for k
    by (simp only: drop_drop add.commute)
  have "take 2 (drop (pos + 2) ?data) = [0, 1]" unfolding d by simp
  then have r1: "read_u16_be ?data (pos + 2) = (Ok 1 :: (dns_error, _) outcome)"
    using len by (simp add: from_be_bytes_def from_le_bytes_def)
  have "take 4 (drop (pos + 2 + 4) ?data) = to_be_bytes 4 t" unfolding dn d by simp
  then have r2: "read_u32_be ?data (pos + 2 + 4) = (Ok t :: (dns_error, _) outcome)"
    using len by simp
  have "take 2 (drop (pos + 2 + 8) ?data) = [0, 4]" unfolding dn d by simp
  then have r3: "read_u16_be ?data (pos + 2 + 8) = (Ok 4 :: (dns_error, _) outcome)"
    using len by (simp add: from_be_bytes_def from_le_bytes_def)
  have "?data ! (pos + 2 + 10 + k) = ipv4_octets a ! k" if "k < 4" for k
  proof -
    have "pos + 2 \<le> length ?data" using len by simp
    then have "?data ! (pos + 2 + 10 + k) = drop (pos + 2) ?data ! (10 + k)" by (simp only: nth_drop add.assoc)
    also have "\<dots> = ipv4_octets a ! k" unfolding d using that by (simp add: nth_append)
    finally show ?thesis .
  qed
  from this [of 0] this [of 1] this [of 2] this [of 3] have r4:
    "ipv4_new (?data ! (pos + 2 + 10)) (?data ! (pos + 2 + 10 + 1)) (?data ! (pos + 2 + 10 + 2)) (?data ! (pos + 2 + 10 + 3)) = a"
    by simp
  have m: "(if t < m then t else m) = t" using Cons.prems(2,3) by auto
  have "parse_answers ?data pos ips m (Suc (length addrs)) = parse_answers ?data (pos + 16) (ips @ [V4 a]) t (length addrs)"
    unfolding parse_answers.simps skip and_then.simps r1 r2 r3 Let_def r4 m using len
    by (simp del: list.map concat.simps) (simp only: add.commute)
  then show ?case using IH by simp
qed simp

section \<open>Properties\<close>

lemma response_question:
  assumes "parse_qname q 12 [] = Ok (labels, e)" "e + 4 \<le> length q"
    and "length h = 12" "d = h @ take (e + 4 - 12) (drop 12 q) @ rest"
  shows "skip_dns_name d 12 = Ok e"
proof -
  note e = parse_qname_end [OF assms(1)]
  have "d ! i = q ! i" if "12 \<le> i" "i < e" for i
  proof -
    have "i - 12 < e - 8" using that by linarith
    then show ?thesis using that assms(2-4) by (simp add: nth_append)
  qed
  moreover have "e \<le> length d" using assms(2-4) e by simp
  ultimately show ?thesis using e by blast
qed

lemma parse_dns_a_response_eq:
  assumes "12 \<le> length d" "take 2 (drop 0 d) = to_be_bytes 2 txid" "take 2 (drop 2 d) = [0x81, 0x80]"
    "take 2 (drop 4 d) = [0, 1]" "take 2 (drop 6 d) = to_be_bytes 2 (n :: u16)" "skip_dns_name d 12 = Ok e"
  shows "parse_dns_a_response d txid =
    and_then (parse_answers d (e + 4) [] 0xFFFFFFFF (unat n)) (\<lambda>(ips, min_ttl).
    if ips = [] then Err NoARecords else Ok (ips, min min_ttl 14400))"
proof -
  have reads: "read_u16_be d 0 = (Ok txid :: (dns_error, _) outcome)" "read_u16_be d 2 = (Ok 0x8180 :: (dns_error, _) outcome)"
    "read_u16_be d 4 = (Ok 1 :: (dns_error, _) outcome)" "read_u16_be d 6 = (Ok n :: (dns_error, _) outcome)"
    using assms by (simp_all add: from_be_bytes_def [of "[_, _]"] from_le_bytes_def [of "[_, _]"])
  have "and (drop_bit 15 0x8180) 1 = (1 :: u16)" "and 0x8180 0x0F = (0 :: u16)" by simp_all
  then show ?thesis using assms(1,6) by (simp add: parse_dns_a_response_def reads)
qed

text \<open>C17: the response that the proxy builds for a query it has parsed never panics, and the parser of the resolver
  reads from it the transaction id of the query and exactly the addresses of the answer, with the time to live of the
  answer moved into the range from 30 seconds to 4 hours; an answer without addresses is reported as one.\<close>

theorem proxy_answer_reads_back:
  assumes "parse_dns_query q = Ok (txid, domain, qtype)" "length (dr_ipv4_addrs r) < 65536" "dr_ttl r < 0xFFFFFFFF"
  shows "\<exists>d. build_dns_response q txid r = Ok d
     \<and> parse_dns_a_response d txid =
         (if dr_ipv4_addrs r = [] then Err NoARecords
          else Ok (map V4 (dr_ipv4_addrs r), min (max (dr_ttl r) 30) 14400))"
proof -
  from parse_dns_query_Ok [OF assms(1)] obtain labels e where
    q: "parse_qname q 12 [] = Ok (labels, e)" "e + 4 \<le> length q" by metis
  note e = parse_qname_end [OF q(1)]
  let ?t = "max (dr_ttl r) 30"
  let ?h = "to_be_bytes 2 txid @ [0x81, 0x80] @ [0x00, 0x01]
    @ to_be_bytes 2 (of_nat (length (dr_ipv4_addrs r)) :: u16) @ [0x00, 0x00, 0x00, 0x00]"
  let ?q = "take (e + 4 - 12) (drop 12 q)"
  let ?d = "?h @ ?q @ concat (map (answer_record ?t) (dr_ipv4_addrs r))"
  have d: "build_dns_response q txid r = Ok ?d"
    using e q(2) by (simp add: build_dns_response_def)
  have skip: "skip_dns_name ?d 12 = Ok e"
    by (rule response_question [OF q, of ?h]) simp_all
  have "length (?h @ ?q) = e + 4" using e q(2) by simp
  moreover have "?t < 0xFFFFFFFF" using assms(3) by (simp add: max_def)
  ultimately have answers: "parse_answers ?d (e + 4) [] 0xFFFFFFFF (length (dr_ipv4_addrs r))
      = Ok (map V4 (dr_ipv4_addrs r), if dr_ipv4_addrs r = [] then 0xFFFFFFFF else ?t)"
    using parse_answers_records [of "?h @ ?q" "e + 4" ?t _ "dr_ipv4_addrs r" "[]"] by simp
  have len: "12 \<le> length ?d" by simp
  have "take 2 (drop 0 ?d) = to_be_bytes 2 txid" "take 2 (drop 2 ?d) = [0x81, 0x80]" "take 2 (drop 4 ?d) = [0, 1]"
    "take 2 (drop 6 ?d) = to_be_bytes 2 (of_nat (length (dr_ipv4_addrs r)) :: u16)" by simp_all
  note parsed = parse_dns_a_response_eq [OF len this skip]
  have n: "unat (of_nat (length (dr_ipv4_addrs r)) :: u16) = length (dr_ipv4_addrs r)" using assms(2) by simp
  have "parse_dns_a_response ?d txid = (if dr_ipv4_addrs r = [] then Err NoARecords
      else Ok (map V4 (dr_ipv4_addrs r), min ?t 14400))"
    unfolding parsed n answers and_then.simps prod.case by simp
  with d show ?thesis by blast
qed

theorem proxy_answer_reads_back_witness:
  "\<exists>d. build_dns_response [0, 7, 1, 0, 0, 1, 0, 0, 0, 0, 0, 0, 1, 97, 1, 98, 0, 0, 1, 0, 1] 7
         \<lparr>dr_query_id = 0, dr_success = True, dr_ipv4_addrs = [0x01020304, 0x05060708], dr_ipv6_addrs = [], dr_ttl = 5,
          dr_error = None\<rparr> = Ok d
     \<and> parse_dns_a_response d 7 = Ok ([V4 0x01020304, V4 0x05060708], 30)"
proof -
  have "parse_dns_query [0, 7, 1, 0, 0, 1, 0, 0, 0, 0, 0, 0, 1, 97, 1, 98, 0, 0, 1, 0, 1] = Ok (7, [97, 46, 98], 1)"
    by code_simp
  from proxy_answer_reads_back [OF this, of
      "\<lparr>dr_query_id = 0, dr_success = True, dr_ipv4_addrs = [0x01020304, 0x05060708], dr_ipv6_addrs = [], dr_ttl = 5,
        dr_error = None\<rparr>"]
  show ?thesis by simp
qed

lemma parse_dns_query_eq:
  assumes "length h = 12" "take 2 h = to_be_bytes 2 txid"
    and "parse_qname (h @ n @ 0 # [0, 1, 0, 1]) 12 [] = Ok (ls, 12 + length n + 1)"
  shows "parse_dns_query (h @ n @ 0 # [0, 1, 0, 1]) = Ok (txid, join 46 ls, 1)"
proof -
  have "drop (12 + length n + 1) (h @ n @ 0 # [0, 1, 0, 1]) = [0, 1, 0, 1]" using assms(1) by simp
  then have "read_u16_be (h @ n @ 0 # [0, 1, 0, 1]) (12 + length n + 1) = (Ok 1 :: (dns_error, _) outcome)"
    using assms(1) by (simp add: from_be_bytes_def from_le_bytes_def)
  moreover have "read_u16_be (h @ n @ 0 # [0, 1, 0, 1]) 0 = (Ok txid :: (dns_error, _) outcome)"
    using assms(1,2) by simp
  ultimately show ?thesis
    using assms(1,3) by (simp add: parse_dns_query_def)
qed

text \<open>C24: the query that the resolver builds for a name is parsed by the proxy as a question of type A for that very
  name under the same transaction id, if every label of the name has between 1 and 191 bytes.\<close>

theorem built_query_reads_back:
  assumes "utf8_valid domain" "\<forall>l \<in> set (split_on 46 domain). 0 < length l \<and> length l < 192"
  shows "parse_dns_query (build_dns_query_packet domain txid) = Ok (txid, domain, 1)"
proof -
  let ?h = "to_be_bytes 2 txid @ [0x01, 0x00] @ [0x00, 0x01] @ [0x00, 0x00] @ [0x00, 0x00] @ [0x00, 0x00]"
  let ?n = "concat (map (\<lambda>l. of_nat (length l) # l) (split_on 46 domain))"
  have p: "build_dns_query_packet domain txid = ?h @ ?n @ 0 # [0, 1, 0, 1]"
    by (simp add: build_dns_query_packet_def)
  have "\<forall>l \<in> set (split_on 46 domain). label_ok l"
    using assms by (auto simp: label_ok_def utf8_valid_labels)
  then have q: "parse_qname (?h @ ?n @ 0 # [0, 1, 0, 1]) 12 [] = Ok ([] @ split_on 46 domain, 12 + length ?n + 1)"
    by (intro parse_qname_built) simp_all
  from parse_dns_query_eq [OF _ _ q, of txid] show ?thesis by (simp add: p)
qed

theorem built_query_reads_back_witness:
  "parse_dns_query (build_dns_query_packet [97, 46, 98] 7) = Ok (7, [97, 46, 98], 1)"
  using built_query_reads_back [of "[97, 46, 98]" 7] by simp

end
