(* ===== verification/Dns_Cache.thy ===== *)
theory Dns_Cache
  imports Caches Dns_Wire Net_Addr
begin

text \<open>
  The caching resolver of \<open>rvpn-split-tunnel/src/dns_cache.rs\<close>. Instants and durations are numbers of nanoseconds. The
  datagrams that come back, the answers of the system resolver, the clock readings and the iteration order of the map
  are arguments.
\<close>

section \<open>State\<close>

type_synonym socket_addr = "ip_addr \<times> u16"
type_synonym place = "chars \<Rightarrow> nat"

definition secs :: "nat \<Rightarrow> nat" where
  "secs n = n * 1000000000"

record dns_entry =
  ips :: "ip_addr list"
  cached_at :: nat
  entry_ttl :: nat
  failed :: bool

record dns_resolver =
  cache :: "(chars, dns_entry) hmap"
  cache_enabled :: bool
  cache_ttl :: nat
  cache_size :: nat
  ipv6_enabled :: bool
  prefer_ipv4 :: bool
  nameservers :: "socket_addr list"

definition LAST_RESORT_NAMESERVERS :: "socket_addr list" where
  "LAST_RESORT_NAMESERVERS = [(V4 (ipv4_new 1 1 1 1), 53), (V4 (ipv4_new 8 8 8 8), 53)]"

fun push_missing :: "'a list \<Rightarrow> 'a list \<Rightarrow> 'a list" where
  "push_missing out [] = out"
| "push_missing out (ns # rest) = push_missing (if ns \<in> set out then out else out @ [ns]) rest"

definition with_last_resort_nameservers :: "socket_addr list \<Rightarrow> socket_addr list" where
  "with_last_resort_nameservers ns = (if ns = [] then [] else push_missing ns LAST_RESORT_NAMESERVERS)"

definition resolver_new :: "bool \<Rightarrow> u64 \<Rightarrow> nat \<Rightarrow> bool \<Rightarrow> bool \<Rightarrow> socket_addr list \<Rightarrow> dns_resolver" where
  "resolver_new enabled ttl_secs limit ipv6 prefer ns =
     \<lparr>cache = [], cache_enabled = enabled, cache_ttl = secs (unat ttl_secs), cache_size = limit, ipv6_enabled = ipv6,
      prefer_ipv4 = prefer, nameservers = with_last_resort_nameservers ns\<rparr>"

section \<open>The cache\<close>

text \<open>\<open>Instant::duration_since\<close> and \<open>elapsed\<close> saturate at zero.\<close>

definition fresh :: "nat \<Rightarrow> dns_entry \<Rightarrow> bool" where
  "fresh now e \<longleftrightarrow> now - cached_at e < entry_ttl e"

definition evict_if_needed :: "nat \<Rightarrow> place \<times> nat \<Rightarrow> (chars, dns_entry) hmap \<Rightarrow> (chars, dns_entry) hmap" where
  "evict_if_needed limit = (\<lambda>(place, now) m. evict_by (fresh now) cached_at limit place m)"

text \<open>The entry is made before the lock is taken; the clock is read again when making room.\<close>

definition store_with_ttl :: "dns_resolver \<Rightarrow> nat \<Rightarrow> place \<times> nat \<Rightarrow> chars \<Rightarrow> ip_addr list \<Rightarrow> nat \<Rightarrow> dns_resolver" where
  "store_with_ttl r now later host addrs ttl =
     (if \<not> cache_enabled r then r
      else r\<lparr>cache := hm_insert host \<lparr>ips = addrs, cached_at = now, entry_ttl = ttl, failed = False\<rparr>
               (evict_if_needed (cache_size r) later (cache r))\<rparr>)"

definition store :: "dns_resolver \<Rightarrow> nat \<Rightarrow> place \<times> nat \<Rightarrow> chars \<Rightarrow> ip_addr list \<Rightarrow> dns_resolver" where
  "store r now later host addrs = store_with_ttl r now later host addrs (cache_ttl r)"

definition store_ips :: "dns_resolver \<Rightarrow> nat \<Rightarrow> place \<times> nat \<Rightarrow> chars \<Rightarrow> ip_addr list \<Rightarrow> nat option \<Rightarrow> dns_resolver" where
  "store_ips r now later host addrs ttl =
     (if \<not> cache_enabled r then r
      else r\<lparr>cache := hm_insert host
               \<lparr>ips = addrs, cached_at = now, entry_ttl = (case ttl of Some t \<Rightarrow> t | None \<Rightarrow> cache_ttl r), failed = False\<rparr>
               (evict_if_needed (cache_size r) later (cache r))\<rparr>)"

definition store_failure :: "dns_resolver \<Rightarrow> nat \<Rightarrow> place \<times> nat \<Rightarrow> chars \<Rightarrow> dns_resolver" where
  "store_failure r now later host =
     (if \<not> cache_enabled r then r
      else r\<lparr>cache := hm_insert host \<lparr>ips = [], cached_at = now, entry_ttl = secs 30, failed = True\<rparr>
               (evict_if_needed (cache_size r) later (cache r))\<rparr>)"

definition lookup_cached :: "dns_resolver \<Rightarrow> nat \<Rightarrow> chars \<Rightarrow> ip_addr list option" where
  "lookup_cached r now host =
     (if \<not> cache_enabled r then None
      else case hm_get (cache r) host of
             Some entry \<Rightarrow>
               if fresh now entry then if failed entry then None else if ips entry \<noteq> [] then Some (ips entry) else None
               else None
           | None \<Rightarrow> None)"

definition get_remaining_ttl :: "dns_resolver \<Rightarrow> nat \<Rightarrow> chars \<Rightarrow> u32 option" where
  "get_remaining_ttl r now host =
     (if \<not> cache_enabled r then None
      else case hm_get (cache r) host of
             Some entry \<Rightarrow>
               if failed entry then None
               else (let remaining = entry_ttl entry - (now - cached_at entry);
                         s = (of_nat (remaining div 1000000000) :: u32)
                     in if 0 < s then Some s else None)
           | None \<Rightarrow> None)"

definition cleanup_cache :: "dns_resolver \<Rightarrow> nat \<Rightarrow> dns_resolver" where
  "cleanup_cache r now = (if \<not> cache_enabled r then r else r\<lparr>cache := retain (\<lambda>_. fresh now) (cache r)\<rparr>)"

definition cache_stats :: "dns_resolver \<Rightarrow> nat \<Rightarrow> nat \<times> nat" where
  "cache_stats r now = (length (cache r), length (filter (\<lambda>e. entry_ttl e \<le> now - cached_at e) (map snd (cache r))))"

definition clear_cache :: "dns_resolver \<Rightarrow> dns_resolver" where
  "clear_cache r = r\<lparr>cache := []\<rparr>"

section \<open>Resolution\<close>

fun is_v4 :: "ip_addr \<Rightarrow> bool" where
  "is_v4 (V4 a) = True"
| "is_v4 (V6 a) = False"

text \<open>A stable sort with IPv4 before IPv6.\<close>

definition order_addresses :: "dns_resolver \<Rightarrow> socket_addr list \<Rightarrow> socket_addr list" where
  "order_addresses r addrs = (if prefer_ipv4 r then sort_key (\<lambda>a. if is_v4 (fst a) then 0 else 1 :: nat) addrs else addrs)"

datatype udp_result = BindFailed | SendFailed | Datagram bytes | RecvFailed | TimedOut

datatype resolve_error = CachedFailure | NoAddresses | LookupFailed

text \<open>
  Up to three attempts. \<open>net attempt query\<close> is what happens to the query; the receive buffer has 512 bytes. Each attempt
  takes the next transaction id.
\<close>

fun query_attempts :: "(nat \<Rightarrow> bytes \<Rightarrow> udp_result) \<Rightarrow> chars \<Rightarrow> u16 \<Rightarrow> nat \<Rightarrow> nat
    \<Rightarrow> (ip_addr list \<times> u32) option \<times> u16" where
  "query_attempts net domain txid attempt 0 = (None, txid)"
| "query_attempts net domain txid attempt (Suc left) =
     (case net attempt (build_dns_query_packet (as_bytes domain) txid) of
        BindFailed \<Rightarrow> (None, txid)
      | Datagram d \<Rightarrow>
          ((case parse_dns_a_response (take 512 d) txid of Ok answer \<Rightarrow> Some answer | _ \<Rightarrow> None), txid + 1)
      | SendFailed \<Rightarrow> query_attempts net domain (txid + 1) (attempt + 1) left
      | RecvFailed \<Rightarrow> query_attempts net domain (txid + 1) (attempt + 1) left
      | TimedOut \<Rightarrow> query_attempts net domain (txid + 1) (attempt + 1) left)"

definition query_nameserver_udp :: "(nat \<Rightarrow> bytes \<Rightarrow> udp_result) \<Rightarrow> chars \<Rightarrow> u16 \<Rightarrow> (ip_addr list \<times> u32) option \<times> u16" where
  "query_nameserver_udp net domain txid = query_attempts net domain txid 0 3"

text \<open>The first nameserver with a usable answer.\<close>

fun ask_nameservers :: "dns_resolver \<Rightarrow> (socket_addr \<Rightarrow> nat \<Rightarrow> bytes \<Rightarrow> udp_result) \<Rightarrow> chars \<Rightarrow> u16 \<Rightarrow> socket_addr list
    \<Rightarrow> (ip_addr list \<times> u32) option \<times> u16" where
  "ask_nameservers r net host txid [] = (None, txid)"
| "ask_nameservers r net host txid (ns # rest) =
     (case query_nameserver_udp (net ns) host txid of
        (Some (addrs, ttl), txid) \<Rightarrow>
          (let addrs = (if ipv6_enabled r then addrs else filter is_v4 addrs)
           in if addrs \<noteq> [] then (Some (addrs, ttl), txid) else ask_nameservers r net host txid rest)
      | (None, txid) \<Rightarrow> ask_nameservers r net host txid rest)"

text \<open>
  \<open>system\<close> is the result of \<open>tokio::net::lookup_host\<close>; \<open>now\<close> is when the cache is consulted, \<open>later\<close> and \<open>final\<close> are the
  readings when an entry is made and stored.
\<close>

definition resolve :: "dns_resolver \<Rightarrow> (socket_addr \<Rightarrow> nat \<Rightarrow> bytes \<Rightarrow> udp_result) \<Rightarrow> (chars \<Rightarrow> u16 \<Rightarrow> socket_addr list option)
    \<Rightarrow> nat \<Rightarrow> nat \<Rightarrow> place \<times> nat \<Rightarrow> u16 \<Rightarrow> chars \<Rightarrow> u16 \<Rightarrow> (resolve_error, socket_addr list) outcome \<times> dns_resolver \<times> u16" where
  "resolve r net system now later final txid host port =
     (let lookup =
        (case ask_nameservers r net host txid (nameservers r) of
           (Some (addrs, ttl), txid) \<Rightarrow>
             (Ok (order_addresses r (map (\<lambda>ip. (ip, port)) addrs)), store_ips r later final host addrs (Some (secs (unat ttl))), txid)
         | (None, txid) \<Rightarrow>
             (case system host port of
                Some [] \<Rightarrow> (Err NoAddresses, store_failure r later final host, txid)
              | Some addrs \<Rightarrow> (Ok (order_addresses r addrs), store_ips r later final host (map fst addrs) None, txid)
              | None \<Rightarrow> (Err LookupFailed, store_failure r later final host, txid)))
      in if \<not> cache_enabled r then lookup
         else case hm_get (cache r) host of
                Some entry \<Rightarrow>
                  if fresh now entry then
                    if failed entry then (Err CachedFailure, r, txid)
                    else if ips entry \<noteq> [] then (Ok (order_addresses r (map (\<lambda>ip. (ip, port)) (ips entry))), r, txid)
                    else lookup
                  else lookup
              | None \<Rightarrow> lookup)"

text \<open>The calls that change the cache.\<close>

datatype resolver_call =
    Resolve "socket_addr \<Rightarrow> nat \<Rightarrow> bytes \<Rightarrow> udp_result" "chars \<Rightarrow> u16 \<Rightarrow> socket_addr list option" nat nat "place \<times> nat" u16 chars u16
  | StoreTtl nat "place \<times> nat" chars "ip_addr list" nat
  | StoreDefault nat "place \<times> nat" chars "ip_addr list"
  | Cleanup nat
  | Clear

fun call :: "resolver_call \<Rightarrow> dns_resolver \<Rightarrow> dns_resolver" where
  "call (Resolve net system now later final txid host port) r = fst (snd (resolve r net system now later final txid host port))"
| "call (StoreTtl now later host addrs ttl) r = store_with_ttl r now later host addrs ttl"
| "call (StoreDefault now later host addrs) r = store r now later host addrs"
| "call (Cleanup now) r = cleanup_cache r now"
| "call Clear r = clear_cache r"

section \<open>The contract\<close>

interpretation resolver_cache: bounded_cache "Suc n" "\<lambda>t k m. evict_if_needed (Suc n) t m" for n
proof
  fix m :: "(chars, dns_entry) hmap" and t :: "place \<times> nat" and k v
  obtain place now where t: "t = (place, now)" by fastforce
  assume m: "hm_wf m"
  show "hm_wf (evict_if_needed (Suc n) t m)" "set (evict_if_needed (Suc n) t m) \<subseteq> set m"
    using evict_by_keeps [OF m] by (simp_all add: t evict_if_needed_def)
  show "length (hm_insert k v (evict_if_needed (Suc n) t m)) \<le> Suc n"
    using evict_by_room [OF m, of "Suc n" "fresh now" cached_at place]
    by (simp add: t evict_if_needed_def length_update)
qed

text \<open>What a call writes, if anything.\<close>

definition hit :: "dns_resolver \<Rightarrow> nat \<Rightarrow> chars \<Rightarrow> bool" where
  "hit r now host \<longleftrightarrow> cache_enabled r
     \<and> (\<exists>e. hm_get (cache r) host = Some e \<and> fresh now e \<and> (failed e \<or> ips e \<noteq> []))"

definition looked_up :: "dns_resolver \<Rightarrow> (socket_addr \<Rightarrow> nat \<Rightarrow> bytes \<Rightarrow> udp_result) \<Rightarrow> (chars \<Rightarrow> u16 \<Rightarrow> socket_addr list option)
    \<Rightarrow> nat \<Rightarrow> u16 \<Rightarrow> chars \<Rightarrow> u16 \<Rightarrow> dns_entry" where
  "looked_up r net system later txid host port =
     (case fst (ask_nameservers r net host txid (nameservers r)) of
        Some (addrs, ttl) \<Rightarrow> \<lparr>ips = addrs, cached_at = later, entry_ttl = secs (unat ttl), failed = False\<rparr>
      | None \<Rightarrow>
          (case system host port of
             Some (a # as) \<Rightarrow> \<lparr>ips = map fst (a # as), cached_at = later, entry_ttl = cache_ttl r, failed = False\<rparr>
           | _ \<Rightarrow> \<lparr>ips = [], cached_at = later, entry_ttl = secs 30, failed = True\<rparr>))"

fun written :: "resolver_call \<Rightarrow> dns_resolver \<Rightarrow> ((place \<times> nat) \<times> chars \<times> dns_entry) option" where
  "written (Resolve net system now later final txid host port) r =
     (if hit r now host then None else Some (final, host, looked_up r net system later txid host port))"
| "written (StoreTtl now later host addrs ttl) r =
     Some (later, host, \<lparr>ips = addrs, cached_at = now, entry_ttl = ttl, failed = False\<rparr>)"
| "written (StoreDefault now later host addrs) r =
     Some (later, host, \<lparr>ips = addrs, cached_at = now, entry_ttl = cache_ttl r, failed = False\<rparr>)"
| "written (Cleanup now) r = None"
| "written Clear r = None"

lemma call_keeps_settings:
  "cache_enabled (call c r) = cache_enabled r" "cache_size (call c r) = cache_size r" "cache_ttl (call c r) = cache_ttl r"
  by (cases c; auto simp: resolve_def store_with_ttl_def store_def store_ips_def store_failure_def cleanup_cache_def
      clear_cache_def Let_def split: prod.split option.split list.split)+

lemma resolve_cache:
  assumes "cache_enabled r"
  shows "cache (fst (snd (resolve r net system now later final txid host port))) =
    (if hit r now host then cache r
     else hm_insert host (looked_up r net system later txid host port) (evict_if_needed (cache_size r) final (cache r)))"
  using assms
  by (auto simp: resolve_def hit_def looked_up_def store_ips_def store_failure_def Let_def
      split: prod.split option.split list.split)

lemma call_cache:
  assumes "cache_enabled r"
  shows "cache (call c r) =
    (case written c r of
       Some (t, host, e) \<Rightarrow> hm_insert host e (evict_if_needed (cache_size r) t (cache r))
     | None \<Rightarrow> (case c of Cleanup now \<Rightarrow> retain (\<lambda>_. fresh now) (cache r) | Clear \<Rightarrow> [] | _ \<Rightarrow> cache r))"
  using assms
  by (cases c) (auto simp: resolve_cache store_with_ttl_def store_def cleanup_cache_def clear_cache_def)

text \<open>A sequence of calls, with the log of what they wrote, newest first.\<close>

fun run_calls :: "resolver_call list \<Rightarrow> dns_resolver \<times> (chars \<times> dns_entry) list \<Rightarrow> dns_resolver \<times> (chars \<times> dns_entry) list" where
  "run_calls [] s = s"
| "run_calls (c # cs) (r, log) =
     run_calls cs (call c r, (case written c r of Some (_, host, e) \<Rightarrow> (host, e) # log | None \<Rightarrow> log))"

fun op_write :: "('t, 'k, 'v) cache_op \<Rightarrow> ('k \<times> 'v) list" where
  "op_write (Store t k v) = [(k, v)]"
| "op_write (Purge P) = []"

lemma call_as_ops:
  assumes "cache_enabled r" "cache_size r = Suc n"
  shows "\<exists>ops. cache (call c r) = fold (resolver_cache.apply_op n) ops (cache r)
    \<and> (case written c r of Some (_, host, e) \<Rightarrow> [(host, e)] | None \<Rightarrow> []) = concat (map op_write ops)"
proof (cases "written c r")
  case (Some w)
  obtain t host e where w: "w = (t, host, e)" by (cases w)
  show ?thesis
    by (rule exI [of _ "[Store t host e]"]) (simp add: call_cache [OF assms(1)] Some w assms(2))
next
  case None
  have clear: "retain (\<lambda>_ _. False) m = []" for m :: "(chars, dns_entry) hmap" by (simp add: retain_def)
  show ?thesis
  proof (cases c)
    case (Cleanup now)
    then show ?thesis by (intro exI [of _ "[Purge (\<lambda>_. fresh now)]"]) (simp add: cleanup_cache_def assms(1))
  next
    case Clear
    then show ?thesis by (intro exI [of _ "[Purge (\<lambda>_ _. False)]"]) (simp add: clear_cache_def clear)
  qed (use None in \<open>auto intro!: exI [of _ "[]"] simp: resolve_cache [OF assms(1)] split: if_splits\<close>)
qed

lemma run_calls_ops:
  assumes "cache_enabled r" "cache_size r = Suc n" "cache r = fold (resolver_cache.apply_op n) ops []"
    "log = rev (concat (map op_write ops))" "run_calls cs (r, log) = (r', log')"
  shows "\<exists>ops. cache r' = fold (resolver_cache.apply_op n) ops [] \<and> log' = rev (concat (map op_write ops))
    \<and> cache_enabled r'"
  using assms
proof (induction cs arbitrary: r log ops)
  case (Cons c cs)
  obtain ops' where o: "cache (call c r) = fold (resolver_cache.apply_op n) ops' (cache r)"
    "(case written c r of Some (_, host, e) \<Rightarrow> [(host, e)] | None \<Rightarrow> []) = concat (map op_write ops')"
    using call_as_ops [OF Cons.prems(1,2)] by blast
  show ?case
  proof (rule Cons.IH [of "call c r" "ops @ ops'"])
    show "run_calls cs (call c r, (case written c r of Some (_, host, e) \<Rightarrow> (host, e) # log | None \<Rightarrow> log)) = (r', log')"
      using Cons.prems(5) by simp
    show "(case written c r of Some (_, host, e) \<Rightarrow> (host, e) # log | None \<Rightarrow> log) = rev (concat (map op_write (ops @ ops')))"
      using o(2) [symmetric] Cons.prems(4) by (auto split: option.split)
  qed (use Cons.prems o in \<open>simp_all add: call_keeps_settings\<close>)
qed auto

lemma op_write_Store: "(k, v) \<in> set (op_write c) \<Longrightarrow> \<exists>t. c = Store t k v"
  by (cases c) auto

lemma last_write:
  assumes "\<exists>before t after. ops = before @ Store t k v # after \<and> (\<forall>t' v'. Store t' k v' \<notin> set after)"
  shows "map_of (rev (concat (map op_write ops))) k = Some v"
proof -
  from assms obtain before t after where ops: "ops = before @ Store t k v # after" "\<forall>t' v'. Store t' k v' \<notin> set after"
    by blast
  have "k \<notin> fst ` set (concat (map op_write after))"
    using ops(2) by (fastforce dest: op_write_Store)
  then have "map_of (rev (concat (map op_write after))) k = None"
    by (simp add: map_of_eq_None_iff)
  then show ?thesis by (simp add: ops(1) map_add_Some_iff)
qed

text \<open>With a limit of zero the predecessor of the limit wraps around, and nothing fresh is ever evicted.\<close>

lemma zero_limit_keeps_everything_fresh:
  "length m < 2 ^ 64 \<Longrightarrow> evict_if_needed 0 (place, now) m = retain (\<lambda>_. fresh now) m"
  using length_retain [of "\<lambda>_. fresh now" m]
  by (simp add: evict_if_needed_def evict_by_def usize_pred_def Let_def)

section \<open>Properties\<close>

text \<open>C16: whatever calls were made, the cache of the resolver holds at most as many entries as configured, and it
  answers a lookup only with the addresses that were written last for that host, by an entry that is not marked as
  failed and whose time to live has not passed.\<close>

theorem resolver_serves_last_fresh_entry:
  assumes "run_calls calls (resolver_new True ttl_secs (Suc n) ipv6 prefer servers, []) = (r, log)"
  shows "length (cache r) \<le> Suc n
    \<and> (lookup_cached r now host = Some addrs \<longrightarrow>
        (\<exists>e. map_of log host = Some e \<and> ips e = addrs \<and> \<not> failed e \<and> now - cached_at e < entry_ttl e))"
proof -
  obtain ops where ops: "cache r = fold (resolver_cache.apply_op n) ops []" "log = rev (concat (map op_write ops))"
    using run_calls_ops [of "resolver_new True ttl_secs (Suc n) ipv6 prefer servers" n "[]" "[]" calls r log] assms
    by (auto simp: resolver_new_def)
  have "length (cache r) \<le> Suc n" using resolver_cache.run_bounded ops(1) by metis
  moreover have "\<exists>e. map_of log host = Some e \<and> ips e = addrs \<and> \<not> failed e \<and> now - cached_at e < entry_ttl e"
    if "lookup_cached r now host = Some addrs"
  proof -
    from that obtain e where e: "hm_get (cache r) host = Some e" "fresh now e" "\<not> failed e" "ips e = addrs"
      by (auto simp: lookup_cached_def split: if_splits option.splits)
    have "map_of log host = Some e"
      unfolding ops(2) using e(1) ops(1) by (intro last_write resolver_cache.run_last_store) simp
    with e show ?thesis by (auto simp: fresh_def)
  qed
  ultimately show ?thesis by blast
qed

theorem resolver_serves_last_fresh_entry_witness:
  "\<exists>r log. run_calls [StoreTtl 0 (\<lambda>_. 0, 0) (codes ''a'') [V4 1] (secs 60), StoreTtl 5 (\<lambda>_. 0, 5) (codes ''b'') [V4 2] (secs 60)]
       (resolver_new True 300 (Suc 0) False True [], []) = (r, log)
     \<and> length (cache r) \<le> Suc 0 \<and> lookup_cached r (secs 10) (codes ''b'') = Some [V4 2]
     \<and> (\<exists>e. map_of log (codes ''b'') = Some e \<and> ips e = [V4 2])"
proof -
  let ?calls = "[StoreTtl 0 (\<lambda>_. 0, 0) (codes ''a'') [V4 1] (secs 60), StoreTtl 5 (\<lambda>_. 0, 5) (codes ''b'') [V4 2] (secs 60)]"
  obtain r log where run: "run_calls ?calls (resolver_new True 300 (Suc 0) False True [], []) = (r, log)" by fastforce
  then have "lookup_cached r (secs 10) (codes ''b'') = Some [V4 2]"
    by (auto simp: resolver_new_def store_with_ttl_def lookup_cached_def update_conv fresh_def secs_def)
  with resolver_serves_last_fresh_entry [OF run, of "secs 10" "codes ''b''" "[V4 2]"] run show ?thesis by blast
qed

lemma sort_key_map: "sort_key f (map g xs) = map g (sort_key (\<lambda>x. f (g x)) xs)"
proof -
  have "insort_key f (g x) (map g ys) = map g (insort_key (\<lambda>x. f (g x)) x ys)" for x ys
    by (induction ys) auto
  then show ?thesis by (induction xs) simp_all
qed

lemma order_addresses_map:
  "order_addresses r (map (\<lambda>ip. (ip, port)) (map fst addrs)) = map (\<lambda>a. (fst a, port)) (order_addresses r addrs)"
  by (simp add: order_addresses_def sort_key_map)

lemma ask_nameservers_nonempty:
  "ask_nameservers r net host txid servers = (Some (addrs, ttl), txid') \<Longrightarrow> addrs \<noteq> []"
proof (induction servers arbitrary: txid)
  case (Cons ns servers)
  obtain answer t where a: "query_nameserver_udp (net ns) host txid = (answer, t)" by fastforce
  show ?case
  proof (cases answer)
    case None
    then show ?thesis using Cons a by simp
  next
    case (Some p)
    then show ?thesis
      using Cons a by (cases p) (simp add: Let_def split: if_splits)
  qed
qed simp

lemma resolve_Ok:
  assumes "cache_enabled r" "resolve r net system now later final txid host port = (Ok addrs, r', txid')"
  shows "\<exists>e found. hm_get (cache r') host = Some e \<and> \<not> failed e \<and> ips e \<noteq> [] \<and> ips e = map fst found
    \<and> addrs = order_addresses r found \<and> cache_enabled r' \<and> prefer_ipv4 r' = prefer_ipv4 r"
proof (cases "hit r now host")
  case True
  then obtain e where e: "hm_get (cache r) host = Some e" "fresh now e" "failed e \<or> ips e \<noteq> []" by (auto simp: hit_def)
  then have "r' = r" "\<not> failed e" "addrs = order_addresses r (map (\<lambda>ip. (ip, port)) (ips e))"
    using assms by (auto simp: resolve_def split: if_splits)
  then show ?thesis
    using e assms(1) by (intro exI [of _ e] exI [of _ "map (\<lambda>ip. (ip, port)) (ips e)"]) (auto simp: comp_def)
next
  case False
  note res = assms(2) [unfolded resolve_def Let_def]
  obtain answer t where ask: "ask_nameservers r net host txid (nameservers r) = (answer, t)" by fastforce
  show ?thesis
  proof (cases answer)
    case None
    then obtain a as where "system host port = Some (a # as)" "addrs = order_addresses r (a # as)"
      "r' = store_ips r later final host (map fst (a # as)) None"
      using res False assms(1) ask by (auto simp: hit_def split: option.splits if_splits list.splits)
    then show ?thesis
      using assms(1) by (auto simp: store_ips_def update_conv intro!: exI [of _ "a # as"])
  next
    case (Some at)
    then obtain found ttl where "answer = Some (found, ttl)" by (cases at) auto
    moreover from this have "found \<noteq> []" using ask ask_nameservers_nonempty by blast
    moreover have "addrs = order_addresses r (map (\<lambda>ip. (ip, port)) found)"
      "r' = store_ips r later final host found (Some (secs (unat ttl)))"
      using res False assms(1) ask calculation by (auto simp: hit_def split: option.splits if_splits)
    ultimately show ?thesis
      using assms(1) by (auto simp: store_ips_def update_conv comp_def intro!: exI [of _ "map (\<lambda>ip. (ip, port)) found"])
  qed
qed

text \<open>C23: after a successful resolution the same addresses come from the cache, in the same order and for whatever port
  is asked for, as long as the entry is fresh; neither the network nor the system resolver nor the state matters then.\<close>

theorem resolve_repeats_from_cache:
  assumes "cache_enabled r" "resolve r net system now later final txid host port = (Ok addrs, r', txid')"
  shows "\<exists>e. hm_get (cache r') host = Some e \<and> \<not> failed e
     \<and> (fresh now' e \<longrightarrow> resolve r' net' system' now' later' final' txid'' host port'
          = (Ok (map (\<lambda>a. (fst a, port')) addrs), r', txid''))"
proof -
  from resolve_Ok [OF assms] obtain e found where e: "hm_get (cache r') host = Some e" "\<not> failed e" "ips e \<noteq> []"
    "ips e = map fst found" "addrs = order_addresses r found" "cache_enabled r'" "prefer_ipv4 r' = prefer_ipv4 r" by blast
  have "order_addresses r' = order_addresses r" using e(7) by (simp add: fun_eq_iff order_addresses_def)
  then show ?thesis
    using e by (intro exI [of _ e]) (simp add: resolve_def order_addresses_map [unfolded map_map])
qed

theorem resolve_repeats_from_cache_witness:
  "\<exists>addrs r' e. resolve (resolver_new True 300 8 False True []) (\<lambda>_ _ _. TimedOut) (\<lambda>_ p. Some [(V4 1, p)]) 0 1 (\<lambda>_. 0, 2) 7
         (codes ''a'') 80 = (Ok addrs, r', 7)
     \<and> hm_get (cache r') (codes ''a'') = Some e
     \<and> (fresh (secs 10) e \<longrightarrow> resolve r' (\<lambda>_ _ _. TimedOut) (\<lambda>_ _. None) (secs 10) 0 (\<lambda>_. 0, 0) 9 (codes ''a'') 443
          = (Ok (map (\<lambda>a. (fst a, 443)) addrs), r', 9))"
proof -
  let ?r = "resolver_new True 300 8 False True []"
  have "\<exists>addrs r'. resolve ?r (\<lambda>_ _ _. TimedOut) (\<lambda>_ p. Some [(V4 1, p)]) 0 1 (\<lambda>_. 0, 2) 7 (codes ''a'') 80 = (Ok addrs, r', 7)"
    by (simp add: resolve_def resolver_new_def with_last_resort_nameservers_def)
  then obtain addrs r' where r: "resolve ?r (\<lambda>_ _ _. TimedOut) (\<lambda>_ p. Some [(V4 1, p)]) 0 1 (\<lambda>_. 0, 2) 7 (codes ''a'') 80
      = (Ok addrs, r', 7)" by blast
  have "cache_enabled ?r" by (simp add: resolver_new_def)
  from resolve_repeats_from_cache [OF this r, of "secs 10" "\<lambda>_ _ _. TimedOut" "\<lambda>_ _. None" 0 "(\<lambda>_. 0, 0)" 9 443] r
  show ?thesis by blast
qed

end
