(* ===== verification/Host_Decision.thy ===== *)
theory Host_Decision
  imports Split_Tunnel Dns_Cache
begin

text \<open>
  What the two name servers share: the split tunnel's decision for a host together with the resolver that it may consult
  (\<open>decide_by_host\<close> and \<open>resolve_host_to_ips\<close> of \<open>rvpn-split-tunnel/src/split_tunnel.rs\<close>), and the forwarding of raw
  queries to nameservers, of which \<open>rvpn-mobile/src/dns_server.rs\<close> and \<open>rvpn-client/src/dns_proxy.rs\<close> have a copy each.
\<close>

section \<open>A decision and its lookup\<close>

text \<open>What happens during a lookup: the answers of the network and of the system, the clock and the transaction id.\<close>

record lookup_io =
  lookup_udp :: "socket_addr \<Rightarrow> nat \<Rightarrow> bytes \<Rightarrow> udp_result"
  lookup_system :: "chars \<Rightarrow> u16 \<Rightarrow> socket_addr list option"
  lookup_now :: nat
  lookup_later :: nat
  lookup_final :: "place \<times> nat"
  lookup_txid :: u16

definition resolve_host_to_ips :: "lookup_io \<Rightarrow> chars \<Rightarrow> dns_resolver \<Rightarrow> ip_addr list option \<times> dns_resolver" where
  "resolve_host_to_ips L host r =
     (case resolve r (lookup_udp L) (lookup_system L) (lookup_now L) (lookup_later L) (lookup_final L) (lookup_txid L) host 0 of
        (Ok addrs, r, _) \<Rightarrow> (Some (map fst addrs), r)
      | (_, r, _) \<Rightarrow> (None, r))"

text \<open>\<^const>\<open>decide_by_host\<close> consults the resolver only to validate a Chinese domain.\<close>

definition validates :: "('n, 't) environment \<Rightarrow> split_tunnel_config \<Rightarrow> 't split_tunnel_data \<Rightarrow> chars \<Rightarrow> bool" where
  "validates E config data host \<longleftrightarrow> enabled config
     \<and> \<not> (block_ads config \<and> (matches_domain E host (block_domains data) \<or> matches_ad_domain host))
     \<and> \<not> matches_domain E host (tunnel_domains data) \<and> \<not> matches_domain E host (bypass_domains data)
     \<and> \<not> matches_force_tunnel_domain host
     \<and> codes ''CN'' \<in> set (builtin_bypass_countries config) \<and> matches_china_domain host"

definition decide_with_resolver :: "('n, 't) environment \<Rightarrow> split_tunnel_config \<Rightarrow> 't split_tunnel_data \<Rightarrow> lookup_io \<Rightarrow> chars
    \<Rightarrow> dns_resolver \<Rightarrow> routing_decision \<times> dns_resolver" where
  "decide_with_resolver E config data L host r =
     (case resolve_host_to_ips L host r of
        (resolved, r') \<Rightarrow>
          (decide_by_host E config data (\<lambda>_. resolved) host, if validates E config data host then r' else r))"

text \<open>Without validation the decision does not depend on the resolver; a validated host bypasses the tunnel by its addresses.\<close>

lemma decide_by_host_not_validating:
  "\<not> validates E config data host \<Longrightarrow> decide_by_host E config data f host = decide_by_host E config data g host"
  by (auto simp: validates_def decide_by_host_def)

lemma decide_by_host_validating:
  "validates E config data host \<Longrightarrow> decide_by_host E config data f host =
     (case f host of Some ip_addrs \<Rightarrow> if ips_match_country E ip_addrs (codes ''CN'') then Bypass else Tunnel | None \<Rightarrow> Tunnel)"
  by (auto simp: validates_def decide_by_host_def split: option.split)

section \<open>Raw queries\<close>

text \<open>Up to three attempts; the receive buffer has 4096 bytes.\<close>

fun raw_attempts :: "(nat \<Rightarrow> bytes \<Rightarrow> udp_result) \<Rightarrow> bytes \<Rightarrow> nat \<Rightarrow> nat \<Rightarrow> bytes option" where
  "raw_attempts net query attempt 0 = None"
| "raw_attempts net query attempt (Suc left) =
     (case net attempt query of
        BindFailed \<Rightarrow> None
      | Datagram d \<Rightarrow> Some (take 4096 d)
      | SendFailed \<Rightarrow> raw_attempts net query (attempt + 1) left
      | RecvFailed \<Rightarrow> raw_attempts net query (attempt + 1) left
      | TimedOut \<Rightarrow> raw_attempts net query (attempt + 1) left)"

definition query_nameserver_udp_raw :: "(nat \<Rightarrow> bytes \<Rightarrow> udp_result) \<Rightarrow> bytes \<Rightarrow> bytes option" where
  "query_nameserver_udp_raw net query = raw_attempts net query 0 3"

text \<open>The nameservers in order, until one sends a response that is accepted; and the nameservers that were asked.\<close>

fun forward :: "(bytes \<Rightarrow> 'a option) \<Rightarrow> (socket_addr \<Rightarrow> nat \<Rightarrow> bytes \<Rightarrow> udp_result) \<Rightarrow> bytes \<Rightarrow> socket_addr list
    \<Rightarrow> 'a option \<times> socket_addr list" where
  "forward accept net query [] = (None, [])"
| "forward accept net query (ns # rest) =
     (case Option.bind (query_nameserver_udp_raw (net ns) query) accept of
        Some response \<Rightarrow> (Some response, [ns])
      | None \<Rightarrow> (case forward accept net query rest of (result, asked) \<Rightarrow> (result, ns # asked)))"

lemma forward_asks: "forward accept net query servers = (result, asked) \<Longrightarrow> set asked \<subseteq> set servers"
  by (induction accept net query servers arbitrary: result asked rule: forward.induct) (auto split: option.splits prod.splits)

end
