(* ===== verification/Doh_Cache.thy ===== *)
theory Doh_Cache
  imports Caches Messages Net_Addr
begin

text \<open>
  The DNS client of the mobile apps, which resolves names through the tunnel: the cache of \<open>DohClient\<close> in
  \<open>rvpn-mobile/src/doh_client.rs\<close> and the resolution around it. The response that arrives for a query, or its absence
  (no connection, a closed channel, the timeout), is an argument. Instants are numbers of nanoseconds.
\<close>

section \<open>Keys\<close>

text \<open>\<open>format!("{}:{}", domain, query_type)\<close>\<close>

definition cache_key :: "chars \<Rightarrow> u16 \<Rightarrow> chars" where
  "cache_key domain query_type = domain @ 58 # decimal (unat query_type)"

section \<open>State\<close>

record cache_entry =
  addresses :: "ip_addr list"
  expires_at :: nat
  entry_failed :: bool

record doh_client =
  doh_cache :: "(chars, cache_entry) hmap"
  max_cache_size :: nat
  next_id :: u64

definition doh_new :: doh_client where
  "doh_new = \<lparr>doh_cache = [], max_cache_size = 200, next_id = 1\<rparr>"

definition MIN_CACHE_TTL :: nat where
  "MIN_CACHE_TTL = 60 * 1000000000"

definition MAX_CACHE_TTL :: nat where
  "MAX_CACHE_TTL = 3600 * 1000000000"

definition doh_lookup_cached :: "doh_client \<Rightarrow> nat \<Rightarrow> chars \<Rightarrow> u16 \<Rightarrow> ip_addr list option" where
  "doh_lookup_cached c now domain query_type =
     (case hm_get (doh_cache c) (cache_key domain query_type) of
        Some entry \<Rightarrow> if now < expires_at entry \<and> \<not> entry_failed entry then Some (addresses entry) else None
      | None \<Rightarrow> None)"

definition get_cached_ttl :: "doh_client \<Rightarrow> nat \<Rightarrow> chars \<Rightarrow> u16 \<Rightarrow> u32 option" where
  "get_cached_ttl c now domain query_type =
     (case hm_get (doh_cache c) (cache_key domain query_type) of
        Some entry \<Rightarrow>
          if entry_failed entry then None
          else (let remaining = expires_at entry - now
                in if 0 < remaining then Some (of_nat (max (remaining div 1000000000) 30)) else None)
      | None \<Rightarrow> None)"

text \<open>The clock is read when making room and again for the expiry.\<close>

definition doh_room :: "nat \<Rightarrow> (chars \<Rightarrow> nat) \<times> nat \<Rightarrow> (chars, cache_entry) hmap \<Rightarrow> (chars, cache_entry) hmap" where
  "doh_room limit = (\<lambda>(place, now) m. evict_by (\<lambda>e. now < expires_at e) expires_at limit place m)"

definition insert_cache_entry :: "doh_client \<Rightarrow> (chars \<Rightarrow> nat) \<times> nat \<Rightarrow> nat \<Rightarrow> chars \<Rightarrow> ip_addr list \<Rightarrow> bool \<Rightarrow> nat \<Rightarrow> doh_client" where
  "insert_cache_entry c t later key addrs is_failed ttl =
     (let ttl = (if is_failed then ttl else max MIN_CACHE_TTL (min ttl MAX_CACHE_TTL))
      in c\<lparr>doh_cache := hm_insert key \<lparr>addresses = addrs, expires_at = later + ttl, entry_failed = is_failed\<rparr>
             (doh_room (max_cache_size c) t (doh_cache c))\<rparr>)"

definition doh_cleanup :: "doh_client \<Rightarrow> nat \<Rightarrow> doh_client" where
  "doh_cleanup c now = c\<lparr>doh_cache := retain (\<lambda>_ e. now < expires_at e) (doh_cache c)\<rparr>"

datatype doh_error = CachedDnsFailure | NoReply | ResolutionFailed

text \<open>\<open>reply query\<close> is the response that arrives for the query before the timeout.\<close>

definition doh_resolve :: "doh_client \<Rightarrow> (dns_query \<Rightarrow> dns_response option) \<Rightarrow> nat \<Rightarrow> (chars \<Rightarrow> nat) \<times> nat \<Rightarrow> nat \<Rightarrow> chars \<Rightarrow> u16
    \<Rightarrow> (doh_error, ip_addr list) outcome \<times> doh_client" where
  "doh_resolve c reply now t later domain query_type =
     (let key = cache_key domain query_type;
          query = \<lparr>dq_query_id = next_id c, dq_domain = as_bytes domain, dq_query_type = query_type\<rparr>;
          c' = c\<lparr>next_id := next_id c + 1\<rparr>;
          ask = (case reply query of
                   None \<Rightarrow> (Err NoReply, c')
                 | Some response \<Rightarrow>
                     if \<not> dr_success response
                     then (Err ResolutionFailed, insert_cache_entry c' t later key [] True (30 * 1000000000))
                     else let addrs = map V4 (dr_ipv4_addrs response) @ map V6 (dr_ipv6_addrs response)
                          in (Ok addrs, insert_cache_entry c' t later key addrs False (unat (dr_ttl response) * 1000000000)))
      in case hm_get (doh_cache c) key of
           Some entry \<Rightarrow>
             if now < expires_at entry
             then if entry_failed entry then (Err CachedDnsFailure, c) else (Ok (addresses entry), c)
             else ask
         | None \<Rightarrow> ask)"

definition resolve_a :: "(doh_error, ip_addr list) outcome \<Rightarrow> (doh_error, ipv4_addr list) outcome" where
  "resolve_a result = and_then result (\<lambda>addrs. Ok (List.map_filter (\<lambda>a. case a of V4 v \<Rightarrow> Some v | V6 _ \<Rightarrow> None) addrs))"

definition resolve_aaaa :: "(doh_error, ip_addr list) outcome \<Rightarrow> (doh_error, ipv6_addr list) outcome" where
  "resolve_aaaa result = and_then result (\<lambda>addrs. Ok (List.map_filter (\<lambda>a. case a of V6 v \<Rightarrow> Some v | V4 _ \<Rightarrow> None) addrs))"

section \<open>The contract\<close>

interpretation doh: bounded_cache "Suc n" "\<lambda>t k m. doh_room (Suc n) t m" for n
proof
  fix m :: "(chars, cache_entry) hmap" and t :: "(chars \<Rightarrow> nat) \<times> nat" and k v
  obtain place now where t: "t = (place, now)" by fastforce
  assume m: "hm_wf m"
  show "hm_wf (doh_room (Suc n) t m)" "set (doh_room (Suc n) t m) \<subseteq> set m"
    using evict_by_keeps [OF m] by (simp_all add: t doh_room_def)
  show "length (hm_insert k v (doh_room (Suc n) t m)) \<le> Suc n"
    using evict_by_room [OF m, of "Suc n" "\<lambda>e. now < expires_at e" expires_at place]
    by (simp add: t doh_room_def length_update)
qed

section \<open>Keys are unambiguous\<close>

lemma cache_key_inject [simp]: "cache_key d q = cache_key d' q' \<longleftrightarrow> d = d' \<and> q = q'"
proof
  assume eq: "cache_key d q = cache_key d' q'"
  have colon: "58 \<notin> set (decimal n)" for n using decimal_digits by fastforce
  have drop: "takeWhile (\<lambda>c. c \<noteq> 58) (rev (cache_key d q)) = rev (decimal (unat q))
      \<and> tl (dropWhile (\<lambda>c. c \<noteq> 58) (rev (cache_key d q))) = rev d" for d q
  proof -
    have c: "\<And>x. x \<in> set (rev (decimal (unat q))) \<Longrightarrow> x \<noteq> 58" using colon by auto
    have "takeWhile (\<lambda>c. c \<noteq> 58) (rev (decimal (unat q)) @ 58 # rev d) = rev (decimal (unat q)) @ takeWhile (\<lambda>c. c \<noteq> 58) (58 # rev d)"
      using c by (rule takeWhile_append2)
    moreover have "dropWhile (\<lambda>c. c \<noteq> 58) (rev (decimal (unat q)) @ 58 # rev d) = dropWhile (\<lambda>c. c \<noteq> 58) (58 # rev d)"
      using c by (rule dropWhile_append2)
    ultimately show ?thesis by (simp add: cache_key_def)
  qed
  have "rev (decimal (unat q)) = rev (decimal (unat q'))" "rev d = rev d'"
    using drop [of d q] drop [of d' q'] eq by simp_all
  then show "d = d' \<and> q = q'" by (simp add: word_unat_eq_iff)
qed simp

section \<open>What a resolution leaves in the cache\<close>

lemma hm_get_doh_room:
  assumes "hm_wf m" "0 < limit" "hm_get (doh_room limit t m) k = Some e"
  shows "hm_get m k = Some e"
  using assms evict_by_keeps [OF assms(1)] by (cases t) (simp add: doh_room_def hm_get_in, blast)

lemma insert_cache_entry_lookup:
  assumes "later \<le> now" "now < later + MIN_CACHE_TTL"
  shows "doh_lookup_cached (insert_cache_entry c t later (cache_key d q) addrs False ttl) now d q = Some addrs"
  using assms by (simp add: insert_cache_entry_def doh_lookup_cached_def update_conv Let_def)

lemma insert_cache_entry_ttl:
  assumes "later \<le> now" "now < later + MIN_CACHE_TTL"
  shows "\<exists>s. get_cached_ttl (insert_cache_entry c t later (cache_key d q) addrs False ttl) now d q = Some s
     \<and> 30 \<le> s \<and> s \<le> 3600"
proof -
  let ?ttl = "max MIN_CACHE_TTL (min ttl MAX_CACHE_TTL)"
  let ?n = "max ((later + ?ttl - now) div 1000000000) 30"
  have "(later + ?ttl - now) div 1000000000 \<le> MAX_CACHE_TTL div 1000000000"
    using assms(1) by (intro div_le_mono) (simp add: MAX_CACHE_TTL_def MIN_CACHE_TTL_def)
  then have n: "?n \<le> 3600" "30 \<le> ?n" by (simp_all add: MAX_CACHE_TTL_def)
  have "0 < later + ?ttl - now" using assms(2) by simp
  then have "get_cached_ttl (insert_cache_entry c t later (cache_key d q) addrs False ttl) now d q = Some (of_nat ?n)"
    by (simp add: insert_cache_entry_def get_cached_ttl_def update_conv Let_def)
  moreover have "30 \<le> (of_nat k :: u32) \<and> (of_nat k :: u32) \<le> 3600" if "k \<le> 3600" "30 \<le> k" for k
    using that by (simp add: word_le_nat_alt unat_of_nat)
  note this [OF n]
  ultimately show ?thesis by blast
qed

end
