(* ===== verification/Split_Router.thy ===== *)
theory Split_Router
  imports Net_Addr "HOL-Library.Product_Lexorder" "HOL-Library.Multiset"
begin

text \<open>
  The choice of the exit server for a flow: \<open>rvpn-split-tunnel/src/router.rs\<close>. The configured rules are a list of
  server names with their rules, in the order in which the \<open>HashMap\<close> happens to be iterated. Besides the model, the
  theory has a description of the configured rules that does not depend on sorting, and the theorems compare the two.
\<close>

section \<open>Rules\<close>

definition DEFAULT_SERVER_NAME :: chars where
  "DEFAULT_SERVER_NAME = codes ''default''"

record routing_rule =
  rule_domains :: "chars list"
  rule_ips :: "chars list"

datatype domain_kind = Exact | Wildcard | Suffix

record domain_rule =
  kind :: domain_kind
  pattern :: chars
  rule_server :: chars

record 't router =
  domain_rules :: "domain_rule list"
  ip_rules :: 't
  ip_rule_count :: nat
  default_name :: chars

datatype pattern_error = EmptyPattern | MisplacedWildcard | UnsupportedWildcard

definition parse_domain_pattern :: "chars \<Rightarrow> (pattern_error, domain_kind \<times> chars) outcome" where
  "parse_domain_pattern raw =
     (let trimmed = trim_end_dots (trim raw)
      in if trimmed = [] then Err EmptyPattern
         else case strip_prefix (codes ''*.'') trimmed of
                Some rest \<Rightarrow>
                  if rest = [] \<or> 42 \<in> set rest then Err MisplacedWildcard
                  else Ok (Wildcard, to_ascii_lowercase rest)
              | None \<Rightarrow>
                  if 42 \<in> set trimmed then Err UnsupportedWildcard
                  else Ok (if ends_with (codes ''.'') (trim raw) then Exact else Suffix, to_ascii_lowercase trimmed))"

text \<open>The byte in front of the pattern is read only if the host is long enough.\<close>

definition below_pattern :: "chars \<Rightarrow> chars \<Rightarrow> bool" where
  "below_pattern pat host \<longleftrightarrow>
     str_len pat + 1 < str_len host \<and> ends_with pat host
     \<and> as_bytes host ! (str_len host - str_len pat - 1) = 46"

definition matches_rule :: "domain_rule \<Rightarrow> chars \<Rightarrow> bool" where
  "matches_rule rule host =
     (case kind rule of
        Exact \<Rightarrow> host = pattern rule
      | Wildcard \<Rightarrow> below_pattern (pattern rule) host
      | Suffix \<Rightarrow> host = pattern rule \<or> below_pattern (pattern rule) host)"

definition specificity :: "domain_rule \<Rightarrow> nat \<times> nat" where
  "specificity rule = (case kind rule of Exact \<Rightarrow> 2 | Wildcard \<Rightarrow> 1 | Suffix \<Rightarrow> 0, str_len (pattern rule))"

datatype cidr_error = NotAnAddress | InvalidNetwork

definition parse_ip_or_cidr :: "'n network_crate \<Rightarrow> chars \<Rightarrow> (cidr_error, 'n) outcome" where
  "parse_ip_or_cidr N raw =
     (let trimmed = trim raw
      in case net_parse N trimmed of
           Some network \<Rightarrow> Ok network
         | None \<Rightarrow>
             (case parse_ip_addr trimmed of
                None \<Rightarrow> Err NotAnAddress
              | Some (V4 a) \<Rightarrow> ok_or InvalidNetwork (net_new N (V4 a) 32)
              | Some (V6 a) \<Rightarrow> ok_or InvalidNetwork (net_new N (V6 a) 128)))"

section \<open>Building the router\<close>

datatype router_error = RedundantDefault | UnknownServer chars
  | InvalidPattern chars pattern_error | InvalidCidr chars cidr_error

fun with_context :: "('e \<Rightarrow> 'f) \<Rightarrow> ('e, 'a) outcome \<Rightarrow> ('f, 'a) outcome" where
  "with_context f (Ok a) = Ok a"
| "with_context f (Err e) = Err (f e)"
| "with_context f Panic = Panic"

fun add_domains :: "chars \<Rightarrow> chars list \<Rightarrow> domain_rule list \<Rightarrow> (router_error, domain_rule list) outcome" where
  "add_domains server [] rules = Ok rules"
| "add_domains server (pat # pats) rules =
     and_then (with_context (InvalidPattern pat) (parse_domain_pattern pat)) (\<lambda>(k, p).
     add_domains server pats (rules @ [\<lparr>kind = k, pattern = p, rule_server = server\<rparr>]))"

fun add_ips :: "'n network_crate \<Rightarrow> ('n, chars, 't) table_crate \<Rightarrow> chars \<Rightarrow> chars list \<Rightarrow> 't \<times> nat
    \<Rightarrow> (router_error, 't \<times> nat) outcome" where
  "add_ips N T server [] (table, n) = Ok (table, n)"
| "add_ips N T server (ip # ips) (table, n) =
     and_then (with_context (InvalidCidr ip) (parse_ip_or_cidr N ip)) (\<lambda>network.
     add_ips N T server ips (table_insert T table network server, n + 1))"

fun build_loop :: "'n network_crate \<Rightarrow> ('n, chars, 't) table_crate \<Rightarrow> chars set \<Rightarrow> (chars \<times> routing_rule) list
    \<Rightarrow> domain_rule list \<Rightarrow> 't \<times> nat \<Rightarrow> (router_error, domain_rule list \<times> 't \<times> nat) outcome" where
  "build_loop N T known [] rules table = Ok (rules, table)"
| "build_loop N T known ((server, rule) # routing) rules table =
     (if server = DEFAULT_SERVER_NAME then Err RedundantDefault
      else if server \<notin> known then Err (UnknownServer server)
      else and_then (add_domains server (rule_domains rule) rules) (\<lambda>rules.
           and_then (add_ips N T server (rule_ips rule) table) (\<lambda>table.
           build_loop N T known routing rules table)))"

text \<open>\<open>sort_by\<close> with the comparison reversed: a stable sort, largest specificity first.\<close>

definition descending :: "nat \<times> nat \<Rightarrow> int \<times> int" where
  "descending s = (- int (fst s), - int (snd s))"

definition router_build :: "'n network_crate \<Rightarrow> ('n, chars, 't) table_crate \<Rightarrow> chars list
    \<Rightarrow> (chars \<times> routing_rule) list \<Rightarrow> (router_error, 't router) outcome" where
  "router_build N T known_servers routing =
     and_then (build_loop N T (set known_servers) routing [] (table_new T, 0)) (\<lambda>(rules, table, n).
     Ok \<lparr>domain_rules = sort_key (\<lambda>r. descending (specificity r)) rules, ip_rules = table, ip_rule_count = n,
         default_name = DEFAULT_SERVER_NAME\<rparr>)"

section \<open>Choosing a server\<close>

fun choose_domain :: "domain_rule list \<Rightarrow> chars \<Rightarrow> chars option" where
  "choose_domain [] host = None"
| "choose_domain (rule # rules) host =
     (if matches_rule rule host then Some (rule_server rule) else choose_domain rules host)"

definition choose_ip :: "('n, chars, 't) table_crate \<Rightarrow> 't router \<Rightarrow> ip_addr \<Rightarrow> chars" where
  "choose_ip T r ip = (case longest_match T (ip_rules r) ip of Some (_, name) \<Rightarrow> name | None \<Rightarrow> default_name r)"

definition router_choose :: "('n, chars, 't) table_crate \<Rightarrow> 't router \<Rightarrow> chars \<Rightarrow> chars" where
  "router_choose T r host =
     (let host_lc = to_ascii_lowercase (trim_end_dots host)
      in case choose_domain (domain_rules r) host_lc of
           Some server \<Rightarrow> server
         | None \<Rightarrow>
             (case parse_ip_addr host_lc of
                Some ip \<Rightarrow>
                  (case longest_match T (ip_rules r) ip of Some (_, name) \<Rightarrow> name | None \<Rightarrow> default_name r)
              | None \<Rightarrow> default_name r))"

definition rule_count :: "'t router \<Rightarrow> nat \<times> nat" where
  "rule_count r = (length (domain_rules r), ip_rule_count r)"

section \<open>The configured rules\<close>

definition domain_rules_of :: "chars \<times> routing_rule \<Rightarrow> domain_rule list" where
  "domain_rules_of = (\<lambda>(server, rule).
     [\<lparr>kind = k, pattern = p, rule_server = server\<rparr>. Ok (k, p) \<leftarrow> map parse_domain_pattern (rule_domains rule)])"

definition networks_of :: "'n network_crate \<Rightarrow> chars \<times> routing_rule \<Rightarrow> ('n \<times> chars) list" where
  "networks_of N = (\<lambda>(server, rule). [(n, server). Ok n \<leftarrow> map (parse_ip_or_cidr N) (rule_ips rule)])"

definition all_domain_rules :: "(chars \<times> routing_rule) list \<Rightarrow> domain_rule list" where
  "all_domain_rules routing = concat (map domain_rules_of routing)"

definition all_networks :: "'n network_crate \<Rightarrow> (chars \<times> routing_rule) list \<Rightarrow> ('n \<times> chars) list" where
  "all_networks N routing = concat (map (networks_of N) routing)"

definition entry_ok :: "'n network_crate \<Rightarrow> chars list \<Rightarrow> chars \<times> routing_rule \<Rightarrow> bool" where
  "entry_ok N known = (\<lambda>(server, rule). server \<noteq> DEFAULT_SERVER_NAME \<and> server \<in> set known
     \<and> list_all (\<lambda>p. is_ok (parse_domain_pattern p)) (rule_domains rule)
     \<and> list_all (\<lambda>i. is_ok (parse_ip_or_cidr N i)) (rule_ips rule))"

lemma parse_domain_pattern_no_panic [simp]: "parse_domain_pattern p \<noteq> Panic"
  by (simp add: parse_domain_pattern_def Let_def split: option.split)

lemma parse_ip_or_cidr_no_panic [simp]: "parse_ip_or_cidr N i \<noteq> Panic"
  by (simp add: parse_ip_or_cidr_def Let_def split: option.split ip_addr.split)

lemma add_domains_eq:
  "if list_all (\<lambda>p. is_ok (parse_domain_pattern p)) (rule_domains rule)
   then add_domains server (rule_domains rule) rules = Ok (rules @ domain_rules_of (server, rule))
   else \<exists>e. add_domains server (rule_domains rule) rules = Err e"
proof -
  have "if list_all (\<lambda>p. is_ok (parse_domain_pattern p)) pats
     then add_domains server pats rules = Ok (rules @ domain_rules_of (server, rule\<lparr>rule_domains := pats\<rparr>))
     else \<exists>e. add_domains server pats rules = Err e" for pats
  proof (induction pats arbitrary: rules)
    case (Cons pat pats)
    show ?case
    proof (cases "parse_domain_pattern pat")
      case (Ok kp)
      then show ?thesis using Cons by (cases kp) (simp add: domain_rules_of_def)
    qed simp_all
  qed (simp add: domain_rules_of_def)
  from this [of "rule_domains rule"] show ?thesis by simp
qed

lemma add_ips_eq:
  "if list_all (\<lambda>i. is_ok (parse_ip_or_cidr N i)) (rule_ips rule)
   then add_ips N T server (rule_ips rule) (table_of T ins, n)
        = Ok (table_of T (ins @ networks_of N (server, rule)), n + length (rule_ips rule))
   else \<exists>e. add_ips N T server (rule_ips rule) (table_of T ins, n) = Err e"
proof -
  have "if list_all (\<lambda>i. is_ok (parse_ip_or_cidr N i)) ips
     then add_ips N T server ips (table_of T ins, n)
          = Ok (table_of T (ins @ networks_of N (server, rule\<lparr>rule_ips := ips\<rparr>)), n + length ips)
     else \<exists>e. add_ips N T server ips (table_of T ins, n) = Err e" for ips
  proof (induction ips arbitrary: ins n)
    case (Cons ip ips)
    show ?case
    proof (cases "parse_ip_or_cidr N ip")
      case (Ok net)
      then show ?thesis using Cons [of "ins @ [(net, server)]" "Suc n"] by (simp add: networks_of_def table_of_snoc)
    qed simp_all
  qed (simp add: networks_of_def)
  from this [of "rule_ips rule"] show ?thesis by simp
qed

lemma build_loop_eq:
  "if list_all (entry_ok N known) routing
   then \<exists>k. build_loop N T (set known) routing rules (table_of T ins, n)
          = Ok (rules @ all_domain_rules routing, table_of T (ins @ all_networks N routing), k)
   else \<exists>e. build_loop N T (set known) routing rules (table_of T ins, n) = Err e"
proof (induction routing arbitrary: rules ins n)
  case (Cons entry routing)
  obtain server rule where e: "entry = (server, rule)" by fastforce
  show ?case
    using add_domains_eq [of rule server rules] add_ips_eq [of N rule T server ins n]
      Cons [of "rules @ domain_rules_of entry" "ins @ networks_of N entry" "n + length (rule_ips rule)"]
    by (auto simp: e entry_ok_def all_domain_rules_def all_networks_def split: if_splits)
qed (auto simp: all_domain_rules_def all_networks_def)

text \<open>The router is the configured rules, sorted, and the table of the configured networks.\<close>

lemma router_build_eq:
  "if list_all (entry_ok N known) routing
   then \<exists>k. router_build N T known routing
          = Ok \<lparr>domain_rules = sort_key (\<lambda>r. descending (specificity r)) (all_domain_rules routing),
                ip_rules = table_of T (all_networks N routing), ip_rule_count = k, default_name = DEFAULT_SERVER_NAME\<rparr>
   else \<exists>e. router_build N T known routing = Err e"
  using build_loop_eq [where rules = "[]" and ins = "[]" and n = 0, of N known routing T]
  by (auto simp: router_build_def table_of_Nil [symmetric] split: if_splits)

lemma router_build_OkD:
  assumes "router_build N T known routing = Ok r"
  shows "list_all (entry_ok N known) routing"
    "domain_rules r = sort_key (\<lambda>r. descending (specificity r)) (all_domain_rules routing)"
    "ip_rules r = table_of T (all_networks N routing)" "default_name r = DEFAULT_SERVER_NAME"
  using router_build_eq [of N known routing T] assms by (auto split: if_splits)

section \<open>What a rule matches\<close>

lemma below_pattern_iff: "below_pattern pat host \<longleftrightarrow> (\<exists>q. q \<noteq> [] \<and> host = q @ 46 # pat)"
proof
  assume b: "below_pattern pat host"
  then obtain q where host: "host = q @ pat" by (auto simp: below_pattern_def ends_with_iff)
  with b have len: "1 < str_len q" and dot: "as_bytes q ! (str_len q - 1) = 46"
    by (auto simp: below_pattern_def nth_append str_len_def split: if_splits)
  from len have "q \<noteq> []" by auto
  have "as_bytes q \<noteq> []" using len by (auto simp: str_len_def)
  then have "last (as_bytes q) = 46" using dot by (simp add: last_conv_nth str_len_def)
  then have "last q = 46" using \<open>q \<noteq> []\<close> by (simp add: last_as_bytes last_utf8_char)
  then have "q = butlast q @ [46]" using \<open>q \<noteq> []\<close> by (metis append_butlast_last_id)
  moreover from this have "butlast q \<noteq> []" using len by (auto simp: utf8_len_def)
  ultimately show "\<exists>q. q \<noteq> [] \<and> host = q @ 46 # pat" using host by (metis append.assoc append_Cons append_Nil)
next
  assume "\<exists>q. q \<noteq> [] \<and> host = q @ 46 # pat"
  then obtain q where "q \<noteq> []" "host = q @ 46 # pat" by blast
  moreover from this(1) have "0 < str_len q" by (cases q) simp_all
  ultimately show "below_pattern pat host"
    by (auto simp: below_pattern_def ends_with_iff nth_append str_len_def)
qed

text \<open>What a rule stands for: the name itself, the names below it, or both.\<close>

definition covers :: "domain_rule \<Rightarrow> chars \<Rightarrow> bool" where
  "covers d host \<longleftrightarrow>
     (kind d \<noteq> Wildcard \<and> host = pattern d) \<or> (kind d \<noteq> Exact \<and> (\<exists>q. q \<noteq> [] \<and> host = q @ 46 # pattern d))"

lemma matches_rule_covers: "matches_rule d host \<longleftrightarrow> covers d host"
  by (cases "kind d") (auto simp: matches_rule_def covers_def below_pattern_iff)

lemma covers_suffix: "covers d host \<Longrightarrow> \<exists>q. host = q @ pattern d"
  unfolding covers_def by (metis append.assoc append_Cons append_Nil)

text \<open>Two rules of one specificity that cover one host have the same kind and pattern.\<close>

lemma equally_specific:
  assumes "covers a host" "covers b host" "specificity a = specificity b"
  shows "kind a = kind b" "pattern a = pattern b"
proof -
  show "kind a = kind b"
    using assms(3) by (cases "kind a"; cases "kind b") (simp_all add: specificity_def)
  show "pattern a = pattern b"
    using covers_suffix [OF assms(1)] covers_suffix [OF assms(2)] assms(3)
    by (auto simp: specificity_def dest: suffix_str_len_eq)
qed

section \<open>Search in a sorted list\<close>

lemma choose_domain_eq: "choose_domain rules host = map_option rule_server (find (\<lambda>r. covers r host) rules)"
  by (induction rules) (auto simp: matches_rule_covers)

lemma find_sorted:
  assumes "sorted (map f xs)" "find P xs = Some x"
  shows "x \<in> set xs \<and> P x \<and> (\<forall>y \<in> set xs. P y \<longrightarrow> f x \<le> f y)"
  using assms by (induction xs) (auto split: if_splits)

lemma descending_le: "descending s \<le> descending t \<longleftrightarrow> t \<le> s"
  by (cases s; cases t) (auto simp: descending_def)

lemma choose_domain_sorted:
  assumes "choose_domain (sort_key (\<lambda>r. descending (specificity r)) rules) host = Some server"
  obtains d where "d \<in> set rules" "covers d host" "server = rule_server d"
    "\<And>d'. d' \<in> set rules \<Longrightarrow> covers d' host \<Longrightarrow> specificity d' \<le> specificity d"
proof -
  let ?xs = "sort_key (\<lambda>r. descending (specificity r)) rules"
  from assms obtain d where d: "find (\<lambda>r. covers r host) ?xs = Some d" "server = rule_server d"
    by (auto simp: choose_domain_eq)
  from find_sorted [OF _ d(1), of "\<lambda>r. descending (specificity r)"] show ?thesis
    using that [of d] d(2) by (simp add: descending_le)
qed

lemma choose_domain_None:
  "choose_domain (sort_key f rules) host = None \<longleftrightarrow> (\<forall>d \<in> set rules. \<not> covers d host)"
  by (auto simp: choose_domain_eq find_None_iff)

lemma known_servers:
  assumes "list_all (entry_ok N known) routing"
  shows "d \<in> set (all_domain_rules routing) \<Longrightarrow> rule_server d \<in> set known"
    and "(n, s) \<in> set (all_networks N routing) \<Longrightarrow> s \<in> set known"
  using assms by (force simp: list_all_iff entry_ok_def all_domain_rules_def domain_rules_of_def
    all_networks_def networks_of_def split: outcome.splits prod.splits)+

lemma choose_ip_cases:
  assumes "table_ok N T" "router_build N T known routing = Ok r"
  obtains "choose_ip T r ip = DEFAULT_SERVER_NAME" "\<And>n s. (n, s) \<in> set (all_networks N routing) \<Longrightarrow> \<not> net_contains N n ip"
  | n s where "choose_ip T r ip = s" "(n, s) \<in> set (all_networks N routing)" "net_contains N n ip"
      "\<And>m t. (m, t) \<in> set (all_networks N routing) \<Longrightarrow> net_contains N m ip \<Longrightarrow> net_masklen N m \<le> net_masklen N n"
proof (cases "longest_match T (ip_rules r) ip")
  case None
  then show ?thesis
    using that(1) longest_match_None [OF assms(1)] router_build_OkD [OF assms(2)] by (force simp: choose_ip_def)
next
  case (Some p)
  then obtain n s where p: "longest_match T (table_of T (all_networks N routing)) ip = Some (n, s)"
    using router_build_OkD [OF assms(2)] by (cases p) auto
  show ?thesis
  proof (rule that(2) [of s n])
    show "choose_ip T r ip = s" using p router_build_OkD [OF assms(2)] by (simp add: choose_ip_def)
    show "(n, s) \<in> set (all_networks N routing)"
      using longest_match_Some(1) [OF assms(1) p] by (auto dest: map_of_SomeD)
    show "net_contains N n ip" by (rule longest_match_Some(2) [OF assms(1) p])
    show "net_masklen N m \<le> net_masklen N n"
      if "(m, t) \<in> set (all_networks N routing)" "net_contains N m ip" for m t
      using longest_match_Some(3) [OF assms(1) p, of m] that by force
  qed
qed

text \<open>The rules that should decide.\<close>

definition most_specific :: "(chars \<times> routing_rule) list \<Rightarrow> chars \<Rightarrow> domain_rule \<Rightarrow> bool" where
  "most_specific routing h d \<longleftrightarrow> d \<in> set (all_domain_rules routing) \<and> covers d h
     \<and> (\<forall>d' \<in> set (all_domain_rules routing). covers d' h \<longrightarrow> specificity d' \<le> specificity d)"

definition longest_network :: "'n network_crate \<Rightarrow> (chars \<times> routing_rule) list \<Rightarrow> ip_addr \<Rightarrow> 'n \<times> chars \<Rightarrow> bool" where
  "longest_network N routing ip e \<longleftrightarrow> e \<in> set (all_networks N routing) \<and> net_contains N (fst e) ip
     \<and> (\<forall>e' \<in> set (all_networks N routing). net_contains N (fst e') ip \<longrightarrow> net_masklen N (fst e') \<le> net_masklen N (fst e))"

lemma choose_domain_most_specific:
  assumes "router_build N T known routing = Ok r"
  shows "case choose_domain (domain_rules r) h of
      Some server \<Rightarrow> (\<exists>d. most_specific routing h d \<and> server = rule_server d)
    | None \<Rightarrow> (\<forall>d \<in> set (all_domain_rules routing). \<not> covers d h)"
  unfolding router_build_OkD(2) [OF assms]
  by (auto simp: choose_domain_None most_specific_def split: option.split elim!: choose_domain_sorted)

lemma choose_ip_longest:
  assumes "table_ok N T" "router_build N T known routing = Ok r"
  shows "if \<exists>e \<in> set (all_networks N routing). net_contains N (fst e) ip
    then \<exists>e. longest_network N routing ip e \<and> choose_ip T r ip = snd e
    else choose_ip T r ip = DEFAULT_SERVER_NAME"
proof (rule choose_ip_cases [OF assms, of ip])
  fix n s
  assume "choose_ip T r ip = s" "(n, s) \<in> set (all_networks N routing)" "net_contains N n ip"
    "\<And>m t. (m, t) \<in> set (all_networks N routing) \<Longrightarrow> net_contains N m ip \<Longrightarrow> net_masklen N m \<le> net_masklen N n"
  then have "longest_network N routing ip (n, s) \<and> choose_ip T r ip = snd (n, s)"
    "\<exists>e \<in> set (all_networks N routing). net_contains N (fst e) ip"
    by (force simp: longest_network_def)+
  then show ?thesis by (simp only: if_True) blast
qed force

lemma router_choose_eq:
  "router_build N T known routing = Ok r \<Longrightarrow> router_choose T r host =
     (let h = to_ascii_lowercase (trim_end_dots host)
      in case choose_domain (domain_rules r) h of
           Some server \<Rightarrow> server
         | None \<Rightarrow> (case parse_ip_addr h of Some ip \<Rightarrow> choose_ip T r ip | None \<Rightarrow> DEFAULT_SERVER_NAME))"
  by (simp add: router_choose_def choose_ip_def Let_def router_build_OkD(4) split: option.split)

definition unambiguous :: "'n network_crate \<Rightarrow> (chars \<times> routing_rule) list \<Rightarrow> bool" where
  "unambiguous N routing \<longleftrightarrow>
     (\<forall>a \<in> set (all_domain_rules routing). \<forall>b \<in> set (all_domain_rules routing).
        kind a = kind b \<and> pattern a = pattern b \<longrightarrow> rule_server a = rule_server b)
   \<and> (\<forall>a \<in> set (all_networks N routing). \<forall>b \<in> set (all_networks N routing). fst a = fst b \<longrightarrow> snd a = snd b)"

lemma unambiguous_domain:
  assumes "unambiguous N routing" "most_specific routing h a" "most_specific routing h b"
  shows "rule_server a = rule_server b"
proof -
  from assms(2,3) have "specificity a = specificity b" by (auto simp: most_specific_def intro: order.antisym)
  then show ?thesis using assms equally_specific [of a h b] by (auto simp: unambiguous_def most_specific_def)
qed

lemma unambiguous_network:
  assumes "network_ok N" "unambiguous N routing" "longest_network N routing ip a" "longest_network N routing ip b"
  shows "snd a = snd b"
proof -
  from assms(3,4) have "net_masklen N (fst a) = net_masklen N (fst b)"
    by (auto simp: longest_network_def intro: order.antisym)
  then have "fst a = fst b" using assms(1,3,4) unfolding network_ok_def longest_network_def by blast
  then show ?thesis using assms(2-4) unfolding unambiguous_def longest_network_def by blast
qed

lemma reordered:
  assumes "mset routing' = mset routing"
  shows "set (all_domain_rules routing') = set (all_domain_rules routing)"
    "set (all_networks N routing') = set (all_networks N routing)"
    "list_all (entry_ok N known) routing' = list_all (entry_ok N known) routing"
    "most_specific routing' = most_specific routing" "longest_network N routing' = longest_network N routing"
proof -
  have eq: "set routing' = set routing" using assms by (metis set_mset_mset)
  then show d: "set (all_domain_rules routing') = set (all_domain_rules routing)"
    and n: "set (all_networks N routing') = set (all_networks N routing)"
    and "list_all (entry_ok N known) routing' = list_all (entry_ok N known) routing"
    by (simp_all add: all_domain_rules_def all_networks_def list_all_iff)
  show "most_specific routing' = most_specific routing" "longest_network N routing' = longest_network N routing"
    by (auto simp: fun_eq_iff most_specific_def longest_network_def d n)
qed

section \<open>A configuration\<close>

text \<open>Two servers; the wildcard of the first is shorter than the name of the second.\<close>

definition demo_routing :: "(chars \<times> routing_rule) list" where
  "demo_routing =
     [(codes ''us'', \<lparr>rule_domains = [codes '' Google.com ''], rule_ips = [codes ''10.1.2.3'']\<rparr>),
      (codes ''sg'', \<lparr>rule_domains = [codes ''*.com''], rule_ips = [codes ''10.0.0.0/8'']\<rparr>)]"

definition demo_known :: "chars list" where
  "demo_known = map codes [''default'', ''sg'', ''us'']"

definition demo_router :: "(cidr \<times> chars) list router" where
  "demo_router =
     \<lparr>domain_rules = [\<lparr>kind = Wildcard, pattern = codes ''com'', rule_server = codes ''sg''\<rparr>,
                      \<lparr>kind = Suffix, pattern = codes ''google.com'', rule_server = codes ''us''\<rparr>],
      ip_rules = [((V4 0x0A010203, 32), codes ''us''), ((V4 0x0A000000, 8), codes ''sg'')], ip_rule_count = 2,
      default_name = codes ''default''\<rparr>"

lemma demo_rules:
  "parse_domain_pattern (codes ''*.com'') = Ok (Wildcard, codes ''com'')"
  "parse_domain_pattern (codes '' Google.com '') = Ok (Suffix, codes ''google.com'')"
  "parse_ip_or_cidr demo_net (codes ''10.0.0.0/8'') = Ok (V4 0x0A000000, 8)"
  "parse_ip_or_cidr demo_net (codes ''10.1.2.3'') = Ok (V4 0x0A010203, 32)"
  by (simp_all add: parse_domain_pattern_def parse_ip_or_cidr_def string_evals addr_evals)

lemma demo_router_built: "router_build demo_net demo_table demo_known demo_routing = Ok demo_router"
  by (simp add: router_build_def demo_routing_def demo_known_def demo_rules demo_router_def)
     (simp add: DEFAULT_SERVER_NAME_def string_evals demo_table_def specificity_def descending_def)

lemma demo_all_rules:
  "all_domain_rules demo_routing =
     [\<lparr>kind = Suffix, pattern = codes ''google.com'', rule_server = codes ''us''\<rparr>,
      \<lparr>kind = Wildcard, pattern = codes ''com'', rule_server = codes ''sg''\<rparr>]"
  "all_networks demo_net demo_routing = [((V4 0x0A010203, 32), codes ''us''), ((V4 0x0A000000, 8), codes ''sg'')]"
  by (simp_all add: all_domain_rules_def domain_rules_of_def all_networks_def networks_of_def demo_routing_def demo_rules)

lemma demo_matches:
  "matches_rule \<lparr>kind = Wildcard, pattern = codes ''com'', rule_server = s\<rparr> (codes ''mail.google.com'')"
  by (simp add: matches_rule_def below_pattern_def string_evals)

lemma demo_unambiguous: "unambiguous demo_net demo_routing"
  by (simp add: unambiguous_def demo_all_rules)

lemma demo_choices:
  "router_choose demo_table demo_router (codes ''mail.Google.com.'') = codes ''sg''"
  "choose_ip demo_table demo_router (V4 0x0A010203) = codes ''us''"
proof -
  have h: "to_ascii_lowercase (trim_end_dots (codes ''mail.Google.com.'')) = codes ''mail.google.com''"
    by (simp add: string_evals)
  show "router_choose demo_table demo_router (codes ''mail.Google.com.'') = codes ''sg''"
    by (simp add: router_choose_def h demo_router_def demo_matches)
  show "choose_ip demo_table demo_router (V4 0x0A010203) = codes ''us''"
    by (simp add: choose_ip_def demo_router_def demo_longest_match_def demo_net_def)
qed

section \<open>Properties\<close>

text \<open>C5: a router that was built sends a host to the server of a rule that covers it and is most specific among
  all configured rules that do (an exact name before a wildcard before a name with its subdomains, then the longer
  name), whatever order the map of rules was iterated in; without such a rule an address goes to the server of the
  longest network that contains it, and everything else to the default server. The answer is always the default or a
  server that was declared.\<close>

theorem router_prefers_most_specific:
  fixes host :: chars
  assumes "table_ok N T" "router_build N T known routing = Ok r"
  defines "h \<equiv> to_ascii_lowercase (trim_end_dots host)"
  shows "(if \<exists>d \<in> set (all_domain_rules routing). covers d h
          then \<exists>d. most_specific routing h d \<and> router_choose T r host = rule_server d
          else router_choose T r host = (case parse_ip_addr h of Some ip \<Rightarrow> choose_ip T r ip | None \<Rightarrow> DEFAULT_SERVER_NAME))
       \<and> (if \<exists>e \<in> set (all_networks N routing). net_contains N (fst e) ip
          then \<exists>e. longest_network N routing ip e \<and> choose_ip T r ip = snd e
          else choose_ip T r ip = DEFAULT_SERVER_NAME)
       \<and> router_choose T r host \<in> insert DEFAULT_SERVER_NAME (set known)"
proof (intro conjI)
  note ip = choose_ip_longest [OF assms(1,2)]
  note known = known_servers [OF router_build_OkD(1) [OF assms(2)]]
  note choose = router_choose_eq [OF assms(2), of host, folded h_def, unfolded Let_def]
  note domain = choose_domain_most_specific [OF assms(2), of h]
  show "if \<exists>d \<in> set (all_domain_rules routing). covers d h
      then \<exists>d. most_specific routing h d \<and> router_choose T r host = rule_server d
      else router_choose T r host = (case parse_ip_addr h of Some ip \<Rightarrow> choose_ip T r ip | None \<Rightarrow> DEFAULT_SERVER_NAME)"
    using domain by (cases "choose_domain (domain_rules r) h") (auto simp: choose most_specific_def h_def)
  show "if \<exists>e \<in> set (all_networks N routing). net_contains N (fst e) ip
      then \<exists>e. longest_network N routing ip e \<and> choose_ip T r ip = snd e
      else choose_ip T r ip = DEFAULT_SERVER_NAME" by (rule ip)
  have "choose_ip T r ip \<in> insert DEFAULT_SERVER_NAME (set known)" for ip
    using ip [of ip] known(2) by (auto simp: longest_network_def split: if_splits)
  then show "router_choose T r host \<in> insert DEFAULT_SERVER_NAME (set known)"
    using domain known(1)
    by (cases "choose_domain (domain_rules r) h") (auto simp: choose most_specific_def h_def split: option.split)
qed

theorem router_prefers_most_specific_witness:
  "table_ok demo_net demo_table \<and> router_build demo_net demo_table demo_known demo_routing = Ok demo_router
   \<and> (\<exists>d. most_specific demo_routing (codes ''mail.google.com'') d
         \<and> router_choose demo_table demo_router (codes ''mail.Google.com.'') = rule_server d)
   \<and> router_choose demo_table demo_router (codes ''mail.Google.com.'') = codes ''sg''
   \<and> choose_ip demo_table demo_router (V4 0x0A010203) = codes ''us''"
proof -
  have h: "to_ascii_lowercase (trim_end_dots (codes ''mail.Google.com.'')) = codes ''mail.google.com''"
    by (simp add: string_evals)
  have "\<exists>d \<in> set (all_domain_rules demo_routing). covers d (codes ''mail.google.com'')"
    by (simp add: demo_all_rules demo_matches matches_rule_covers [symmetric])
  then show ?thesis
    using router_prefers_most_specific [OF demo_table_ok demo_router_built, of "codes ''mail.Google.com.''"]
    by (simp add: h demo_table_ok demo_router_built demo_choices)
qed

text \<open>C22: the choice does not depend on the order in which the map of rules is iterated, provided no pattern of one
  kind and no network is configured for two servers; and whether the rules are accepted never depends on it.\<close>

theorem choice_independent_of_iteration_order:
  assumes "network_ok N" "table_ok N T" "mset routing' = mset routing"
  shows "is_ok (router_build N T known routing') = is_ok (router_build N T known routing)
     \<and> (\<forall>r r'. unambiguous N routing \<longrightarrow> router_build N T known routing = Ok r \<longrightarrow>
          router_build N T known routing' = Ok r' \<longrightarrow>
          router_choose T r' host = router_choose T r host \<and> choose_ip T r' ip = choose_ip T r ip)"
proof (intro conjI allI impI)
  note same = reordered [OF assms(3)]
  show "is_ok (router_build N T known routing') = is_ok (router_build N T known routing)"
    using router_build_eq [of N known routing T] router_build_eq [of N known routing' T] same(3) [of N known]
    by (auto split: if_splits)
  fix r r'
  assume u: "unambiguous N routing" and r: "router_build N T known routing = Ok r"
    and r': "router_build N T known routing' = Ok r'"
  show ip: "choose_ip T r' ip = choose_ip T r ip" for ip
  proof (cases "\<exists>e \<in> set (all_networks N routing). net_contains N (fst e) ip")
    case True
    then obtain e e' where "longest_network N routing ip e" "choose_ip T r ip = snd e"
      "longest_network N routing ip e'" "choose_ip T r' ip = snd e'"
      using choose_ip_longest [OF assms(2) r, of ip] choose_ip_longest [OF assms(2) r', of ip] unfolding same
      by (simp only: if_True) blast
    then show ?thesis using unambiguous_network [OF assms(1) u] by metis
  next
    case False
    then show ?thesis
      using choose_ip_longest [OF assms(2) r, of ip] choose_ip_longest [OF assms(2) r', of ip] unfolding same
      by (simp only: if_False)
  qed
  have "choose_domain (domain_rules r') h = choose_domain (domain_rules r) h" for h
  proof (cases "\<exists>d \<in> set (all_domain_rules routing). covers d h")
    case True
    then obtain d d' where "most_specific routing h d" "choose_domain (domain_rules r) h = Some (rule_server d)"
      "most_specific routing h d'" "choose_domain (domain_rules r') h = Some (rule_server d')"
      using choose_domain_most_specific [OF r, of h] choose_domain_most_specific [OF r', of h] unfolding same
      by (fastforce split: option.splits)
    then show ?thesis using unambiguous_domain [OF u] by metis
  next
    case False
    then show ?thesis
      using choose_domain_most_specific [OF r, of h] choose_domain_most_specific [OF r', of h] unfolding same
      by (fastforce simp: most_specific_def split: option.splits)
  qed
  then show "router_choose T r' host = router_choose T r host"
    by (simp add: router_choose_eq [OF r] router_choose_eq [OF r'] Let_def ip split: option.split)
qed

theorem choice_independent_of_iteration_order_witness:
  "network_ok demo_net \<and> table_ok demo_net demo_table \<and> unambiguous demo_net demo_routing
   \<and> (\<exists>r. router_build demo_net demo_table demo_known (rev demo_routing) = Ok r
        \<and> router_choose demo_table r (codes ''mail.Google.com.'') = codes ''sg'')"
proof -
  have "mset (rev demo_routing) = mset demo_routing" by simp
  note order = choice_independent_of_iteration_order [OF demo_net_ok demo_table_ok this,
      of demo_known "codes ''mail.Google.com.''" "V4 0"]
  then have "is_ok (router_build demo_net demo_table demo_known (rev demo_routing))" by (simp add: demo_router_built)
  then obtain r where "router_build demo_net demo_table demo_known (rev demo_routing) = Ok r"
    by (cases "router_build demo_net demo_table demo_known (rev demo_routing)") auto
  then show ?thesis
    using order demo_router_built demo_net_ok demo_table_ok demo_unambiguous demo_choices(1) by auto
qed

end
