(* ===== verification/Route_Map.thy ===== *)
theory Route_Map
  imports Caches Split_Router
begin

text \<open>
  Routes learned from DNS answers: \<open>rvpn-mobile/src/route_map.rs\<close>, \<open>note_routed_answer\<close> of \<open>dns_server.rs\<close> and
  \<open>choose_exit_name\<close>, which \<open>ios_tun.rs\<close> and \<open>android_tun.rs\<close> contain in identical copies. Instants are numbers of
  nanoseconds; the mutex around the map makes each operation one step.
\<close>

section \<open>The map\<close>

record route_entry =
  route_server :: chars
  expires :: nat

type_synonym route_map = "(ip_addr, route_entry) hmap"
type_synonym ip_place = "ip_addr \<Rightarrow> nat"

definition MAX_ENTRIES :: nat where
  "MAX_ENTRIES = 4096"

definition route_room :: "ip_place \<times> nat \<Rightarrow> ip_addr \<Rightarrow> route_map \<Rightarrow> route_map" where
  "route_room = (\<lambda>(place, now) ip m.
     if MAX_ENTRIES \<le> length m \<and> hm_get m ip = None
     then drop_oldest expires MAX_ENTRIES place (retain (\<lambda>_ e. now < expires e) m)
     else m)"

definition route_insert :: "ip_place \<times> nat \<Rightarrow> nat \<Rightarrow> ip_addr \<Rightarrow> chars \<Rightarrow> nat \<Rightarrow> route_map \<Rightarrow> route_map" where
  "route_insert t later ip server ttl m =
     hm_insert ip \<lparr>route_server = server, expires = later + ttl\<rparr> (route_room t ip m)"

definition route_lookup :: "nat \<Rightarrow> ip_addr \<Rightarrow> route_map \<Rightarrow> chars option \<times> route_map" where
  "route_lookup now ip m =
     (case hm_get m ip of
        Some entry \<Rightarrow> if now < expires entry then (Some (route_server entry), m) else (None, hm_remove ip m)
      | None \<Rightarrow> (None, m))"

section \<open>The demultiplexer\<close>

definition choose_exit_name :: "('n, chars, 't) table_crate \<Rightarrow> 't router option \<Rightarrow> route_map option \<Rightarrow> nat \<Rightarrow> bytes
    \<Rightarrow> chars option \<times> route_map option" where
  "choose_exit_name T router routes now packet =
     (case router of
        None \<Rightarrow> (None, routes)
      | Some r \<Rightarrow>
          if length packet < 20 \<or> drop_bit 4 (packet ! 0) \<noteq> 4 then (None, routes)
          else let dst = V4 (ipv4_new (packet ! 16) (packet ! 17) (packet ! 18) (packet ! 19));
                   static = (let chosen = choose_ip T r dst in if chosen = DEFAULT_SERVER_NAME then None else Some chosen)
               in case routes of
                    None \<Rightarrow> (static, None)
                  | Some m \<Rightarrow>
                      (case route_lookup now dst m of
                         (Some name, m) \<Rightarrow> (Some name, Some m)
                       | (None, m) \<Rightarrow> (static, Some m)))"

text \<open>\<open>clock i\<close> are the readings for the \<open>i\<close>-th address. The hook that starts the session of the exit has no result.\<close>

fun note_addresses :: "(nat \<Rightarrow> (ip_place \<times> nat) \<times> nat) \<Rightarrow> nat \<Rightarrow> chars \<Rightarrow> nat \<Rightarrow> ip_addr list \<Rightarrow> route_map \<Rightarrow> route_map" where
  "note_addresses clock i exit ttl [] m = m"
| "note_addresses clock i exit ttl (V4 a # addrs) m =
     note_addresses clock (Suc i) exit ttl addrs (route_insert (fst (clock i)) (snd (clock i)) (V4 a) exit ttl m)"
| "note_addresses clock i exit ttl (V6 a # addrs) m = note_addresses clock (Suc i) exit ttl addrs m"

definition note_routed_answer :: "(nat \<Rightarrow> (ip_place \<times> nat) \<times> nat) \<Rightarrow> chars \<Rightarrow> ip_addr list \<Rightarrow> u32 \<Rightarrow> route_map option
    \<Rightarrow> route_map option" where
  "note_routed_answer clock exit addrs ttl_secs routes =
     map_option (note_addresses clock 0 exit (unat (max ttl_secs 30) * 1000000000) addrs) routes"

section \<open>The contract\<close>

interpretation routes: bounded_cache MAX_ENTRIES route_room
proof
  fix m :: route_map and t :: "ip_place \<times> nat" and k v
  obtain place now where t: "t = (place, now)" by fastforce
  assume m: "hm_wf m"
  let ?m = "retain (\<lambda>_ e. now < expires e) m"
  note keeps = drop_oldest_keeps [OF hm_wf_retain [OF m], where P1 = "\<lambda>_ e. now < expires e"]
  show "hm_wf (route_room t k m)" using m keeps by (simp add: t route_room_def)
  show "set (route_room t k m) \<subseteq> set m"
    using keeps(2) [of expires MAX_ENTRIES place] retain_subset [of "\<lambda>_ e. now < expires e" m]
    by (simp add: t route_room_def) blast
  assume len: "length m \<le> MAX_ENTRIES"
  show "length (hm_insert k v (route_room t k m)) \<le> MAX_ENTRIES"
  proof (cases "MAX_ENTRIES \<le> length m \<and> hm_get m k = None")
    case True
    have "length (drop_oldest expires MAX_ENTRIES place ?m) < MAX_ENTRIES"
      using m len length_retain [of "\<lambda>_ e. now < expires e" m]
      by (intro drop_oldest_room) (simp_all add: MAX_ENTRIES_def)
    then show ?thesis using True by (simp add: t route_room_def length_update)
  next
    case False
    then show ?thesis
      using len by (auto simp: t route_room_def length_update map_of_eq_None_iff)
  qed
qed

section \<open>What an answer leaves in the map\<close>

lemma route_insert_room:
  "length m < MAX_ENTRIES \<Longrightarrow>
     route_insert t later ip server ttl m = hm_insert ip \<lparr>route_server = server, expires = later + ttl\<rparr> m"
  by (cases t) (simp add: route_insert_def route_room_def)

definition v4_count :: "ip_addr list \<Rightarrow> nat" where
  "v4_count addrs = length (filter (\<lambda>a. \<exists>v. a = V4 v) addrs)"

lemma v4_count_simps [simp]:
  "v4_count [] = 0" "v4_count (V4 a # addrs) = Suc (v4_count addrs)" "v4_count (V6 b # addrs) = v4_count addrs"
  by (simp_all add: v4_count_def)

lemma note_addresses_get:
  assumes "length m + v4_count addrs \<le> MAX_ENTRIES"
  shows "if ip \<in> set addrs \<and> (\<exists>a. ip = V4 a)
     then \<exists>j. hm_get (note_addresses clock i exit ttl addrs m) ip = Some \<lparr>route_server = exit, expires = snd (clock j) + ttl\<rparr>
     else hm_get (note_addresses clock i exit ttl addrs m) ip = hm_get m ip"
  using assms
proof (induction clock i exit ttl addrs m rule: note_addresses.induct)
  case (2 clock i exit ttl a addrs m)
  let ?m = "hm_insert (V4 a) \<lparr>route_server = exit, expires = snd (clock i) + ttl\<rparr> m"
  have ins: "route_insert (fst (clock i)) (snd (clock i)) (V4 a) exit ttl m = ?m"
    using "2.prems" by (simp add: route_insert_room)
  have "length ?m + v4_count addrs \<le> MAX_ENTRIES" using "2.prems" by (simp add: length_update)
  with "2.IH" show ?case
    unfolding note_addresses.simps ins
    by (cases "ip = V4 a"; cases "ip \<in> set addrs") (auto simp: update_conv split: if_splits)
qed auto

lemma note_addresses_bounded:
  "hm_wf m \<Longrightarrow> length m \<le> MAX_ENTRIES \<Longrightarrow>
     hm_wf (note_addresses clock i exit ttl addrs m) \<and> length (note_addresses clock i exit ttl addrs m) \<le> MAX_ENTRIES"
  by (induction clock i exit ttl addrs m rule: note_addresses.induct)
    (simp_all add: route_insert_def routes.room_bound routes.room_wf)

text \<open>The destination of a packet, and the static choice for it.\<close>

definition packet_dst :: "bytes \<Rightarrow> ip_addr" where
  "packet_dst packet = V4 (ipv4_new (packet ! 16) (packet ! 17) (packet ! 18) (packet ! 19))"

definition static_exit :: "('n, chars, 't) table_crate \<Rightarrow> 't router \<Rightarrow> ip_addr \<Rightarrow> chars option" where
  "static_exit T r ip = (if choose_ip T r ip = DEFAULT_SERVER_NAME then None else Some (choose_ip T r ip))"

lemma choose_exit_name_eq:
  assumes "20 \<le> length packet" "drop_bit 4 (packet ! 0) = 4"
  shows "fst (choose_exit_name T (Some r) (Some m) now packet) =
    (case hm_get m (packet_dst packet) of
       Some e \<Rightarrow> if now < expires e then Some (route_server e) else static_exit T r (packet_dst packet)
     | None \<Rightarrow> static_exit T r (packet_dst packet))"
  using assms by (simp add: choose_exit_name_def route_lookup_def packet_dst_def static_exit_def Let_def split: option.split)

lemma routed_answer_steers:
  assumes "length m + v4_count addrs \<le> MAX_ENTRIES" "\<And>i. t0 \<le> snd (clock i)"
    and "20 \<le> length packet" "drop_bit 4 (packet ! 0) = 4" "packet_dst packet \<in> set addrs"
    and "now < t0 + unat (max ttl 30) * 1000000000" "note_routed_answer clock exit addrs ttl (Some m) = Some m'"
  shows "fst (choose_exit_name T (Some r) (Some m') now packet) = Some exit"
proof -
  let ?ttl = "unat (max ttl 30) * 1000000000"
  have m': "m' = note_addresses clock 0 exit ?ttl addrs m" using assms(7) by (simp add: note_routed_answer_def)
  have "\<exists>a. packet_dst packet = V4 a" by (simp add: packet_dst_def)
  then obtain j where "hm_get m' (packet_dst packet) = Some \<lparr>route_server = exit, expires = snd (clock j) + ?ttl\<rparr>"
    using note_addresses_get [OF assms(1), of "packet_dst packet" clock 0 exit ?ttl] assms(5) m' by auto
  moreover have "now < snd (clock j) + ?ttl" using assms(2) [of j] assms(6) by linarith
  ultimately show ?thesis by (simp add: choose_exit_name_eq [OF assms(3,4)])
qed

end
