(* ===== verification/Mobile_Dns.thy ===== *)
theory Mobile_Dns
  imports Host_Decision Doh_Cache Route_Map
begin

text \<open>
  The name server of the mobile apps, \<open>rvpn-mobile/src/dns_server.rs\<close>: it decides with the split tunnel whether a query
  is blocked, answered by public nameservers or resolved through the tunnel, and for several exits which of them resolves
  it. The crate \<open>hickory_proto\<close> is a parameter: its messages are records of the fields that the code reads and writes,
  with the remaining sections as one opaque field. The decision is that of a build with the compiled-in domain lists, as
  on Android (see \<open>Split_Tunnel\<close>). What happens during a query is an argument: the datagrams, the
  answers of the exits, the system resolver, the readings of the clock (\<open>clock i\<close> is the reading at point \<open>i\<close> of the
  code), the iteration orders and the transaction ids. Every definition also returns the calls it makes.
\<close>

section \<open>Messages\<close>

datatype record_type = TypeA | TypeAAAA | OtherType

datatype response_code = NoError | NXDomain | ServFail | OtherCode u16

datatype 'x rdata = AData ipv4_addr | AAAAData ipv6_addr | OtherData 'x

record ('name, 'x) dns_record =
  rr_name :: 'name
  rr_ttl :: u32
  rr_data :: "'x rdata option"

record ('q, 'name, 'x) dns_message =
  msg_id :: u16
  is_query :: bool
  op_query :: bool
  authoritative :: bool
  recursion_desired :: bool
  recursion_available :: bool
  response_code :: response_code
  queries :: "'q list"
  answers :: "('name, 'x) dns_record list"
  other_sections :: 'x

record ('q, 'name, 'x) hickory_crate =
  from_vec :: "bytes \<Rightarrow> ('q, 'name, 'x) dns_message option"
  to_vec :: "('q, 'name, 'x) dns_message \<Rightarrow> bytes option"
  message_new :: "('q, 'name, 'x) dns_message"
  query_name :: "'q \<Rightarrow> 'name"
  query_type :: "'q \<Rightarrow> record_type"
  to_ascii :: "'name \<Rightarrow> chars"
  is_root :: "'name \<Rightarrow> bool"

text \<open>A new message has neither questions nor answers and the code for no error.\<close>

definition hickory_ok :: "('q, 'name, 'x) hickory_crate \<Rightarrow> bool" where
  "hickory_ok H \<longleftrightarrow> queries (message_new H) = [] \<and> answers (message_new H) = [] \<and> response_code (message_new H) = NoError"

section \<open>State\<close>

record ('t, 'r) dns_server =
  st_config :: split_tunnel_config
  st_data :: "'t split_tunnel_data"
  primary_doh :: "doh_client option"
  resolver :: dns_resolver
  upstream :: "socket_addr list"
  filter_aaaa :: bool
  exit_router :: "'r router option"
  extra_doh_clients :: "(chars, doh_client) hmap"
  learned_routes :: "route_map option"
  prewarm_set :: bool
  server_hostnames :: "chars list"

record dns_io =
  udp :: "socket_addr \<Rightarrow> nat \<Rightarrow> bytes \<Rightarrow> udp_result"
  resolver_udp :: "socket_addr \<Rightarrow> nat \<Rightarrow> bytes \<Rightarrow> udp_result"
  system_lookup :: "chars \<Rightarrow> u16 \<Rightarrow> socket_addr list option"
  exit_reply :: "chars option \<Rightarrow> dns_query \<Rightarrow> dns_response option"
  clock :: "nat \<Rightarrow> nat"
  name_place :: "nat \<Rightarrow> chars \<Rightarrow> nat"
  route_place :: "nat \<Rightarrow> ip_place"
  next_txid :: "nat \<Rightarrow> u16"
  send_ok :: bool

datatype event =
    Udp socket_addr bytes
  | Resolver chars
  | Doh "chars option" chars u16
  | Prewarm chars
  | Reply bytes

definition DEFAULT_NAMESERVERS :: "socket_addr list" where
  "DEFAULT_NAMESERVERS = [(V4 (ipv4_new 8 8 8 8), 53), (V4 (ipv4_new 1 1 1 1), 53), (V4 (ipv4_new 223 5 5 5), 53)]"

definition dns_server_new :: "split_tunnel_config \<Rightarrow> 't split_tunnel_data \<Rightarrow> dns_resolver \<Rightarrow> doh_client option \<Rightarrow> ('t, 'r) dns_server" where
  "dns_server_new config data r doh =
     \<lparr>st_config = config, st_data = data, primary_doh = doh, resolver = r, upstream = DEFAULT_NAMESERVERS, filter_aaaa = True,
      exit_router = None, extra_doh_clients = [], learned_routes = None, prewarm_set = False, server_hostnames = []\<rparr>"

definition set_multi_exit :: "'r router \<Rightarrow> (chars, doh_client) hmap \<Rightarrow> route_map \<Rightarrow> ('t, 'r) dns_server \<Rightarrow> ('t, 'r) dns_server" where
  "set_multi_exit router clients routes s =
     s\<lparr>exit_router := Some router, extra_doh_clients := clients, learned_routes := Some routes, prewarm_set := True\<rparr>"

definition set_server_hostnames :: "('n, 't) environment \<Rightarrow> chars list \<Rightarrow> ('t, 'r) dns_server \<Rightarrow> ('t, 'r) dns_server" where
  "set_server_hostnames E hostnames s = s\<lparr>server_hostnames := map (\<lambda>h. to_lowercase E (trim_end_dots h)) hostnames\<rparr>"

section \<open>Exits\<close>

definition choose_exit :: "('n, chars, 'r) table_crate \<Rightarrow> ('t, 'r) dns_server \<Rightarrow> chars \<Rightarrow> chars option" where
  "choose_exit T s domain =
     (case exit_router s of
        None \<Rightarrow> None
      | Some r \<Rightarrow> (let chosen = router_choose T r domain in if chosen = DEFAULT_SERVER_NAME then None else Some chosen))"

fun doh_client_for :: "('t, 'r) dns_server \<Rightarrow> chars option \<Rightarrow> doh_client option" where
  "doh_client_for s (Some name) = hm_get (extra_doh_clients s) name"
| "doh_client_for s None = primary_doh s"

text \<open>The clients are shared references, so a change of one is a change of the server's state.\<close>

fun put_client :: "chars option \<Rightarrow> doh_client \<Rightarrow> ('t, 'r) dns_server \<Rightarrow> ('t, 'r) dns_server" where
  "put_client (Some name) c s = s\<lparr>extra_doh_clients := hm_insert name c (extra_doh_clients s)\<rparr>"
| "put_client None c s = s\<lparr>primary_doh := Some c\<rparr>"

fun note_exit :: "dns_io \<Rightarrow> chars option \<Rightarrow> ip_addr list \<Rightarrow> u32 \<Rightarrow> ('t, 'r) dns_server \<Rightarrow> ('t, 'r) dns_server \<times> event list" where
  "note_exit io None addrs ttl s = (s, [])"
| "note_exit io (Some exit) addrs ttl s =
     (s\<lparr>learned_routes := note_routed_answer (\<lambda>i. ((route_place io i, clock io (20 + 2 * i)), clock io (21 + 2 * i)))
          exit addrs ttl (learned_routes s)\<rparr>,
      if prewarm_set s then [Prewarm exit] else [])"

section \<open>Responses\<close>

definition make_base_response :: "('q, 'name, 'x) hickory_crate \<Rightarrow> ('q, 'name, 'x) dns_message \<Rightarrow> ('q, 'name, 'x) dns_message" where
  "make_base_response H request =
     (message_new H)\<lparr>msg_id := msg_id request, is_query := False, op_query := True, authoritative := False,
       recursion_desired := recursion_desired request, recursion_available := True,
       queries := queries (message_new H) @ queries request\<rparr>"

definition make_error_response :: "('q, 'name, 'x) hickory_crate \<Rightarrow> ('q, 'name, 'x) dns_message \<Rightarrow> response_code
    \<Rightarrow> ('q, 'name, 'x) dns_message" where
  "make_error_response H request code = (make_base_response H request)\<lparr>response_code := code\<rparr>"

fun address_record :: "'name \<Rightarrow> record_type \<Rightarrow> u32 \<Rightarrow> ip_addr \<Rightarrow> ('name, 'x) dns_record option" where
  "address_record name TypeA ttl (V4 v4) = Some \<lparr>rr_name = name, rr_ttl = ttl, rr_data = Some (AData v4)\<rparr>"
| "address_record name TypeAAAA ttl (V6 v6) = Some \<lparr>rr_name = name, rr_ttl = ttl, rr_data = Some (AAAAData v6)\<rparr>"
| "address_record name _ ttl _ = None"

definition answer_response :: "('q, 'name, 'x) hickory_crate \<Rightarrow> ('q, 'name, 'x) dns_message \<Rightarrow> ('name, 'x) dns_record list
    \<Rightarrow> ('q, 'name, 'x) dns_message" where
  "answer_response H request records =
     (let response = (make_base_response H request)\<lparr>response_code := NoError\<rparr>
      in response\<lparr>answers := answers response @ records\<rparr>)"

section \<open>Through the tunnel\<close>

fun qtype_num :: "record_type \<Rightarrow> u16 option" where
  "qtype_num TypeA = Some 1"
| "qtype_num TypeAAAA = Some 28"
| "qtype_num OtherType = None"

text \<open>
  \<open>resolve_remote\<close> and \<open>resolve_tunnel_minimal\<close> differ in the records they put into the answer: all of the type that was
  asked for, or the first.
\<close>

definition resolve_doh :: "(('name, 'x) dns_record list \<Rightarrow> ('name, 'x) dns_record list) \<Rightarrow> ('q, 'name, 'x) hickory_crate \<Rightarrow> dns_io
    \<Rightarrow> ('q, 'name, 'x) dns_message \<Rightarrow> 'name \<Rightarrow> record_type \<Rightarrow> chars option \<Rightarrow> ('t, 'r) dns_server
    \<Rightarrow> ('q, 'name, 'x) dns_message \<times> ('t, 'r) dns_server \<times> event list" where
  "resolve_doh pick H io request name qt exit s =
     (let domain = trim_end_dots (to_ascii H name);
          answer = (\<lambda>addrs ttl. answer_response H request (pick (List.map_filter (address_record name qt ttl) addrs)))
      in case qtype_num qt of
           None \<Rightarrow> (make_base_response H request, s, [])
         | Some num \<Rightarrow>
             (case doh_client_for s exit of
                None \<Rightarrow> (make_error_response H request ServFail, s, [])
              | Some client \<Rightarrow>
                  (case doh_lookup_cached client (clock io 3) domain num of
                     Some cached \<Rightarrow>
                       (let ttl = (case get_cached_ttl client (clock io 4) domain num of Some ttl \<Rightarrow> ttl | None \<Rightarrow> 14400);
                            (s, ev) = note_exit io exit cached ttl s
                        in (answer cached ttl, s, ev))
                   | None \<Rightarrow>
                       (case doh_resolve client (exit_reply io exit) (clock io 5) (name_place io 0, clock io 6) (clock io 7) domain num of
                          (Ok addrs, client) \<Rightarrow>
                            (let ttl = (case get_cached_ttl client (clock io 8) domain num of Some ttl \<Rightarrow> ttl | None \<Rightarrow> 14400);
                                 (s, ev) = note_exit io exit addrs ttl (put_client exit client s)
                             in (answer addrs ttl, s, Doh exit domain num # ev))
                        | (_, client) \<Rightarrow> (make_error_response H request ServFail, put_client exit client s, [Doh exit domain num])))))"

definition resolve_remote :: "('q, 'name, 'x) hickory_crate \<Rightarrow> dns_io \<Rightarrow> ('q, 'name, 'x) dns_message \<Rightarrow> 'name \<Rightarrow> record_type
    \<Rightarrow> chars option \<Rightarrow> ('t, 'r) dns_server \<Rightarrow> ('q, 'name, 'x) dns_message \<times> ('t, 'r) dns_server \<times> event list" where
  "resolve_remote = resolve_doh id"

datatype query_error = BadQuery | NoQuestions | NotSerialized | NotSent | UpstreamFailed

definition serialize :: "('q, 'name, 'x) hickory_crate \<Rightarrow> ('q, 'name, 'x) dns_message \<Rightarrow> (query_error, bytes) outcome" where
  "serialize H response = ok_or NotSerialized (to_vec H response)"

definition resolve_tunnel_minimal :: "('q, 'name, 'x) hickory_crate \<Rightarrow> dns_io \<Rightarrow> ('q, 'name, 'x) dns_message \<Rightarrow> 'name \<Rightarrow> record_type
    \<Rightarrow> chars option \<Rightarrow> ('t, 'r) dns_server \<Rightarrow> (query_error, bytes) outcome \<times> ('t, 'r) dns_server \<times> event list" where
  "resolve_tunnel_minimal H io request name qt exit s =
     (case resolve_doh (take 1) H io request name qt exit s of (response, s, ev) \<Rightarrow> (serialize H response, s, ev))"

section \<open>Around the tunnel\<close>

definition forward_raw_dns :: "dns_io \<Rightarrow> bytes \<Rightarrow> ('t, 'r) dns_server \<Rightarrow> (query_error, bytes) outcome \<times> event list" where
  "forward_raw_dns io query s =
     (case forward Some (udp io) query (upstream s) of
        (result, asked) \<Rightarrow> (ok_or UpstreamFailed result, map (\<lambda>ns. Udp ns query) asked))"

definition resolve_via_udp_forward :: "('q, 'name, 'x) hickory_crate \<Rightarrow> dns_io \<Rightarrow> ('q, 'name, 'x) dns_message \<Rightarrow> ('t, 'r) dns_server
    \<Rightarrow> ('q, 'name, 'x) dns_message option \<times> event list" where
  "resolve_via_udp_forward H io request s =
     (case to_vec H request of
        None \<Rightarrow> (None, [])
      | Some query \<Rightarrow>
          (case forward (from_vec H) (udp io) query (upstream s) of
             (result, asked) \<Rightarrow> (result, map (\<lambda>ns. Udp ns query) asked)))"

definition resolve_via_system :: "('q, 'name, 'x) hickory_crate \<Rightarrow> dns_io \<Rightarrow> ('q, 'name, 'x) dns_message \<Rightarrow> 'name \<Rightarrow> record_type
    \<Rightarrow> ('t, 'r) dns_server \<Rightarrow> ('q, 'name, 'x) dns_message \<times> ('t, 'r) dns_server \<times> event list" where
  "resolve_via_system H io request name qt s =
     (let domain = trim_end_dots (to_ascii H name)
      in case resolve (resolver s) (resolver_udp io) (system_lookup io) (clock io 7) (clock io 8) (name_place io 1, clock io 9)
                (next_txid io 1) domain 0 of
           (Ok addrs, r, _) \<Rightarrow>
             (let ttl = (case get_remaining_ttl r (clock io 10) domain of Some ttl \<Rightarrow> ttl | None \<Rightarrow> 14400)
              in (answer_response H request (List.map_filter (\<lambda>a. address_record name qt ttl (fst a)) addrs),
                  s\<lparr>resolver := r\<rparr>, [Resolver domain]))
         | (_, r, _) \<Rightarrow> (make_error_response H request ServFail, s\<lparr>resolver := r\<rparr>, [Resolver domain]))"

text \<open>The addresses of a response and the least time to live of their records.\<close>

fun record_address :: "('name, 'x) dns_record \<Rightarrow> ip_addr option" where
  "record_address \<lparr>rr_name = n, rr_ttl = t, rr_data = Some (AData a)\<rparr> = Some (V4 a)"
| "record_address \<lparr>rr_name = n, rr_ttl = t, rr_data = Some (AAAAData a)\<rparr> = Some (V6 a)"
| "record_address \<lparr>rr_name = n, rr_ttl = t, rr_data = _\<rparr> = None"

definition cache_response :: "dns_io \<Rightarrow> chars \<Rightarrow> ('name, 'x) dns_record list \<Rightarrow> dns_resolver \<Rightarrow> dns_resolver" where
  "cache_response io domain records r =
     (let addressed = filter (\<lambda>rec. record_address rec \<noteq> None) records;
          addrs = List.map_filter record_address records;
          min_ttl = foldl (\<lambda>m rec. min m (rr_ttl rec)) (0xFFFFFFFF :: u32) addressed
      in if addrs \<noteq> [] \<and> min_ttl \<noteq> 0xFFFFFFFF
         then store_with_ttl r (clock io 5) (name_place io 0, clock io 6) domain addrs (secs (unat (min min_ttl 14400)))
         else r)"

definition resolve_local :: "('q, 'name, 'x) hickory_crate \<Rightarrow> dns_io \<Rightarrow> ('q, 'name, 'x) dns_message \<Rightarrow> 'name \<Rightarrow> record_type
    \<Rightarrow> ('t, 'r) dns_server \<Rightarrow> ('q, 'name, 'x) dns_message \<times> ('t, 'r) dns_server \<times> event list" where
  "resolve_local H io request name qt s =
     (let domain = trim_end_dots (to_ascii H name);
          records =
            (case lookup_cached (resolver s) (clock io 3) domain of
               Some cached \<Rightarrow>
                 (case get_remaining_ttl (resolver s) (clock io 4) domain of
                    Some ttl \<Rightarrow> List.map_filter (address_record name qt ttl) cached
                  | None \<Rightarrow> [])
             | None \<Rightarrow> [])
      in if records \<noteq> [] then (answer_response H request records, s, [])
         else case resolve_via_udp_forward H io request s of
                (Some response, ev) \<Rightarrow>
                  (response, s\<lparr>resolver := cache_response io domain (answers response) (resolver s)\<rparr>, ev)
              | (None, ev) \<Rightarrow>
                  (case resolve_via_system H io request name qt s of (response, s, ev') \<Rightarrow> (response, s, ev @ ev')))"

section \<open>Queries\<close>

definition decide_query :: "('n, 't) environment \<Rightarrow> dns_io \<Rightarrow> chars \<Rightarrow> ('t, 'r) dns_server
    \<Rightarrow> routing_decision \<times> ('t, 'r) dns_server \<times> event list" where
  "decide_query E io host s =
     (case decide_with_resolver E (st_config s) (st_data s)
             \<lparr>lookup_udp = resolver_udp io, lookup_system = system_lookup io, lookup_now = clock io 0, lookup_later = clock io 1,
              lookup_final = (name_place io 2, clock io 2), lookup_txid = next_txid io 0\<rparr> host (resolver s) of
        (decision, r) \<Rightarrow>
          (decision, s\<lparr>resolver := r\<rparr>, if validates E (st_config s) (st_data s) host then [Resolver host] else []))"

definition route_query :: "('n, 't) environment \<Rightarrow> ('q, 'name, 'x) hickory_crate \<Rightarrow> dns_io \<Rightarrow> 'name \<Rightarrow> ('t, 'r) dns_server
    \<Rightarrow> routing_decision \<times> ('t, 'r) dns_server \<times> event list" where
  "route_query E H io name s = decide_query E io (to_lowercase E (trim_end_dots (to_ascii H name))) s"

definition resolve_raw :: "('n, 't) environment \<Rightarrow> ('n, chars, 'r) table_crate \<Rightarrow> ('q, 'name, 'x) hickory_crate \<Rightarrow> dns_io \<Rightarrow> bytes
    \<Rightarrow> ('t, 'r) dns_server \<Rightarrow> (query_error, bytes) outcome \<times> ('t, 'r) dns_server \<times> event list" where
  "resolve_raw E T H io query_bytes s =
     (case from_vec H query_bytes of
        None \<Rightarrow> (Err BadQuery, s, [])
      | Some request \<Rightarrow>
          (case queries request of
             [] \<Rightarrow> (Err NoQuestions, s, [])
           | q # _ \<Rightarrow>
               let name = query_name H q; qt = query_type H q; domain = trim_end_dots (to_ascii H name)
               in if filter_aaaa s \<and> qt = TypeAAAA then (serialize H (make_base_response H request), s, [])
                  else case decide_query E io domain s of
                         (Block, s, ev) \<Rightarrow> (serialize H (make_error_response H request NXDomain), s, ev)
                       | (Bypass, s, ev) \<Rightarrow> (case forward_raw_dns io query_bytes s of (result, ev') \<Rightarrow> (result, s, ev @ ev'))
                       | (Tunnel, s, ev) \<Rightarrow>
                           (case resolve_tunnel_minimal H io request name qt (choose_exit T s domain) s of
                              (result, s, ev') \<Rightarrow> (result, s, ev @ ev'))))"

definition DOH_PROVIDERS :: "chars list" where
  "DOH_PROVIDERS = map codes [''dns.google'', ''dns.google.com'', ''cloudflare-dns.com'', ''one.one.one.one'', ''1.1.1.1'',
     ''dns.quad9.net'', ''doh.opendns.com'', ''mozilla.cloudflare-dns.com'']"

definition is_doh_provider :: "chars \<Rightarrow> bool" where
  "is_doh_provider domain \<longleftrightarrow> list_ex (\<lambda>d. domain = d \<or> ends_with (46 # d) domain) DOH_PROVIDERS"

text \<open>A failure to send is an error for the early answers and only logged at the end.\<close>

definition send_early :: "('q, 'name, 'x) hickory_crate \<Rightarrow> dns_io \<Rightarrow> ('q, 'name, 'x) dns_message \<Rightarrow> (query_error, unit) outcome \<times> event list" where
  "send_early H io response =
     (case to_vec H response of
        None \<Rightarrow> (Err NotSerialized, [])
      | Some b \<Rightarrow> if send_ok io then (Ok (), [Reply b]) else (Err NotSent, []))"

definition send_last :: "('q, 'name, 'x) hickory_crate \<Rightarrow> dns_io \<Rightarrow> ('q, 'name, 'x) dns_message \<Rightarrow> (query_error, unit) outcome \<times> event list" where
  "send_last H io response =
     (case to_vec H response of
        None \<Rightarrow> (Err NotSerialized, [])
      | Some b \<Rightarrow> (Ok (), if send_ok io then [Reply b] else []))"

definition answer_query :: "('n, 't) environment \<Rightarrow> ('n, chars, 'r) table_crate \<Rightarrow> ('q, 'name, 'x) hickory_crate \<Rightarrow> dns_io
    \<Rightarrow> ('q, 'name, 'x) dns_message \<Rightarrow> 'name \<Rightarrow> record_type \<Rightarrow> ('t, 'r) dns_server
    \<Rightarrow> ('q, 'name, 'x) dns_message \<times> ('t, 'r) dns_server \<times> event list" where
  "answer_query E T H io request name qt s =
     (let domain_lower = to_lowercase E (trim_end_dots (to_ascii H name))
      in case route_query E H io name s of
           (Bypass, s, ev) \<Rightarrow> (case resolve_local H io request name qt s of (response, s, ev') \<Rightarrow> (response, s, ev @ ev'))
         | (Tunnel, s, ev) \<Rightarrow>
             (case resolve_remote H io request name qt (choose_exit T s domain_lower) s of
                (response, s, ev') \<Rightarrow> (response, s, ev @ ev'))
         | (Block, s, ev) \<Rightarrow> (make_error_response H request NXDomain, s, ev))"

definition handle_query :: "('n, 't) environment \<Rightarrow> ('n, chars, 'r) table_crate \<Rightarrow> ('q, 'name, 'x) hickory_crate \<Rightarrow> dns_io
    \<Rightarrow> ('q, 'name, 'x) dns_message \<Rightarrow> ('t, 'r) dns_server \<Rightarrow> (query_error, unit) outcome \<times> ('t, 'r) dns_server \<times> event list" where
  "handle_query E T H io request s =
     (if \<not> is_query request \<or> \<not> op_query request then (Ok (), s, [])
      else case queries request of
             [] \<Rightarrow> (Ok (), s, [])
           | q # _ \<Rightarrow>
               let name = query_name H q; qt = query_type H q;
                   domain_lower = to_lowercase E (trim_end_dots (to_ascii H name));
                   early = (\<lambda>response s ev. case send_early H io response of (result, ev') \<Rightarrow> (result, s, ev @ ev'))
               in if is_root H name then early (make_base_response H request) s []
                  else if filter_aaaa s \<and> qt = TypeAAAA then early (make_base_response H request) s []
                  else if is_doh_provider domain_lower then early (make_error_response H request NXDomain) s []
                  else if list_ex (\<lambda>h. h = domain_lower) (server_hostnames s)
                  then (case resolve_local H io request name qt s of (response, s, ev) \<Rightarrow> early response s ev)
                  else (case answer_query E T H io request name qt s of
                          (response, s, ev) \<Rightarrow> (case send_last H io response of (result, ev') \<Rightarrow> (result, s, ev @ ev'))))"

text \<open>One datagram of the loop in \<open>run\<close>; the buffer has 4096 bytes and errors are only logged. The program spawns a
  task per datagram; the model handles one after the other.\<close>

definition serve_datagram :: "('n, 't) environment \<Rightarrow> ('n, chars, 'r) table_crate \<Rightarrow> ('q, 'name, 'x) hickory_crate \<Rightarrow> dns_io \<Rightarrow> bytes
    \<Rightarrow> ('t, 'r) dns_server \<Rightarrow> ('t, 'r) dns_server \<times> event list" where
  "serve_datagram E T H io data s =
     (case from_vec H (take 4096 data) of
        None \<Rightarrow> (s, [])
      | Some request \<Rightarrow> snd (handle_query E T H io request s))"

section \<open>Which calls a query makes\<close>






lemma decide_query_events:
  assumes "decide_query E io host s = (d, s', ev)"
  shows "ev = (if validates E (st_config s) (st_data s) host then [Resolver host] else [])" "\<exists>r. s' = s\<lparr>resolver := r\<rparr>"
  using assms by (auto simp: decide_query_def split: prod.splits)

lemma choose_exit_resolver [simp]: "choose_exit T (s\<lparr>resolver := r\<rparr>) d = choose_exit T s d"
  by (simp add: choose_exit_def)





text \<open>
  The entry point for raw packets has no path of its own for the names of the VPN servers: it asks the exit for them as
  for any other name that the split tunnel sends into the tunnel.
\<close>

lemma resolve_raw_tunnels_server_name:
  assumes "from_vec H b = Some request" "queries request = q # qs" "query_type H q = TypeA"
    and "domain = trim_end_dots (to_ascii H (query_name H q))" "domain \<in> set (server_hostnames s)"
    and "decide_query E io domain s = (Tunnel, s1, ev1)" "doh_client_for s1 (choose_exit T s1 domain) = Some c"
    and "doh_lookup_cached c (clock io 3) domain 1 = None"
  shows "Doh (choose_exit T s1 domain) domain 1 \<in> set (snd (snd (resolve_raw E T H io b s)))"
  using assms by (auto simp: resolve_raw_def resolve_tunnel_minimal_def resolve_doh_def Let_def split: prod.split outcome.split)

section \<open>What a routed answer leaves behind\<close>

lemma make_base_response_simps [simp]:
  assumes "hickory_ok H"
  shows "answers (make_base_response H request) = []" "response_code (make_base_response H request) = NoError"
    "queries (make_base_response H request) = queries request"
  using assms by (simp_all add: make_base_response_def hickory_ok_def)

lemma resolve_doh_answers:
  assumes "hickory_ok H" "resolve_doh pick H io request name qt (Some exit) s = (response, s', ev)" "answers response \<noteq> []"
  shows "\<exists>addrs ttl. answers response = pick (List.map_filter (address_record name qt ttl) addrs)
    \<and> learned_routes s' = note_routed_answer (\<lambda>i. ((route_place io i, clock io (20 + 2 * i)), clock io (21 + 2 * i)))
        exit addrs ttl (learned_routes s)
    \<and> exit_router s' = exit_router s"
  using assms
  by (auto simp: resolve_doh_def answer_response_def make_error_response_def Let_def
      split: option.splits prod.splits outcome.splits intro!: exI conjI [OF refl])

lemma address_records_A:
  "length (List.map_filter (address_record name TypeA ttl) addrs) = v4_count addrs"
  "rec \<in> set (List.map_filter (address_record name TypeA ttl) addrs) \<Longrightarrow>
     rr_ttl rec = ttl \<and> (\<exists>a. rr_data rec = Some (AData a) \<and> V4 a \<in> set addrs)"
proof -
  show "length (List.map_filter (address_record name TypeA ttl) addrs) = v4_count addrs"
  proof (induction addrs)
    case (Cons a addrs)
    then show ?case by (cases a) (simp_all add: List.map_filter_simps)
  qed (simp add: List.map_filter_simps)
  assume "rec \<in> set (List.map_filter (address_record name TypeA ttl) addrs)"
  then obtain a where a: "a \<in> set addrs" "address_record name TypeA ttl a = Some rec"
    by (auto simp: List.map_filter_def)
  then show "rr_ttl rec = ttl \<and> (\<exists>a. rr_data rec = Some (AData a) \<and> V4 a \<in> set addrs)"
    by (cases a rule: ip_addr.exhaust) auto
qed

section \<open>A server with two exits\<close>

definition demo_hickory :: "(chars \<times> record_type, chars, unit) hickory_crate" where
  "demo_hickory = \<lparr>from_vec = (\<lambda>_. None), to_vec = (\<lambda>_. Some []),
     message_new = \<lparr>msg_id = 0, is_query = True, op_query = True, authoritative = False, recursion_desired = False,
       recursion_available = False, response_code = NoError, queries = [], answers = [], other_sections = ()\<rparr>,
     query_name = fst, query_type = snd, to_ascii = id, is_root = (\<lambda>n. n = codes ''.'')\<rparr>"

definition demo_request :: "(chars \<times> record_type, chars, unit) dns_message" where
  "demo_request = (message_new demo_hickory)\<lparr>msg_id := 7, queries := [(codes ''mail.Google.com.'', TypeA)]\<rparr>"

definition demo_server :: "((cidr \<times> bool) list, (cidr \<times> chars) list) dns_server" where
  "demo_server = set_multi_exit demo_router [(codes ''sg'', doh_new)] []
     (dns_server_new config_default (data_default demo_env 0) (resolver_new True 300 10 False True []) (Some doh_new))"

text \<open>The exit answers with one address for five minutes; nothing else answers. A second passes between two points.\<close>

definition demo_io :: dns_io where
  "demo_io = \<lparr>udp = (\<lambda>_ _ _. TimedOut), resolver_udp = (\<lambda>_ _ _. TimedOut), system_lookup = (\<lambda>_ _. None),
     exit_reply = (\<lambda>_ q. Some \<lparr>dr_query_id = dq_query_id q, dr_success = True, dr_ipv4_addrs = [0x5DB8D822], dr_ipv6_addrs = [],
       dr_ttl = 300, dr_error = None\<rparr>),
     clock = (\<lambda>i. i * 1000000000), name_place = (\<lambda>_ _. 0), route_place = (\<lambda>_ _. 0), next_txid = of_nat, send_ok = True\<rparr>"

definition demo_packet :: bytes where
  "demo_packet = [0x45, 0, 0, 0, 0, 0, 0, 0, 0, 0, 0, 0, 0, 0, 0, 0, 93, 184, 216, 34]"

abbreviation demo_reply :: "(chars \<times> record_type, chars, unit) dns_message \<times> ((cidr \<times> bool) list, (cidr \<times> chars) list) dns_server \<times> event list" where
  "demo_reply \<equiv> answer_query demo_env demo_table demo_hickory demo_io demo_request (codes ''mail.Google.com.'') TypeA demo_server"

lemma demo_domain:
  "trim_end_dots (codes ''mail.Google.com.'') = codes ''mail.Google.com''"
  "to_lowercase demo_env (codes ''mail.Google.com'') = codes ''mail.google.com''"
  by (simp_all add: demo_env_def string_evals)

lemma demo_exit: "choose_exit demo_table demo_server (codes ''mail.google.com'') = Some (codes ''sg'')"
proof -
  have h: "to_ascii_lowercase (trim_end_dots (codes ''mail.google.com'')) = codes ''mail.google.com''"
    by (simp add: string_evals)
  have "router_choose demo_table demo_router (codes ''mail.google.com'') = codes ''sg''"
    by (simp add: router_choose_def h demo_router_def demo_matches)
  then show ?thesis
    by (simp add: choose_exit_def demo_server_def set_multi_exit_def DEFAULT_SERVER_NAME_def codes_def)
qed

lemma demo_decision: "decide_query demo_env io host demo_server = (Tunnel, demo_server, [])"
  by (simp add: decide_query_def demo_server_def set_multi_exit_def dns_server_new_def config_default_def decide_by_host_def
      decide_with_resolver_def validates_def split: prod.split)

lemma demo_answers:
  "answers (fst demo_reply) = [\<lparr>rr_name = codes ''mail.Google.com.'', rr_ttl = 299, rr_data = Some (AData 0x5DB8D822)\<rparr>]"
  "Doh (Some (codes ''sg'')) (codes ''mail.Google.com'') 1 \<in> set (snd (snd demo_reply))"
proof -
  note defs = answer_query_def route_query_def demo_decision demo_domain demo_exit resolve_remote_def resolve_doh_def
    answer_response_def make_base_response_def doh_lookup_cached_def get_cached_ttl_def doh_resolve_def doh_new_def
    insert_cache_entry_def doh_room_def evict_by_def MIN_CACHE_TTL_def MAX_CACHE_TTL_def List.map_filter_simps Let_def
  have c: "hm_get (extra_doh_clients demo_server) (codes ''sg'') = Some doh_new"
    by (simp add: demo_server_def set_multi_exit_def)
  have id: "to_ascii demo_hickory = id" "answers (message_new demo_hickory) = []" by (simp_all add: demo_hickory_def)
  show "answers (fst demo_reply) = [\<lparr>rr_name = codes ''mail.Google.com.'', rr_ttl = 299, rr_data = Some (AData 0x5DB8D822)\<rparr>]"
    "Doh (Some (codes ''sg'')) (codes ''mail.Google.com'') 1 \<in> set (snd (snd demo_reply))"
    by (simp_all add: defs c id demo_io_def)
qed

section \<open>Properties\<close>



text \<open>C40: an answer steers the connections that use it. When a name is routed to an exit and the answer to an A query
  for it carries an address, then in the state the answer leaves behind, and for as long as the record may be used by its
  time to live, every packet to that address leaves through that same exit, provided the map of learned routes had room
  for the addresses.\<close>

theorem routed_answer_steers_packets:
  assumes "hickory_ok H" "mono (clock io)"
    and "answer_query E T H io request name TypeA s = (response, s', ev)"
    and "fst (route_query E H io name s) = Tunnel"
    and "choose_exit T s (to_lowercase E (trim_end_dots (to_ascii H name))) = Some exit"
    and "learned_routes s = Some m" "length m + length (answers response) \<le> MAX_ENTRIES"
    and "rec \<in> set (answers response)" "rr_data rec = Some (AData a)"
    and "20 \<le> length packet" "drop_bit 4 (packet ! 0) = 4" "packet_dst packet = V4 a"
    and "now < clock io 20 + unat (rr_ttl rec) * 1000000000"
  shows "fst (choose_exit_name T (exit_router s') (learned_routes s') now packet) = Some exit"
proof -
  let ?clock = "\<lambda>i. ((route_place io i, clock io (20 + 2 * i)), clock io (21 + 2 * i))"
  let ?domain = "to_lowercase E (trim_end_dots (to_ascii H name))"
  obtain s1 ev1 where q: "decide_query E io ?domain s = (Tunnel, s1, ev1)"
    using assms(4) by (cases "decide_query E io ?domain s") (auto simp: route_query_def)
  obtain r where s1: "s1 = s\<lparr>resolver := r\<rparr>" using decide_query_events(2) [OF q] by blast
  obtain ev2 where "resolve_doh id H io request name TypeA (Some exit) s1 = (response, s', ev2)"
    using assms(3,5) by (auto simp: answer_query_def route_query_def q s1 resolve_remote_def Let_def split: prod.splits)
  then obtain addrs ttl where ans: "answers response = List.map_filter (address_record name TypeA ttl) addrs"
    and routes: "note_routed_answer ?clock exit addrs ttl (Some m) = learned_routes s'"
    and router: "exit_router s' = exit_router s"
    using resolve_doh_answers [OF assms(1), of id io request name TypeA exit s1 response s' ev2] assms(6)
      length_pos_if_in_set [OF assms(8)] by (auto simp: s1)
  obtain rt where rt: "exit_router s = Some rt" using assms(5) by (auto simp: choose_exit_def split: option.splits)
  obtain m' where m': "learned_routes s' = Some m'" using routes by (cases "learned_routes s'") (simp_all add: note_routed_answer_def)
  note rec = address_records_A(2) [OF assms(8) [unfolded ans]]
  have "unat (rr_ttl rec) \<le> unat (max ttl 30)" using rec by (simp add: word_le_nat_alt [symmetric])
  then have "now < clock io 20 + unat (max ttl 30) * 1000000000" using assms(13) by linarith
  moreover have "clock io 20 \<le> snd (?clock i)" for i using assms(2) by (simp add: monoD)
  moreover have "length m + v4_count addrs \<le> MAX_ENTRIES" using assms(7) by (simp add: ans address_records_A(1))
  moreover have "packet_dst packet \<in> set addrs" using rec assms(9,12) by simp
  ultimately show ?thesis
    using routed_answer_steers [of m addrs "clock io 20" ?clock packet now ttl exit m' T rt] assms(10,11) routes
    by (simp add: router rt m')
qed

theorem routed_answer_steers_packets_witness:
  "fst (choose_exit_name demo_table (exit_router (fst (snd demo_reply))) (learned_routes (fst (snd demo_reply)))
     (300 * 1000000000) demo_packet) = Some (codes ''sg'')"
proof -
  let ?rec = "\<lparr>rr_name = codes ''mail.Google.com.'', rr_ttl = 299, rr_data = Some (AData 0x5DB8D822)\<rparr> :: (chars, unit) dns_record"
  have h: "hickory_ok demo_hickory" "to_ascii demo_hickory = id" by (simp_all add: hickory_ok_def demo_hickory_def)
  have io: "mono (clock demo_io)" by (simp add: demo_io_def mono_def)
  have routes: "learned_routes demo_server = Some []" by (simp add: demo_server_def set_multi_exit_def)
  have dst: "packet_dst demo_packet = V4 0x5DB8D822" "20 \<le> length demo_packet" "drop_bit 4 (demo_packet ! 0) = 4"
    by (simp_all add: packet_dst_def demo_packet_def ipv4_new_def from_be_bytes_def from_le_bytes_def)
  obtain response s' ev where r: "demo_reply = (response, s', ev)" by (metis prod_cases3)
  have ans: "answers response = [?rec]" using demo_answers(1) by (simp add: r)
  have "fst (choose_exit_name demo_table (exit_router s') (learned_routes s') (300 * 1000000000)
     demo_packet) = Some (codes ''sg'')"
    by (rule routed_answer_steers_packets [OF h(1) io r, of "codes ''sg''" "[]" ?rec "0x5DB8D822"])
      (simp_all add: ans demo_decision demo_domain demo_exit route_query_def h routes dst MAX_ENTRIES_def demo_io_def)
  then show ?thesis by (simp add: r)
qed

end
