(* ===== verification/Dns_Proxy.thy ===== *)
theory Dns_Proxy
  imports Host_Decision
begin

text \<open>
  The DNS proxy of the desktop client, \<open>rvpn-client/src/dns_proxy.rs\<close>: what it does with a datagram, and the session
  that carries queries to the server and hands the responses back. The messages are those of \<open>Dns_Wire\<close>. The network,
  the clock, the reply of the server to a query and the transaction ids of lookups are arguments; the encryption of the
  session is modelled with the ratchet. The program runs a task per datagram; the model handles one after the other.
\<close>

section \<open>State\<close>

record 't dns_proxy =
  px_config :: split_tunnel_config
  px_data :: "'t split_tunnel_data"
  px_resolver :: dns_resolver
  px_nameservers :: "socket_addr list"
  px_server_hosts :: "chars list"
  px_dns_path :: chars
  px_next_id :: u64

definition trim_end_slashes :: "chars \<Rightarrow> chars" where
  "trim_end_slashes s = rev (dropWhile (\<lambda>c. c = 47) (rev s))"

definition strip_suffix :: "chars \<Rightarrow> chars \<Rightarrow> chars option" where
  "strip_suffix p s = (if ends_with p s then Some (take (length s - length p) s) else None)"

definition server_dns_path :: "chars \<Rightarrow> chars" where
  "server_dns_path server_path =
     (let base = trim_end_slashes server_path;
          base = (case strip_suffix (codes ''/mux'') base of
                    Some p \<Rightarrow> p
                  | None \<Rightarrow> (case strip_suffix (codes ''/tun'') base of Some p \<Rightarrow> p | None \<Rightarrow> base))
      in base @ codes ''/dns'')"

definition proxy_new :: "split_tunnel_config \<Rightarrow> 't split_tunnel_data \<Rightarrow> dns_resolver \<Rightarrow> chars \<Rightarrow> chars \<Rightarrow> socket_addr list \<Rightarrow> chars list
    \<Rightarrow> 't dns_proxy" where
  "proxy_new config data r server_host server_path servers extra_server_hosts =
     \<lparr>px_config = config, px_data = data, px_resolver = r, px_nameservers = with_last_resort_nameservers servers,
      px_server_hosts = map (\<lambda>h. to_ascii_lowercase (trim_end_dots h)) (server_host # extra_server_hosts),
      px_dns_path = server_dns_path server_path, px_next_id = 1\<rparr>"

section \<open>Around the tunnel\<close>

definition set_txid :: "u16 \<Rightarrow> bytes \<Rightarrow> bytes" where
  "set_txid txid response = (if 2 \<le> length response then to_be_bytes 2 txid @ drop 2 response else response)"

definition proxy_udp_forward :: "(socket_addr \<Rightarrow> nat \<Rightarrow> bytes \<Rightarrow> udp_result) \<Rightarrow> bytes \<Rightarrow> u16 \<Rightarrow> socket_addr list
    \<Rightarrow> bytes option \<times> socket_addr list" where
  "proxy_udp_forward net query txid servers =
     (case forward Some net query servers of (response, asked) \<Rightarrow> (map_option (set_txid txid) response, asked))"

definition resolve_locally :: "(socket_addr \<Rightarrow> nat \<Rightarrow> bytes \<Rightarrow> udp_result) \<Rightarrow> bytes \<Rightarrow> u16 \<Rightarrow> socket_addr list
    \<Rightarrow> bytes option \<times> socket_addr list" where
  "resolve_locally net query txid servers =
     (if servers = [] then (None, []) else proxy_udp_forward net query txid servers)"

section \<open>A datagram\<close>

text \<open>
  What happens during a query. The response of the tunnel is absent when the proxy is shutting down, and \<open>Some None\<close> when
  none arrives in time.
\<close>

record proxy_io =
  proxy_udp :: "socket_addr \<Rightarrow> nat \<Rightarrow> bytes \<Rightarrow> udp_result"
  proxy_lookup :: lookup_io
  store_now :: nat
  store_final :: "place \<times> nat"
  cache_now :: nat
  ttl_now :: nat
  tunnel_reply :: "dns_query \<Rightarrow> dns_response option option"

datatype proxy_event =
    AskNameserver socket_addr
  | AskResolver chars
  | AskTunnel dns_query

definition is_server_host :: "'t dns_proxy \<Rightarrow> chars \<Rightarrow> bool" where
  "is_server_host P domain \<longleftrightarrow> list_ex (\<lambda>h. h = to_ascii_lowercase (trim_end_dots domain)) (px_server_hosts P)"

definition proxy_decision :: "('n, 't) environment \<Rightarrow> proxy_io \<Rightarrow> 't dns_proxy \<Rightarrow> chars \<Rightarrow> routing_decision \<times> 't dns_proxy \<times> proxy_event list" where
  "proxy_decision E io P domain =
     (if is_server_host P domain then (Bypass, P, [])
      else case decide_with_resolver E (px_config P) (px_data P) (proxy_lookup io) domain (px_resolver P) of
             (decision, r) \<Rightarrow>
               (decision, P\<lparr>px_resolver := r\<rparr>, if validates E (px_config P) (px_data P) domain then [AskResolver domain] else []))"

definition bypass_query :: "proxy_io \<Rightarrow> 't dns_proxy \<Rightarrow> bytes \<Rightarrow> u16 \<Rightarrow> chars \<Rightarrow> (dns_error, bytes option) outcome \<times> 't dns_proxy \<times> proxy_event list" where
  "bypass_query io P data txid domain =
     (case resolve_locally (proxy_udp io) data txid (px_nameservers P) of
        (Some wire, asked) \<Rightarrow>
          (case parse_dns_a_response wire txid of
             Ok (found, ttl) \<Rightarrow>
               (Ok (Some wire),
                P\<lparr>px_resolver := store_with_ttl (px_resolver P) (store_now io) (store_final io) domain found (secs (unat ttl))\<rparr>,
                map AskNameserver asked)
           | Err _ \<Rightarrow> (Ok (Some wire), P, map AskNameserver asked)
           | Panic \<Rightarrow> (Panic, P, map AskNameserver asked))
      | (None, asked) \<Rightarrow> (Ok (Some (build_dns_servfail txid)), P, map AskNameserver asked))"

text \<open>An answer for the client from addresses that are known.\<close>

definition known_answer :: "bytes \<Rightarrow> u16 \<Rightarrow> ip_addr list \<Rightarrow> u32 \<Rightarrow> (dns_error, bytes option) outcome" where
  "known_answer data txid addrs ttl =
     and_then (build_dns_response data txid
         \<lparr>dr_query_id = 0, dr_success = True,
          dr_ipv4_addrs = List.map_filter (\<lambda>a. case a of V4 v \<Rightarrow> Some v | V6 _ \<Rightarrow> None) addrs,
          dr_ipv6_addrs = [], dr_ttl = ttl, dr_error = None\<rparr>)
       (\<lambda>wire. Ok (Some wire))"

definition tunnel_query :: "proxy_io \<Rightarrow> 't dns_proxy \<Rightarrow> u64 \<Rightarrow> bytes \<Rightarrow> u16 \<Rightarrow> bytes \<Rightarrow> u16
    \<Rightarrow> (dns_error, bytes option) outcome \<times> 't dns_proxy \<times> proxy_event list" where
  "tunnel_query io P qid data txid domain qtype =
     (if qtype \<noteq> 1 \<and> qtype \<noteq> 28 then
        (case resolve_locally (proxy_udp io) data txid (px_nameservers P) of
           (Some wire, asked) \<Rightarrow> (Ok (Some wire), P, map AskNameserver asked)
         | (None, asked) \<Rightarrow> (Ok (Some (build_dns_servfail txid)), P, map AskNameserver asked))
      else if qtype = 28 then (known_answer data txid [] 300, P, [])
      else case lookup_cached (px_resolver P) (cache_now io) (utf8_chars domain) of
             Some found \<Rightarrow>
               (known_answer data txid found
                  (case get_remaining_ttl (px_resolver P) (ttl_now io) (utf8_chars domain) of Some t \<Rightarrow> t | None \<Rightarrow> 14400), P, [])
           | None \<Rightarrow>
               let query = \<lparr>dq_query_id = qid, dq_domain = domain, dq_query_type = qtype\<rparr>
               in (case tunnel_reply io query of
                     None \<Rightarrow> Ok None
                   | Some (Some r) \<Rightarrow>
                       if dr_success r then and_then (build_dns_response data txid r) (\<lambda>wire. Ok (Some wire))
                       else Ok (Some (build_dns_servfail txid))
                   | Some None \<Rightarrow> Ok (Some (build_dns_servfail txid)), P, [AskTunnel query]))"

text \<open>The receive buffer has 512 bytes; every datagram takes a query id.\<close>

definition handle_datagram :: "('n, 't) environment \<Rightarrow> proxy_io \<Rightarrow> bytes \<Rightarrow> 't dns_proxy
    \<Rightarrow> (dns_error, bytes option) outcome \<times> 't dns_proxy \<times> proxy_event list" where
  "handle_datagram E io datagram P =
     (let data = take 512 datagram; qid = px_next_id P; P = P\<lparr>px_next_id := px_next_id P + 1\<rparr>
      in case parse_dns_query data of
           Ok (txid, domain, qtype) \<Rightarrow>
             (case proxy_decision E io P (utf8_chars domain) of
                (Bypass, P, ev) \<Rightarrow> (case bypass_query io P data txid (utf8_chars domain) of (reply, P, ev') \<Rightarrow> (reply, P, ev @ ev'))
              | (Block, P, ev) \<Rightarrow> (Ok (Some (build_dns_nxdomain txid)), P, ev)
              | (Tunnel, P, ev) \<Rightarrow> (case tunnel_query io P qid data txid domain qtype of (reply, P, ev') \<Rightarrow> (reply, P, ev @ ev')))
         | Err e \<Rightarrow> (Ok None, P, [])
         | Panic \<Rightarrow> (Panic, P, []))"

section \<open>The session\<close>

text \<open>
  One WebSocket session as a machine over its inputs: queries from the datagram handlers (with whether sending
  succeeded), responses that were decrypted and parsed, messages that are skipped, the end of the connection, two minutes
  of silence, the periodic check, and the shutdown of the proxy. A reply goes to the handler that waits for it.
\<close>

record pending_query =
  pq_domain :: chars
  pq_sent_at :: nat

record ws_session =
  ws_pending :: "(u64, pending_query) hmap"
  ws_resolver :: dns_resolver

datatype ws_input =
    Query dns_query bool nat
  | Response dns_response nat "place \<times> nat"
  | Skipped
  | Closed "u64 \<Rightarrow> nat"
  | Silent "u64 \<Rightarrow> nat"
  | Tick nat "u64 \<Rightarrow> nat"
  | Shutdown

type_synonym ws_reply = "u64 \<times> dns_response option"

definition fail_pending :: "(u64 \<Rightarrow> nat) \<Rightarrow> ws_session \<Rightarrow> ws_session \<times> ws_reply list" where
  "fail_pending place s = (s\<lparr>ws_pending := []\<rparr>, map (\<lambda>e. (fst e, None)) (iterate place (ws_pending s)))"

fun ws_step :: "ws_input \<Rightarrow> ws_session \<Rightarrow> (ws_session \<times> ws_reply list) \<times> bool" where
  "ws_step (Query query sent now) s =
     (if sent
      then ((s\<lparr>ws_pending := hm_insert (dq_query_id query) \<lparr>pq_domain = utf8_chars (dq_domain query), pq_sent_at = now\<rparr> (ws_pending s)\<rparr>, []), True)
      else ((s, []), False))"
| "ws_step (Response response now final) s =
     (case hm_get (ws_pending s) (dr_query_id response) of
        Some pq \<Rightarrow>
          ((s\<lparr>ws_pending := hm_remove (dr_query_id response) (ws_pending s),
              ws_resolver := (if dr_success response
                              then store_with_ttl (ws_resolver s) now final (pq_domain pq) (map V4 (dr_ipv4_addrs response))
                                     (secs (unat (dr_ttl response)))
                              else ws_resolver s)\<rparr>,
            [(dr_query_id response, Some response)]), True)
      | None \<Rightarrow> ((s, []), True))"
| "ws_step Skipped s = ((s, []), True)"
| "ws_step (Closed place) s = (fail_pending place s, False)"
| "ws_step (Silent place) s = (fail_pending place s, False)"
| "ws_step (Tick now place) s =
     (if ws_pending s = [] then ((s, []), True)
      else let oldest = Min (set (map (pq_sent_at \<circ> snd) (ws_pending s)))
           in if secs 10 \<le> now - oldest then (fail_pending place s, False) else ((s, []), True))"
| "ws_step Shutdown s = ((s, []), False)"

inductive ws_reach :: "dns_resolver \<Rightarrow> ws_input list \<Rightarrow> ws_session \<Rightarrow> ws_reply list \<Rightarrow> bool \<Rightarrow> bool" for r where
  start: "ws_reach r [] \<lparr>ws_pending = [], ws_resolver = r\<rparr> [] True"
| step: "ws_reach r trace s replies True \<Longrightarrow> ws_step i s = ((s', new), go) \<Longrightarrow> ws_reach r (trace @ [i]) s' (replies @ new) go"

fun sent_id :: "ws_input \<Rightarrow> u64 list" where
  "sent_id (Query query sent now) = (if sent then [dq_query_id query] else [])"
| "sent_id _ = []"

abbreviation sent_ids :: "ws_input list \<Rightarrow> u64 list" where
  "sent_ids trace \<equiv> concat (map sent_id trace)"

section \<open>Every query is answered once\<close>

definition keys :: "('k, 'v) hmap \<Rightarrow> 'k set" where
  "keys m = fst ` set m"

lemma keys_simps [simp]:
  "keys [] = {}" "keys (hm_insert k v m) = insert k (keys m)" "keys (hm_remove k m) = keys m - {k}"
  by (auto simp: keys_def dom_update hm_remove_filter image_iff)

lemma keys_append [simp]: "keys (a @ b) = keys a \<union> keys b" "keys [e] = {fst e}"
  by (auto simp: keys_def)

lemma distinct_keys_append: "distinct (map fst (a @ b)) \<longleftrightarrow> distinct (map fst a) \<and> distinct (map fst b) \<and> keys a \<inter> keys b = {}"
  by (auto simp: keys_def)

definition ws_inv :: "ws_input list \<Rightarrow> ws_session \<Rightarrow> ws_reply list \<Rightarrow> bool" where
  "ws_inv trace s replies \<longleftrightarrow> hm_wf (ws_pending s) \<and> distinct (map fst replies)
     \<and> keys replies \<inter> keys (ws_pending s) = {} \<and> keys replies \<union> keys (ws_pending s) = set (sent_ids trace)
     \<and> (\<forall>q response. (q, Some response) \<in> set replies \<longrightarrow> dr_query_id response = q)"

lemma fail_pending_inv:
  assumes "ws_inv trace s replies" "fail_pending place s = (s', new)"
  shows "ws_inv trace s' (replies @ new)"
proof -
  have new: "new = map (\<lambda>e. (fst e, None)) (iterate place (ws_pending s))" "ws_pending s' = []"
    using assms(2) by (simp_all add: fail_pending_def split: prod.splits) auto
  have ids: "map fst new = map fst (iterate place (ws_pending s))" by (simp add: new comp_def)
  have "distinct (map fst new)"
    unfolding ids using assms(1) hm_wf_iterate [of "ws_pending s" place] by (simp add: ws_inv_def hm_wf_def)
  moreover have "keys new = keys (ws_pending s)"
    unfolding new keys_def by (simp add: image_comp comp_def)
  moreover have "(q, Some response) \<notin> set new" for q response by (auto simp: new)
  ultimately show ?thesis
    using assms(1) by (simp add: ws_inv_def distinct_keys_append new(2) del: map_append)
qed

lemma ws_step_inv:
  assumes "ws_inv trace s replies" "ws_step i s = ((s', new), go)" "distinct (sent_ids (trace @ [i]))"
  shows "ws_inv (trace @ [i]) s' (replies @ new)"
proof -
  have keep: "ws_inv (trace @ [i]) s replies" if "sent_id i = []"
    using assms(1) that by (simp add: ws_inv_def)
  show ?thesis
  proof (cases i)
    case (Query query sent now)
    show ?thesis
    proof (cases sent)
      case True
      then have "dq_query_id query \<notin> set (sent_ids trace)" using assms(3) Query by simp
      then have "dq_query_id query \<notin> keys replies" using assms(1) by (auto simp: ws_inv_def)
      then show ?thesis using assms(1,2) Query True by (auto simp: ws_inv_def)
    qed (use assms(2) keep Query in simp)
  next
    case (Response response now final)
    show ?thesis
    proof (cases "hm_get (ws_pending s) (dr_query_id response)")
      case None
      then show ?thesis using assms(2) keep Response by simp
    next
      case (Some pq)
      then have "dr_query_id response \<in> keys (ws_pending s)" by (force simp: keys_def dest: map_of_SomeD)
      moreover have "new = [(dr_query_id response, Some response)]"
        "ws_pending s' = hm_remove (dr_query_id response) (ws_pending s)" using assms(2) Response Some by auto
      ultimately show ?thesis
        using assms(1) Response by (simp add: ws_inv_def distinct_keys_append del: map_append) blast
    qed
  next
    case (Tick now place)
    then show ?thesis
      using assms(2) keep fail_pending_inv [of "trace @ [i]" s replies place s' new]
      by (auto simp: Let_def split: if_splits)
  qed (use assms(2) keep fail_pending_inv [of "trace @ [i]" s replies _ s' new] in auto)
qed

lemma ws_reach_inv: "ws_reach r trace s replies go \<Longrightarrow> distinct (sent_ids trace) \<Longrightarrow> ws_inv trace s replies"
proof (induction rule: ws_reach.induct)
  case start
  then show ?case by (simp add: ws_inv_def)
next
  case (step trace s replies i s' new go)
  then show ?case by (intro ws_step_inv) auto
qed

text \<open>A session that ends because the connection closed, fell silent or left a query unanswered leaves nothing pending.\<close>

lemma ws_step_ends:
  assumes "ws_step i s = ((s', new), False)"
  shows "i = Shutdown \<or> (\<exists>query now. i = Query query False now) \<or> ws_pending s' = []"
  using assms by (cases i) (auto simp: fail_pending_def Let_def split: if_splits option.splits)

section \<open>Which calls a datagram makes\<close>

lemma build_dns_response_parsed:
  assumes "parse_dns_query q = Ok (txid, domain, qtype)"
  shows "\<exists>rest. build_dns_response q txid r = Ok (to_be_bytes 2 txid @ rest)"
proof -
  from parse_dns_query_Ok [OF assms(1)] obtain labels e where
    q: "parse_qname q 12 [] = Ok (labels, e)" "e + 4 \<le> length q" by metis
  show ?thesis using parse_qname_end [OF q(1)] q(2) by (simp add: build_dns_response_def)
qed

definition has_txid :: "u16 \<Rightarrow> (dns_error, bytes option) outcome \<Rightarrow> bool" where
  "has_txid txid reply \<longleftrightarrow> (case reply of Ok (Some wire) \<Rightarrow> 2 \<le> length wire \<longrightarrow> take 2 wire = to_be_bytes 2 txid | Ok None \<Rightarrow> True | _ \<Rightarrow> False)"

lemma set_txid_take: "2 \<le> length (set_txid txid w) \<Longrightarrow> take 2 (set_txid txid w) = to_be_bytes 2 txid"
  by (simp add: set_txid_def split: if_splits)

lemma has_txid_simps [simp]:
  "has_txid txid (Ok None)" "has_txid txid (Ok (Some (build_dns_servfail txid)))" "has_txid txid (Ok (Some (build_dns_nxdomain txid)))"
  by (simp_all add: has_txid_def build_dns_servfail_def build_dns_nxdomain_def)

lemma resolve_locally_txid: "resolve_locally net q txid servers = (Some wire, asked) \<Longrightarrow> has_txid txid (Ok (Some wire))"
  by (auto simp: resolve_locally_def proxy_udp_forward_def has_txid_def set_txid_take split: prod.splits if_splits)

lemma known_answer_txid: "parse_dns_query data = Ok (txid, domain, qtype) \<Longrightarrow> has_txid txid (known_answer data txid addrs ttl)"
  by (drule build_dns_response_parsed [where r = "\<lparr>dr_query_id = 0, dr_success = True,
        dr_ipv4_addrs = List.map_filter (\<lambda>a. case a of V4 v \<Rightarrow> Some v | V6 _ \<Rightarrow> None) addrs,
        dr_ipv6_addrs = [], dr_ttl = ttl, dr_error = None\<rparr>"]) (auto simp: known_answer_def has_txid_def)

lemma bypass_query_txid: "has_txid txid (fst (bypass_query io P data txid domain))"
  by (auto simp: bypass_query_def dns_parsers_no_panic split: prod.split option.split outcome.split dest: resolve_locally_txid)

lemma tunnel_query_txid:
  assumes "parse_dns_query data = Ok (txid, domain, qtype)"
  shows "has_txid txid (fst (tunnel_query io P qid data txid domain qtype))"
proof -
  have "has_txid txid (and_then (build_dns_response data txid r) (\<lambda>wire. Ok (Some wire)))" for r
    using build_dns_response_parsed [OF assms, of r] by (auto simp: has_txid_def)
  then show ?thesis
    using known_answer_txid [OF assms]
    by (auto simp: tunnel_query_def Let_def split: prod.split option.split dest: resolve_locally_txid)
qed

lemma bypass_query_events: "e \<in> set (snd (snd (bypass_query io P data txid domain))) \<Longrightarrow> \<exists>ns. e = AskNameserver ns"
  by (auto simp: bypass_query_def split: prod.splits option.splits outcome.splits)

lemma tunnel_query_events:
  "e \<in> set (snd (snd (tunnel_query io P qid data txid domain qtype))) \<Longrightarrow>
     (\<exists>ns. e = AskNameserver ns) \<and> qtype \<noteq> 1 \<and> qtype \<noteq> 28
     \<or> e = AskTunnel \<lparr>dq_query_id = qid, dq_domain = domain, dq_query_type = 1\<rparr> \<and> qtype = 1"
  by (auto simp: tunnel_query_def Let_def split: prod.splits option.splits if_splits)

lemma proxy_decision_next_id [simp]:
  "fst (proxy_decision E io (P\<lparr>px_next_id := n\<rparr>) d) = fst (proxy_decision E io P d)"
  "snd (snd (proxy_decision E io (P\<lparr>px_next_id := n\<rparr>) d)) = snd (snd (proxy_decision E io P d))"
  by (simp_all add: proxy_decision_def is_server_host_def split: prod.split)

lemma proxy_decision_events: "e \<in> set (snd (snd (proxy_decision E io P d))) \<Longrightarrow> e = AskResolver d \<and> \<not> is_server_host P d \<and> validates E (px_config P) (px_data P) d"
  by (auto simp: proxy_decision_def split: prod.splits if_splits)

lemma handle_datagram_eq:
  assumes "parse_dns_query (take 512 datagram) = Ok (txid, domain, qtype)"
    and "proxy_decision E io (P\<lparr>px_next_id := px_next_id P + 1\<rparr>) (utf8_chars domain) = (d, P1, ev1)"
  shows "handle_datagram E io datagram P =
    (case d of
       Bypass \<Rightarrow> (case bypass_query io P1 (take 512 datagram) txid (utf8_chars domain) of (reply, P, ev) \<Rightarrow> (reply, P, ev1 @ ev))
     | Block \<Rightarrow> (Ok (Some (build_dns_nxdomain txid)), P1, ev1)
     | Tunnel \<Rightarrow> (case tunnel_query io P1 (px_next_id P) (take 512 datagram) txid domain qtype of (reply, P, ev) \<Rightarrow> (reply, P, ev1 @ ev)))"
  using assms by (simp add: handle_datagram_def split: routing_decision.split)

section \<open>A proxy\<close>

definition demo_name :: bytes where
  "demo_name = [98, 97, 105, 100, 117, 46, 99, 111, 109]"

definition demo_datagram :: bytes where
  "demo_datagram = [0, 7, 1, 0, 0, 1, 0, 0, 0, 0, 0, 0, 5, 98, 97, 105, 100, 117, 3, 99, 111, 109, 0, 0, 1, 0, 1]"

definition demo_proxy :: "split_tunnel_config \<Rightarrow> (cidr \<times> bool) list dns_proxy" where
  "demo_proxy config = proxy_new config (data_default demo_env 0) (resolver_new True 300 8 False True []) (codes ''vpn.example'')
     (codes ''/ws/mux'') [] []"

text \<open>Only the system resolver answers, with an address that is not Chinese.\<close>

definition demo_proxy_io :: proxy_io where
  "demo_proxy_io = \<lparr>proxy_udp = (\<lambda>_ _ _. TimedOut),
     proxy_lookup = \<lparr>lookup_udp = (\<lambda>_ _ _. TimedOut), lookup_system = (\<lambda>_ p. Some [(V4 0x08080808, p)]), lookup_now = 0,
       lookup_later = 1, lookup_final = (\<lambda>_. 0, 2), lookup_txid = 0\<rparr>,
     store_now = 3, store_final = (\<lambda>_. 0, 4), cache_now = 5, ttl_now = 6, tunnel_reply = (\<lambda>_. Some None)\<rparr>"

lemma demo_question: "parse_dns_query (take 512 demo_datagram) = Ok (7, demo_name, 1)"
  by code_simp

lemma demo_name_chars: "utf8_chars demo_name = codes ''baidu.com''"
  by (simp add: demo_name_def codes_def)

section \<open>What the proxy does with a query\<close>

text \<open>A datagram with a question is handled without a panic, and what is sent back carries the transaction id of the
  question. Public nameservers are asked only for the names of the VPN servers, for names that the split tunnel lets
  around the tunnel, and for record types other than addresses. The tunnel is asked only for IPv4 addresses of names
  that the split tunnel sends into it, never for the name of a server, and with the question as it came. The resolver of
  the split tunnel is consulted only to validate a Chinese domain, and a blocked name is answered without asking anyone.\<close>

lemma datagram_takes_one_path:
  fixes E :: "('n, 't) environment" and P :: "'t dns_proxy"
  assumes "parse_dns_query (take 512 datagram) = Ok (txid, domain, qtype)" "handle_datagram E io datagram P = (reply, P', ev)"
  defines "name \<equiv> utf8_chars domain" and "decision \<equiv> fst (proxy_decision E io P (utf8_chars domain))"
  shows "has_txid txid reply
    \<and> (AskNameserver ns \<in> set ev \<longrightarrow> decision = Bypass \<or> decision = Tunnel \<and> qtype \<noteq> 1 \<and> qtype \<noteq> 28)
    \<and> (AskTunnel q \<in> set ev \<longrightarrow> decision = Tunnel \<and> \<not> is_server_host P name \<and> qtype = 1
         \<and> q = \<lparr>dq_query_id = px_next_id P, dq_domain = domain, dq_query_type = 1\<rparr>)
    \<and> (AskResolver n \<in> set ev \<longrightarrow> n = name \<and> \<not> is_server_host P name \<and> validates E (px_config P) (px_data P) name)
    \<and> (decision = Block \<longrightarrow> reply = Ok (Some (build_dns_nxdomain txid)))"
proof -
  obtain d P1 ev1 where D: "proxy_decision E io (P\<lparr>px_next_id := px_next_id P + 1\<rparr>) name = (d, P1, ev1)" by (metis prod_cases3)
  note eq = handle_datagram_eq [OF assms(1) D [unfolded name_def], unfolded assms(2), folded name_def]
  have d: "d = decision" "ev1 = snd (snd (proxy_decision E io P name))"
    using arg_cong [OF D, of fst] arg_cong [OF D, of "\<lambda>x. snd (snd x)"] by (simp_all add: decision_def name_def)
  have server: "is_server_host P name \<Longrightarrow> decision = Bypass" by (simp add: decision_def name_def proxy_decision_def)
  note pre = proxy_decision_events [of _ E io P name, folded d(2)]
  show ?thesis
  proof (cases decision)
    case Tunnel
    obtain P2 ev2 where t: "tunnel_query io P1 (px_next_id P) (take 512 datagram) txid domain qtype = (reply, P2, ev2)" "ev = ev1 @ ev2"
      using eq d Tunnel by (auto split: prod.splits)
    note events = tunnel_query_events [of _ io P1 "px_next_id P" "take 512 datagram" txid domain qtype, unfolded t(1) snd_conv]
    have "has_txid txid reply" using tunnel_query_txid [OF assms(1)] t by (metis fst_conv)
    then show ?thesis using t(2) server Tunnel by (auto dest!: events pre)
  next
    case Bypass
    obtain P2 ev2 where t: "bypass_query io P1 (take 512 datagram) txid name = (reply, P2, ev2)" "ev = ev1 @ ev2"
      using eq d Bypass by (auto split: prod.splits)
    note events = bypass_query_events [of _ io P1 "take 512 datagram" txid name, unfolded t(1) snd_conv]
    have "has_txid txid reply" using bypass_query_txid t by (metis fst_conv)
    then show ?thesis using t(2) Bypass by (auto dest!: events pre)
  next
    case Block
    then have "reply = Ok (Some (build_dns_nxdomain txid))" "ev = ev1" using eq d by simp_all
    then show ?thesis using Block by (auto dest!: pre)
  qed
qed

lemma datagram_takes_one_path_example:
  "has_txid 7 (fst (handle_datagram demo_env demo_proxy_io demo_datagram (demo_proxy config_default)))
   \<and> (\<forall>ns. AskNameserver ns \<notin> set (snd (snd (handle_datagram demo_env demo_proxy_io demo_datagram (demo_proxy config_default)))))"
proof -
  obtain reply P' ev where h: "handle_datagram demo_env demo_proxy_io demo_datagram (demo_proxy config_default) = (reply, P', ev)"
    by (metis prod_cases3)
  have "fst (proxy_decision demo_env demo_proxy_io (demo_proxy config_default) (utf8_chars demo_name)) = Tunnel"
    by (simp add: proxy_decision_def demo_proxy_def proxy_new_def is_server_host_def demo_name_chars string_evals
        decide_with_resolver_def decide_by_host_def config_default_def split: prod.split)
  then show ?thesis using datagram_takes_one_path [OF demo_question h] by (simp add: h)
qed

text \<open>A name that must not leave the tunnel can be answered from outside it. When a Chinese domain is validated and
  its addresses turn out not to be Chinese, the query is sent into the tunnel; but the validation has left the addresses
  of the public nameservers in the cache of the resolver, and while they are fresh the client gets those addresses and
  the tunnel is not asked.\<close>

lemma validation_answers_tunnelled_query:
  fixes E :: "('n, 't) environment" and P :: "'t dns_proxy"
  assumes "parse_dns_query (take 512 datagram) = Ok (txid, domain, 1)" "name = utf8_chars domain" "L = proxy_lookup io"
    and "\<not> is_server_host P name" "validates E (px_config P) (px_data P) name" "cache_enabled (px_resolver P)"
    and "resolve (px_resolver P) (lookup_udp L) (lookup_system L) (lookup_now L) (lookup_later L) (lookup_final L) (lookup_txid L)
           name 0 = (Ok addrs, r, t)"
    and "\<not> ips_match_country E (map fst addrs) (codes ''CN'')"
    and "\<And>e. hm_get (cache r) name = Some e \<Longrightarrow> fresh (cache_now io) e"
    and "handle_datagram E io datagram P = (reply, P', ev)"
  shows "fst (proxy_decision E io P name) = Tunnel \<and> (\<forall>q. AskTunnel q \<notin> set ev)
    \<and> (\<exists>found ttl. mset found = mset (map fst addrs) \<and> reply = known_answer (take 512 datagram) txid found ttl)"
proof -
  from resolve_Ok [OF assms(6,7)] obtain e found where e: "hm_get (cache r) name = Some e" "\<not> failed e" "ips e \<noteq> []"
    "ips e = map fst found" "addrs = order_addresses (px_resolver P) found" "cache_enabled r" by blast
  have d: "proxy_decision E io (P\<lparr>px_next_id := n\<rparr>) name = (Tunnel, P\<lparr>px_next_id := n, px_resolver := r\<rparr>, [AskResolver name])" for n
    using assms(4,5,7,8)
    by (simp add: proxy_decision_def is_server_host_def decide_with_resolver_def resolve_host_to_ips_def
        decide_by_host_validating assms(3) [symmetric])
  have "lookup_cached r (cache_now io) name = Some (map fst found)"
    using e assms(9) by (auto simp: lookup_cached_def fresh_def)
  then obtain ttl where "reply = known_answer (take 512 datagram) txid (map fst found) ttl" "ev = [AskResolver name]"
    using assms(10) handle_datagram_eq [OF assms(1) d [unfolded assms(2)]] assms(2) by (auto simp: tunnel_query_def)
  moreover have "mset (map fst addrs) = mset (map fst found)" by (simp add: e(5) order_addresses_def)
  moreover have "fst (proxy_decision E io P name) = Tunnel" using d [of "px_next_id P"] by simp
  ultimately show ?thesis by (intro conjI exI [of _ "map fst found"] exI [of _ ttl]) simp_all
qed

lemma validation_answers_tunnelled_query_example:
  "let P = demo_proxy (config_default\<lparr>enabled := True\<rparr>); h = handle_datagram demo_env demo_proxy_io demo_datagram P
   in fst (proxy_decision demo_env demo_proxy_io P (codes ''baidu.com'')) = Tunnel \<and> (\<forall>q. AskTunnel q \<notin> set (snd (snd h)))
      \<and> (\<exists>ttl. fst h = known_answer (take 512 demo_datagram) 7 [V4 0x08080808] ttl)"
proof -
  let ?P = "demo_proxy (config_default\<lparr>enabled := True\<rparr>)" and ?L = "proxy_lookup demo_proxy_io"
  obtain reply P' ev where h: "handle_datagram demo_env demo_proxy_io demo_datagram ?P = (reply, P', ev)" by (metis prod_cases3)
  let ?res = "resolve (px_resolver ?P) (lookup_udp ?L) (lookup_system ?L) (lookup_now ?L) (lookup_later ?L) (lookup_final ?L)
    (lookup_txid ?L) (codes ''baidu.com'') 0"
  have res: "fst ?res = Ok [(V4 0x08080808, 0)]"
    and fresh: "\<And>e. hm_get (cache (fst (snd ?res))) (codes ''baidu.com'') = Some e \<Longrightarrow> fresh (cache_now demo_proxy_io) e"
    by (simp_all add: demo_proxy_io_def demo_proxy_def proxy_new_def resolver_new_def with_last_resort_nameservers_def resolve_def
        order_addresses_def store_ips_def evict_if_needed_def fresh_def secs_def LAST_RESORT_NAMESERVERS_def
        query_nameserver_udp_def numeral_3_eq_3 evict_by_def)
  have server: "\<not> is_server_host ?P (codes ''baidu.com'')"
    by (simp add: is_server_host_def demo_proxy_def proxy_new_def string_evals)
  have "codes ''baidu.com'' \<in> set CHINA_DOMAINS" unfolding CHINA_DOMAINS_def set_map by (rule imageI) simp
  then have "matches_china_domain (codes ''baidu.com'')" by (auto simp: matches_below below_def)
  moreover have "\<not> matches_force_tunnel_domain (codes ''baidu.com'')"
    by (simp add: matches_force_tunnel_domain_def FORCE_TUNNEL_DOMAINS_def codes_def)
  ultimately have valid: "validates demo_env (px_config ?P) (px_data ?P) (codes ''baidu.com'')"
    by (simp add: validates_def demo_proxy_def proxy_new_def config_default_def data_default_def matches_domain_below
        below_def [of "{}"])
  have country: "\<not> ips_match_country demo_env (map fst [(V4 0x08080808, 0 :: u16)]) (codes ''CN'')"
    by (simp add: ips_match_country_def demo_env_def string_evals addr_evals)
  have enabled: "cache_enabled (px_resolver ?P)" by (simp add: demo_proxy_def proxy_new_def resolver_new_def)
  obtain r t where "?res = (Ok [(V4 0x08080808, 0)], r, t)" using res by (metis prod.collapse)
  note this fresh [unfolded this, simplified]
  from validation_answers_tunnelled_query [OF demo_question demo_name_chars [symmetric] refl server valid enabled this(1) country this(2) h]
  show ?thesis by (auto simp: h Let_def mset_single_iff)
qed

text \<open>Whatever happens during a session, a query that was sent is answered at most once, and only with the response
  that bears its id or with the failure of the session; the queries that are not answered are exactly those still
  pending, and a session that ends because the connection closed, fell silent or left a query unanswered for ten seconds
  leaves none.\<close>

lemma session_answers_each_query_once:
  assumes "ws_reach r trace s replies go" "distinct (sent_ids trace)"
  shows "distinct (map fst replies) \<and> set (map fst replies) = set (sent_ids trace) - fst ` set (ws_pending s)
    \<and> (\<forall>q response. (q, Some response) \<in> set replies \<longrightarrow> dr_query_id response = q)
    \<and> (\<not> go \<longrightarrow> last trace = Shutdown \<or> (\<exists>query now. last trace = Query query False now)
         \<or> set (map fst replies) = set (sent_ids trace))"
proof -
  note inv = ws_reach_inv [OF assms, unfolded ws_inv_def]
  have "set (map fst replies) = set (sent_ids trace) - fst ` set (ws_pending s)"
    using inv by (auto simp: keys_def)
  moreover have "last trace = Shutdown \<or> (\<exists>query now. last trace = Query query False now) \<or> ws_pending s = []" if "\<not> go"
    using assms(1) that by (cases rule: ws_reach.cases) (auto dest: ws_step_ends)
  ultimately show ?thesis using inv by auto
qed

lemma session_answers_each_query_once_example:
  "\<exists>s replies. ws_reach (resolver_new True 300 8 False True [])
       [Query \<lparr>dq_query_id = 1, dq_domain = demo_name, dq_query_type = 1\<rparr> True 0, Closed (\<lambda>_. 0)] s replies False
     \<and> set (map fst replies) = {1}"
proof -
  let ?q = "\<lparr>dq_query_id = 1, dq_domain = demo_name, dq_query_type = 1\<rparr>"
  let ?r = "resolver_new True 300 8 False True []"
  let ?s = "\<lparr>ws_pending = [(1, \<lparr>pq_domain = utf8_chars demo_name, pq_sent_at = 0\<rparr>)], ws_resolver = ?r\<rparr>"
  have "ws_reach ?r [Query ?q True 0] ?s [] True"
    using ws_reach.step [OF ws_reach.start, of "Query ?q True 0" ?r ?s "[]" True] by simp
  then have reach: "ws_reach ?r [Query ?q True 0, Closed (\<lambda>_. 0)] (?s\<lparr>ws_pending := []\<rparr>) [(1, None)] False"
    using ws_reach.step [of ?r "[Query ?q True 0]" ?s "[]" "Closed (\<lambda>_. 0)" "?s\<lparr>ws_pending := []\<rparr>" "[(1, None)]" False]
    by (simp add: fail_pending_def iterate_def)
  have "distinct (sent_ids [Query ?q True 0, Closed (\<lambda>_. 0)])" by simp
  from session_answers_each_query_once [OF reach this] reach show ?thesis
    by (intro exI [of _ "?s\<lparr>ws_pending := []\<rparr>"] exI [of _ "[(1, None)]"]) simp
qed

end
