(* ===== verification/Spec2Isabelle.thy ===== *)
theory Spec2Isabelle
  imports Codec Padding Length_Framing Ratchet_Correct Ratchet_Wire X3dh Identity_Pin Multiplex Flow_Credits Packet
    Nat_Rewrite Tun_Server Tun_Batch Rate_Limiter Routing Identity_File Mobile_Dns Dns_Proxy
begin

text \<open>
  R-VPN: a VPN whose clients (desktop proxy, iOS and Android packet tunnels) speak to one server over an encrypted,
  padded, multiplexed stream inside a WebSocket. The shared code is the crate \<open>rvpn-core\<close>; \<open>rvpn-server\<close> ends the
  tunnel, \<open>rvpn-mobile\<close> and \<open>rvpn-client\<close> are its other ends, \<open>rvpn-split-tunnel\<close> decides which traffic enters it.
  All paths below are under \<open>src/rvpn/crates/\<close>.

  \<^bold>\<open>How the parts interact.\<close> A client agrees on a secret with the server (X3DH), both start a Double Ratchet from it,
  and from then on every message of the tunnel is: packets or frames, multiplexed under a flow id, collected into a
  batch, padded to whole kilobytes, encrypted by the ratchet, serialised. The server leases an address of its pool to
  the session, routes packets from its TUN device back by that address, and a mobile client with several sessions
  rewrites addresses so that the applications see one. The theorem \<open>handshake_then_tunnel\<close> below goes through
  these layers in one statement.

  \<^bold>\<open>Conventions.\<close> A Rust function is a HOL function of the same name (suffixed where HOL has that name). \<open>&mut self\<close>
  is a state argument that is returned updated. Every call ends in an \<open>outcome\<close>: \<open>Ok\<close>, \<open>Err\<close> with the error of the
  source, or \<open>Panic\<close> for an index, slice or \<open>expect\<close> that fails. Integers keep their widths and wrap as in a release
  build. \<open>usize\<close> is \<open>nat\<close> where lengths of vectors in memory bound it; where a number from the wire is added to a
  position, its width is a parameter (\<open>Codec\<close>), since the program is also built for 32-bit ARM; elsewhere (a cast of a
  \<open>u64\<close> in \<open>Ratchet\<close>, the predecessor of a limit in \<open>Caches\<close>) it has 64 bits. Random values, clock readings and the
  readiness of channels are arguments. Code outside the repository (AEAD, curves, hashes, bincode, lru, \<open>ip_network\<close>
  and its table, base64, JSON, \<open>hickory_proto\<close>, Unicode case tables, tokio's \<open>Notify\<close>) is a record of functions with a
  predicate that states its documented behaviour (only where a theorem relies on it:
  \<open>aead_ok\<close>, \<open>crypto_ok\<close>, \<open>ed_ok\<close>, \<open>lru_ok\<close>, \<open>bincode_ok\<close>, \<open>pin_ok\<close>, \<open>bytes_ok\<close>, \<open>control_ok\<close>, \<open>notify_ok\<close>,
  \<open>base64_ok\<close>, \<open>network_ok\<close>, \<open>table_ok\<close>, \<open>lowercase_ok\<close>, \<open>hickory_ok\<close>); a concrete instance
  (\<open>demo_...\<close>) in the witnesses shows that each of them can hold.

  \<^bold>\<open>The theories.\<close>

  \<^item> \<open>Rvpn_Prelude\<close>, \<open>Rust_Strings\<close>: outcomes, indexing, integers as bytes, UTF-8, IP addresses; strings as lists of
    code points with the operations of \<open>str\<close> in use.
  \<^item> \<open>Messages\<close>, \<open>Codec\<close>: \<open>rvpn-core/src/protocol/message.rs\<close> and \<open>codec.rs\<close>. Every encoder and decoder; which inputs
    make a decoder panic (none where \<open>usize\<close> is wider than 32 bits), what they accept, and that the casts of lengths lose
    what the widths cannot hold. The locale \<open>message_codec\<close> states the contract of a codec once and is interpreted on each message.
  \<^item> \<open>Padding\<close>: \<open>protocol/padding.rs\<close> and \<open>frame_padding.rs\<close>; the locale \<open>padding_scheme\<close> and its two interpretations.
  \<^item> \<open>Crypto\<close>, \<open>Channel\<close>, \<open>Length_Framing\<close>: the AEAD wrapper and key derivation (\<open>crypto/cipher.rs\<close>, \<open>crypto/mod.rs\<close>), the
    contract of an ordered encrypted channel with its consequences (locales \<open>ordered_channel\<close>, \<open>duplex_channel\<close>), and
    \<open>protocol/length_framing.rs\<close> as one such channel.
  \<^item> \<open>Ratchet\<close>, \<open>Ratchet_Correct\<close>, \<open>Ratchet_Wire\<close>: \<open>crypto/ratchet.rs\<close> (\<open>DoubleRatchet\<close>): its invariant, agreement of the
    decryption variants, refinement to two queues, what forged and overtaken messages do, and its wire format.
  \<^item> \<open>X3dh\<close>, \<open>Identity_Pin\<close>, \<open>Identity_File\<close>: \<open>crypto/x3dh.rs\<close>, \<open>identity_pin.rs\<close>, and the text files of
    \<open>IdentityKey::load\<close> and \<open>save\<close>.
  \<^item> \<open>Multiplex\<close>, \<open>Flow_Credits\<close>: \<open>protocol/multiplex.rs\<close>. The streaming codec is an \<open>incremental_parser\<close>; the credits are a
    step relation with one step per access to an atomic, with conservation and absence of lost wake-ups.
  \<^item> \<open>Packet\<close>, \<open>Nat_Rewrite\<close>: \<open>protocol/packet.rs\<close> and \<open>rvpn-mobile/src/nat_rewrite.rs\<close>, with the Internet checksum at its
    width and its incremental update.
  \<^item> \<open>Ip_Pool\<close>, \<open>Tun_Server\<close>: \<open>rvpn-server/src/tun_server.rs\<close>; the pool's critical sections are steps of interleaving
    threads.
  \<^item> \<open>Tunnel\<close>, \<open>Tun_Batch\<close>: one tunnel message through all layers at the ends in \<open>rvpn-server/src/handler.rs\<close>,
    \<open>rvpn-mobile/src/server_session.rs\<close> and \<open>android_server_session.rs\<close>, and the loops that form batches (locale
    \<open>batching\<close>).
  \<^item> \<open>Net_Addr\<close>, \<open>Split_Router\<close>, \<open>Builtin_Domains\<close>, \<open>Split_Tunnel\<close>: addresses and networks as text; the crate
    \<open>rvpn-split-tunnel\<close>: \<open>router.rs\<close> (which server a name or address goes to), \<open>builtin_domains.rs\<close>, \<open>config.rs\<close> and
    \<open>split_tunnel.rs\<close> (which traffic enters the tunnel), with the decision of the desktop proxies. The model is that of a
    build with the feature \<open>builtin-domains\<close>: desktop, macOS and Android, not iOS.
  \<^item> \<open>Dns_Wire\<close>, \<open>Caches\<close>, \<open>Dns_Cache\<close>, \<open>Doh_Cache\<close>, \<open>Route_Map\<close>: DNS messages on bytes (\<open>dns_cache.rs\<close> and
    \<open>rvpn-client/src/dns_proxy.rs\<close>), hash maps with expiry and eviction, the resolver of \<open>dns_cache.rs\<close>, and the DoH client's
    cache and the learned routes of \<open>rvpn-mobile\<close> (\<open>doh_client.rs\<close>, \<open>route_map.rs\<close>): they stay bounded and serve what was
    written last.
  \<^item> \<open>Host_Decision\<close>, \<open>Mobile_Dns\<close>, \<open>Dns_Proxy\<close>: the name servers of the mobile apps (\<open>rvpn-mobile/src/dns_server.rs\<close>) and of
    the desktop client (\<open>rvpn-client/src/dns_proxy.rs\<close>) over the decisions and caches above: which path a query takes, that
    an answer steers the packets that use it, and that every query of a session is answered once.
  \<^item> \<open>Rate_Limiter\<close>, \<open>Routing\<close>: the limiter of \<open>rvpn-server/src/handler.rs\<close> and \<open>rvpn-core/src/routing.rs\<close>.

  \<^bold>\<open>Loops and bounds.\<close> Loops over data are structural or have a termination proof; none needs fuel. Loops that wait for
  input (the batching loops, the flow credits, the session of the DNS proxy) take the sequence of inputs as an argument
  or are step relations, and the theorems quantify over all sequences.

  \<^bold>\<open>Not modelled.\<close> Sockets, TLS, timers, files and process start-up; the foreign-function interfaces of the mobile
  clients; configuration structs that only serde touches; metrics and rendering. \<open>SplitRatchet\<close> is used by its own tests
  only.
\<close>

section \<open>From the handshake to the packets\<close>

text \<open>C1: end to end. An X3DH initiator of either kind and any responder agree on a secret, and both ratchets initialise from it. Then,
  in every state of the session that client and server can reach, sending batches, keepalives, flow data and control
  frames and receiving in any interleaving with any randomness: every result of \<open>decrypt_and_parse_frame\<close> at the server is the list of frames
  that the client sent, in order and each once, with its payload type; every delivery of the client to the operating
  system is what the client's view makes of the frames that the server sent (their packets unchanged on the default
  session; rewritten to the primary address, or dropped, on a secondary one); what is missing is exactly what is still
  under way; and an iOS client can always send a batch that fits.\<close>

theorem handshake_then_tunnel:
  assumes "crypto_ok P" "lru_ok L" "bincode_ok B" "bytes_ok R" "wf_initiator P i"
  shows "\<exists>ss mat a b. initiator_agree P i (get_public_bundle P E r) = Ok (ss, mat)
    \<and> responder_agree P r (xm_identity_x25519_public mat) (xm_ephemeral_public mat) (xm_one_time_prekey mat \<noteq> None) = Ok ss
    \<and> dr_init_alice P L fa ss = (Ok a :: (crypt_error, _) outcome) \<and> dr_init_bob P L fb ss = (Ok b :: (crypt_error, _) outcome)
    \<and> (\<forall>s. (tunnel_step P L B R C role)\<^sup>*\<^sup>* (tunnel_start a b) s \<longrightarrow>
         got_up s = map (\<lambda>x. Ok (server_view x)) (take (length (got_up s)) (sent_up s))
         \<and> got_down s = map (\<lambda>x. Ok (client_view role x)) (take (length (got_down s)) (sent_down s))
         \<and> length (sent_up s) = length (got_up s) + length (uplink s)
         \<and> length (sent_down s) = length (got_down s) + length (downlink s)
         \<and> (\<forall>packets rnd fill buf. ios_batch_fits packets \<longrightarrow> packets \<noteq> [] \<longrightarrow> fills fill \<longrightarrow> length rnd = 12 \<longrightarrow>
              (\<exists>w a'. ios_encrypt_data_batch P B (client s) rnd fill packets buf = (Ok w, a'))))"
proof -
  obtain ss mat where x: "initiator_agree P i (get_public_bundle P E r) = Ok (ss, mat)"
    "responder_agree P r (xm_identity_x25519_public mat) (xm_ephemeral_public mat) (xm_one_time_prekey mat \<noteq> None) = Ok ss"
    by (rule x3dh_agree [OF assms(1,5)])
  obtain a b where i: "dr_init_alice P L fa ss = (Ok a :: (crypt_error, _) outcome)"
    "dr_init_bob P L fb ss = (Ok b :: (crypt_error, _) outcome)" "dr_flow P L a [] b" "dr_flow P L b [] a"
    by (rule dr_init_flow [OF assms(1,2)])
  have run: "tunnel_inv P L role s" if "(tunnel_step P L B R C role)\<^sup>*\<^sup>* (tunnel_start a b) s" for s
    by (rule tunnel_run_inv [OF assms(3,4) i(3,4) that])
  show ?thesis
    by (rule exI [of _ ss], rule exI [of _ mat], rule exI [of _ a], rule exI [of _ b])
       (use x i(1,2) tunnel_inv_delivers [OF run] tunnel_inv_sends [OF run assms(3,1)] in simp)
qed

theorem handshake_then_tunnel_witness:
  "\<exists>ss mat a b s. initiator_agree demo_crypto (initiator_new demo_crypto demo_ed25519 (replicate 32 1) (replicate 32 2))
       (get_public_bundle demo_crypto demo_ed25519 (responder_new (replicate 32 3) (replicate 32 4))) = Ok (ss, mat)
     \<and> dr_init_alice demo_crypto demo_lru [1] ss = (Ok a :: (crypt_error, _) outcome)
     \<and> dr_init_bob demo_crypto demo_lru [2] ss = (Ok b :: (crypt_error, _) outcome)
     \<and> (tunnel_step demo_crypto demo_lru demo_bincode demo_bytes demo_control \<lparr>platform = Ios, is_default = True, primary_ip = None\<rparr>)\<^sup>*\<^sup>*
         (tunnel_start a b) s
     \<and> got_up s = [Ok [(1, [0x45, 7], PAYLOAD_DATA)]]"
proof -
  let ?i = "initiator_new demo_crypto demo_ed25519 (replicate 32 1) (replicate 32 2)"
  let ?r = "responder_new (replicate 32 3) (replicate 32 4)"
  let ?role = "\<lparr>platform = Ios, is_default = True, primary_ip = None\<rparr>"
  have "wf_initiator demo_crypto ?i" by simp
  from handshake_then_tunnel [OF demo_crypto_ok demo_lru_ok demo_bincode_ok demo_bytes_ok this,
      of demo_ed25519 ?r "[1]" "[2]" demo_control ?role]
  obtain ss mat a b where w: "initiator_agree demo_crypto ?i (get_public_bundle demo_crypto demo_ed25519 ?r) = Ok (ss, mat)"
    "dr_init_alice demo_crypto demo_lru [1] ss = (Ok a :: (crypt_error, _) outcome)"
    "dr_init_bob demo_crypto demo_lru [2] ss = (Ok b :: (crypt_error, _) outcome)"
    and got: "\<And>s. (tunnel_step demo_crypto demo_lru demo_bincode demo_bytes demo_control ?role)\<^sup>*\<^sup>* (tunnel_start a b) s \<Longrightarrow>
      got_up s = map (\<lambda>x. Ok (server_view x)) (take (length (got_up s)) (sent_up s))"
    by blast
  note f = dr_init_flowD [OF demo_crypto_ok demo_lru_ok w(2,3)]
  obtain s where s: "(tunnel_step demo_crypto demo_lru demo_bincode demo_bytes demo_control ?role)\<^sup>*\<^sup>* (tunnel_start a b) s"
    "sent_up s = [(PAYLOAD_DATA, map (new_data 1) [[0x45, 7]])]" "length (got_up s) = 1"
    by (rule one_batch_run [OF demo_bincode_ok demo_bytes_ok f demo_packets]) simp_all
  have "got_up s = [Ok [(1, [0x45, 7], PAYLOAD_DATA)]]"
    using got [OF s(1)] by (simp add: s(2,3) server_view_def new_data_def)
  with w s(1) show ?thesis by blast
qed

end
